(* ===== verification/Prelude.thy ===== *)
theory Prelude
  imports Complex_Main "HOL-Library.Product_Lexorder" "HOL-Library.List_Lexorder" "HOL-Library.Char_ord"
begin

text \<open>
  Shared vocabulary of the development: instants of the database clock, JSON documents,
  set-based SQL statements on a list of rows (\<open>UPDATE ... WHERE\<close>, \<open>ORDER BY ... LIMIT 1\<close>),
  slices of a list, and the lemmas about them that the components share.
\<close>

named_theorems sql_simps \<open>how the set-based statements act on rows\<close>

subsection \<open>Time and values\<close>

text \<open>An instant is a number of microseconds, the resolution of \<open>timestamptz\<close>.\<close>

type_synonym instant = int

definition secs :: "int \<Rightarrow> instant" where
  "secs n = 1000000 * n"

lemma secs_mono [simp]: "secs m \<le> secs n \<longleftrightarrow> m \<le> n"
  by (simp add: secs_def)

lemma secs_less [simp]: "secs m < secs n \<longleftrightarrow> m < n"
  by (simp add: secs_def)

lemma secs_0 [simp]: "secs 0 = 0"
  by (simp add: secs_def)

lemma secs_pos [simp]: "0 < secs n \<longleftrightarrow> 0 < n" "0 \<le> secs n \<longleftrightarrow> 0 \<le> n"
  by (simp_all add: secs_def)

lemma secs_add: "secs (m + n) = secs m + secs n"
  by (simp add: secs_def)

text \<open>A decoded JSON value as Python sees it (\<open>bool\<close> apart from \<open>int\<close>).\<close>

datatype json =
    JNull | JBool bool | JInt int | JFloat rat | JStr string
  | JArr "json list" | JObj "(string \<times> json) list"

type_synonym payload = "(string \<times> json) list"

subsection \<open>Set-based statements on a list of rows\<close>

definition update_where :: "('r \<Rightarrow> bool) \<Rightarrow> ('r \<Rightarrow> 'r) \<Rightarrow> 'r list \<Rightarrow> 'r list" where
  "update_where P f rs = map (\<lambda>r. if P r then f r else r) rs"

lemma update_where_Nil [simp]: "update_where P f [] = []"
  by (simp add: update_where_def)

lemma update_where_Cons [simp]:
  "update_where P f (r # rs) = (if P r then f r else r) # update_where P f rs"
  by (simp add: update_where_def)

lemma length_update_where [simp]: "length (update_where P f rs) = length rs"
  by (simp add: update_where_def)

lemma set_update_where [sql_simps]:
  "set (update_where P f rs) = (\<lambda>r. if P r then f r else r) ` set rs"
  by (simp add: update_where_def)

lemma update_where_mem:
  assumes "q \<in> set (update_where P f rs)"
  obtains r where "r \<in> set rs" and "P r" and "q = f r" | "q \<in> set rs" and "\<not> P q"
  using assms unfolding set_update_where by (auto split: if_splits)

lemma update_where_hit: "r \<in> set rs \<Longrightarrow> P r \<Longrightarrow> f r \<in> set (update_where P f rs)"
  by (force simp: set_update_where)

lemma update_where_miss: "r \<in> set rs \<Longrightarrow> \<not> P r \<Longrightarrow> r \<in> set (update_where P f rs)"
  by (force simp: set_update_where)

lemma map_update_where [sql_simps]:
  assumes "\<And>r. key (f r) = key r"
  shows "map key (update_where P f rs) = map key rs"
  using assms by (induction rs) auto

lemma image_update_where:
  assumes "\<And>r. key (f r) = key r"
  shows "key ` set (update_where P f rs) = key ` set rs"
  using map_update_where [where key = key and f = f, OF assms, of P rs] by (metis list.set_map)

lemma update_where_id:
  assumes "\<And>r. r \<in> set rs \<Longrightarrow> P r \<Longrightarrow> f r = r"
  shows "update_where P f rs = rs"
  using assms by (induction rs) auto

text \<open>\<open>ORDER BY key LIMIT 1\<close>, and Python's \<open>sorted(xs, key=key)[0]\<close>: both stable.\<close>

definition first_by :: "('a \<Rightarrow> 'k::linorder) \<Rightarrow> 'a list \<Rightarrow> 'a option" where
  "first_by key xs = (case sort_key key xs of [] \<Rightarrow> None | x # _ \<Rightarrow> Some x)"

lemma first_by_None [simp]: "first_by key xs = None \<longleftrightarrow> xs = []"
proof -
  have "sort_key key xs = [] \<longleftrightarrow> xs = []"
    by (metis length_0_conv length_sort)
  then show ?thesis by (cases "sort_key key xs") (auto simp: first_by_def)
qed

lemma first_by_Some:
  assumes "first_by key xs = Some x"
  shows "x \<in> set xs" and "y \<in> set xs \<Longrightarrow> key x \<le> key y"
proof -
  obtain ys where ys: "sort_key key xs = x # ys"
    using assms by (auto simp: first_by_def split: list.splits)
  then have set_eq: "set xs = insert x (set ys)"
    by (metis list.simps(15) set_sort)
  have "sorted (map key (x # ys))"
    using sorted_sort_key [of key xs] ys by simp
  then show "x \<in> set xs" and "y \<in> set xs \<Longrightarrow> key x \<le> key y"
    using set_eq by auto
qed

text \<open>
  The interface of an ordered choice: a chooser that takes the first eligible element
  under a key. Whoever claims, delivers or selects by a ranking provides it.
\<close>

locale ordered_choice =
  fixes pick :: "'a list \<Rightarrow> 'a option"
    and eligible :: "'a \<Rightarrow> bool"
    and key :: "'a \<Rightarrow> 'k::linorder"
  assumes pick_first: "pick xs = first_by key (filter eligible xs)"
begin

lemma pick_None: "pick xs = None \<longleftrightarrow> (\<forall>x \<in> set xs. \<not> eligible x)"
  by (simp add: pick_first filter_empty_conv)

lemma pick_mem: "pick xs = Some x \<Longrightarrow> x \<in> set xs \<and> eligible x"
  using first_by_Some(1) [of key "filter eligible xs" x] by (simp add: pick_first)

lemma pick_least:
  "pick xs = Some x \<Longrightarrow> y \<in> set xs \<Longrightarrow> eligible y \<Longrightarrow> key x \<le> key y"
  using first_by_Some(2) [of key "filter eligible xs" x y] by (simp add: pick_first)

lemma pick_exists: "x \<in> set xs \<Longrightarrow> eligible x \<Longrightarrow> \<exists>y. pick xs = Some y"
  using pick_None by blast

end

subsection \<open>Slices\<close>

text \<open>\<open>for start in range(0, len(xs), n): xs[start : start + n]\<close>.\<close>

function chunks :: "nat \<Rightarrow> 'a list \<Rightarrow> 'a list list" where
  "chunks n xs = (if xs = [] \<or> n = 0 then [] else take n xs # chunks n (drop n xs))"
  by pat_completeness auto
termination
  by (relation "measure (\<lambda>(n, xs). length xs)") auto

declare chunks.simps [simp del]

lemma chunks_Nil [simp]: "chunks n [] = []"
  by (simp add: chunks.simps)

lemma concat_chunks: "0 < n \<Longrightarrow> concat (chunks n xs) = xs"
proof (induction n xs rule: chunks.induct)
  case (1 n xs)
  then show ?case by (cases "xs = []") (simp_all add: chunks.simps [of n xs])
qed

lemma chunks_length: "ys \<in> set (chunks n xs) \<Longrightarrow> length ys \<le> n"
proof (induction n xs rule: chunks.induct)
  case (1 n xs)
  then show ?case by (cases "xs = [] \<or> n = 0") (auto simp: chunks.simps [of n xs])
qed

subsection \<open>Printing\<close>

text \<open>\<open>str\<close> of a natural number, and \<open>sep.join\<close>.\<close>

fun nat_digits :: "nat \<Rightarrow> string" where
  "nat_digits n = (if n < 10 then [char_of (48 + n)]
     else nat_digits (n div 10) @ [char_of (48 + n mod 10)])"

declare nat_digits.simps [simp del]

definition int_digits :: "int \<Rightarrow> string" where
  "int_digits i = (if i < 0 then CHR ''-'' # nat_digits (nat (- i)) else nat_digits (nat i))"

fun join :: "string \<Rightarrow> string list \<Rightarrow> string" where
  "join sep [] = []"
| "join sep [x] = x"
| "join sep (x # y # ys) = x @ sep @ join sep (y # ys)"

subsection \<open>repr of a string\<close>

definition hex_digit :: "nat \<Rightarrow> char" where
  "hex_digit n = ''0123456789abcdef'' ! n"

text \<open>
  How \<open>!r\<close> prints an ASCII string: single quotes unless only double ones avoid an escape,
  and backslash escapes for the quote, the backslash and the control characters.
\<close>

definition repr_char :: "char \<Rightarrow> char \<Rightarrow> string" where
  "repr_char q c =
     (let n = of_char c :: nat in
      if c = q \<or> n = 92 then [char_of (92::nat), c]
      else if n = 9 then [char_of (92::nat), CHR ''t'']
      else if n = 10 then [char_of (92::nat), CHR ''n'']
      else if n = 13 then [char_of (92::nat), CHR ''r'']
      else if n < 32 \<or> n = 127
      then [char_of (92::nat), CHR ''x'', hex_digit (n div 16), hex_digit (n mod 16)]
      else [c])"

definition py_repr :: "string \<Rightarrow> string" where
  "py_repr s =
     (let q = (if char_of (39::nat) \<in> set s \<and> char_of (34::nat) \<notin> set s
               then char_of (34::nat) else char_of (39::nat))
      in q # concat (map (repr_char q) s) @ [q])"

subsection \<open>Unique keys\<close>

lemma distinct_map_inj:
  "distinct (map key rs) \<Longrightarrow> r \<in> set rs \<Longrightarrow> r' \<in> set rs \<Longrightarrow> key r = key r' \<Longrightarrow> r = r'"
  by (auto simp: distinct_map inj_on_def)

lemma find_Some_mem: "List.find P xs = Some x \<Longrightarrow> x \<in> set xs \<and> P x"
  by (auto simp: find_Some_iff in_set_conv_nth)

lemma find_None: "List.find P xs = None \<longleftrightarrow> (\<forall>x \<in> set xs. \<not> P x)"
  by (auto simp: find_None_iff)

lemma find_append: "List.find P (xs @ ys) =
    (case List.find P xs of None \<Rightarrow> List.find P ys | Some x \<Rightarrow> Some x)"
  by (induction xs) auto

lemma find_unique:
  assumes "distinct (map key rs)" and "r \<in> set rs" and "key r = k"
  shows "List.find (\<lambda>r. key r = k) rs = Some r"
proof (cases "List.find (\<lambda>r. key r = k) rs")
  case None
  with assms show ?thesis by (auto simp: find_None)
next
  case (Some r')
  with assms find_Some_mem [OF Some] distinct_map_inj [of key rs r' r] show ?thesis by auto
qed

end
