(* ===== verification/Jobs.thy ===== *)
theory Jobs
  imports Prelude
begin

text \<open>
  The durable work queue (\<open>queue/jobs.py\<close>, the \<open>Job\<close> table of \<open>db/models.py\<close>) and the HTTP
  operations on it (\<open>api/jobs.py\<close>, \<open>api/routes.py\<close>). A table is its rows in insertion order
  and the next value of its id sequence; \<open>now\<close> is the database clock of the statement's
  transaction. Each operation is one committed transaction; a statement that would break
  the partial unique index \<open>uq_jobs_pending_dedupe\<close> is the error \<open>Unique_violation\<close>.
\<close>

subsection \<open>The table\<close>

datatype job_state =
    Pending | Running | Deferred | Done | Done_with_warnings | Failed | Parked | Dismissed

record job =
  job_id :: nat
  job_kind :: string
  job_payload :: payload
  dedupe_key :: "string option"
  job_state :: job_state
  attempts :: nat
  run_after :: instant
  claimed_by :: "string option"
  claimed_at :: "instant option"
  cancel_requested :: bool
  last_error :: "string option"
  created_at :: instant
  updated_at :: instant

record jobs_db =
  db_rows :: "job list"
  db_next :: nat

datatype db_error = Unique_violation | No_result_found

definition MAX_ATTEMPTS :: nat where
  "MAX_ATTEMPTS = 5"

definition BACKOFF_BASE_SECONDS :: int where
  "BACKOFF_BASE_SECONDS = 30"

definition DEFER_INTERVAL_SECONDS :: int where
  "DEFER_INTERVAL_SECONDS = 6 * 60 * 60"

definition RECLAIM_STAGGER_SECONDS :: int where
  "RECLAIM_STAGGER_SECONDS = 30"

definition BATCH_ROWS :: nat where
  "BATCH_ROWS = 1000"

text \<open>The predicate of the partial unique index, and the index itself.\<close>

definition claimable :: "job_state \<Rightarrow> bool" where
  "claimable s \<longleftrightarrow> s = Pending \<or> s = Deferred"

definition live_key :: "job \<Rightarrow> string option" where
  "live_key j = (if claimable (job_state j) then dedupe_key j else None)"

definition uq_jobs_pending_dedupe :: "job list \<Rightarrow> bool" where
  "uq_jobs_pending_dedupe rs \<longleftrightarrow> distinct (List.map_filter live_key rs)"

text \<open>A statement that sets the rows, refused where the index would be broken.\<close>

definition commit_rows :: "jobs_db \<Rightarrow> job list \<Rightarrow> db_error + jobs_db" where
  "commit_rows db rs =
     (if uq_jobs_pending_dedupe rs then Inr (db\<lparr>db_rows := rs\<rparr>) else Inl Unique_violation)"

definition tab :: "job list \<Rightarrow> nat \<Rightarrow> job option" where
  "tab rs i = List.find (\<lambda>j. job_id j = i) rs"

definition job_by_id :: "jobs_db \<Rightarrow> nat \<Rightarrow> job option" where
  "job_by_id db i = tab (db_rows db) i"

text \<open>
  The ORM writes a row only when an attribute changed, and then stamps \<open>updated_at\<close>
  (the column's \<open>onupdate\<close>).
\<close>

definition orm_flush :: "instant \<Rightarrow> job \<Rightarrow> job \<Rightarrow> job" where
  "orm_flush now old new = (if new = old then old else new\<lparr>updated_at := now\<rparr>)"

definition put_job :: "job \<Rightarrow> job list \<Rightarrow> job list" where
  "put_job j' rs = update_where (\<lambda>j. job_id j = job_id j') (\<lambda>_. j') rs"

subsection \<open>enqueue, enqueue\_batch\<close>

definition new_job ::
  "nat \<Rightarrow> instant \<Rightarrow> string \<Rightarrow> payload \<Rightarrow> string option \<Rightarrow> instant \<Rightarrow> job" where
  "new_job i now kind payload dkey run_at =
     \<lparr>job_id = i, job_kind = kind, job_payload = payload, dedupe_key = dkey,
      job_state = Pending, attempts = 0, run_after = run_at, claimed_by = None,
      claimed_at = None, cancel_requested = False, last_error = None,
      created_at = now, updated_at = now\<rparr>"

text \<open>The row an insert for \<open>dkey\<close> conflicts with: a live row of the same key.\<close>

definition conflicting :: "string option \<Rightarrow> job list \<Rightarrow> job option" where
  "conflicting dkey rs = (case dkey of None \<Rightarrow> None
     | Some k \<Rightarrow> List.find (\<lambda>j. live_key j = Some k) rs)"

text \<open>
  \<open>INSERT ... ON CONFLICT (dedupe_key) DO UPDATE ... WHERE state = 'deferred' RETURNING id\<close>.
  The id sequence advances even when nothing is inserted.
\<close>

definition enqueue ::
  "instant \<Rightarrow> string \<Rightarrow> payload \<Rightarrow> string option \<Rightarrow> int \<Rightarrow> jobs_db \<Rightarrow> jobs_db \<times> nat option" where
  "enqueue now kind payload dkey delay_seconds db =
     (let run_at = now + secs delay_seconds;
          db' = db\<lparr>db_next := Suc (db_next db)\<rparr>
      in case conflicting dkey (db_rows db) of
           None \<Rightarrow>
             (db'\<lparr>db_rows := db_rows db @ [new_job (db_next db) now kind payload dkey run_at]\<rparr>,
              Some (db_next db))
         | Some j \<Rightarrow>
             if job_state j = Deferred
             then (db'\<lparr>db_rows := put_job
                     (j\<lparr>job_state := Pending, run_after := run_at, updated_at := now,
                        last_error := None\<rparr>) (db_rows db)\<rparr>,
                   Some (job_id j))
             else (db', None))"

text \<open>One row of a batch: \<open>ON CONFLICT DO NOTHING\<close>; the counter is the statement's rowcount.\<close>

fun insert_or_skip ::
  "instant \<Rightarrow> string \<Rightarrow> jobs_db \<times> nat \<Rightarrow> payload \<times> string \<Rightarrow> jobs_db \<times> nat" where
  "insert_or_skip now kind (db, n) (payload, key) =
     (let db' = db\<lparr>db_next := Suc (db_next db)\<rparr>
      in case conflicting (Some key) (db_rows db) of
           None \<Rightarrow>
             (db'\<lparr>db_rows := db_rows db @ [new_job (db_next db) now kind payload (Some key) now]\<rparr>,
              Suc n)
         | Some _ \<Rightarrow> (db', n))"

fun enqueue_batches ::
  "instant \<Rightarrow> string \<Rightarrow> (payload \<times> string) list list \<Rightarrow> jobs_db \<times> nat \<Rightarrow> jobs_db \<times> nat" where
  "enqueue_batches now kind [] acc = acc"
| "enqueue_batches now kind (batch # rest) acc =
     (let (db, inserted) = acc;
          (db', rowcount) = foldl (insert_or_skip now kind) (db, 0) batch
      in enqueue_batches now kind rest (db', inserted + rowcount))"

definition enqueue_batch ::
  "instant \<Rightarrow> string \<Rightarrow> (payload \<times> string) list \<Rightarrow> jobs_db \<Rightarrow> jobs_db \<times> nat" where
  "enqueue_batch now kind entries db = enqueue_batches now kind (chunks BATCH_ROWS entries) (db, 0)"

subsection \<open>claim\<close>

definition due :: "instant \<Rightarrow> (nat \<Rightarrow> bool) \<Rightarrow> job \<Rightarrow> bool" where
  "due now locked j \<longleftrightarrow> claimable (job_state j) \<and> run_after j \<le> now \<and> \<not> locked (job_id j)"

definition claim_key :: "job \<Rightarrow> instant \<times> nat" where
  "claim_key j = (run_after j, job_id j)"

text \<open>
  The subselect of \<open>_CLAIM_SQL\<close>; \<open>locked\<close> holds of the rows another transaction has
  locked, which \<open>FOR UPDATE SKIP LOCKED\<close> passes over.
\<close>

definition next_due :: "instant \<Rightarrow> (nat \<Rightarrow> bool) \<Rightarrow> job list \<Rightarrow> job option" where
  "next_due now locked rs = first_by claim_key (filter (due now locked) rs)"

definition claimed :: "instant \<Rightarrow> string \<Rightarrow> job \<Rightarrow> job" where
  "claimed now worker j = j\<lparr>job_state := Running, claimed_by := Some worker,
     claimed_at := Some now, attempts := attempts j + 1, updated_at := now\<rparr>"

definition claim ::
  "instant \<Rightarrow> (nat \<Rightarrow> bool) \<Rightarrow> string \<Rightarrow> jobs_db \<Rightarrow> jobs_db \<times> job option" where
  "claim now locked worker db = (case next_due now locked (db_rows db) of
       None \<Rightarrow> (db, None)
     | Some j \<Rightarrow>
         let j' = claimed now worker j
         in (db\<lparr>db_rows := put_job j' (db_rows db)\<rparr>, Some j'))"

subsection \<open>reclaim\_stale\<close>

definition stale :: "instant \<Rightarrow> int \<Rightarrow> job \<Rightarrow> bool" where
  "stale now older_than_seconds j \<longleftrightarrow> job_state j = Running \<and>
     (case claimed_at j of None \<Rightarrow> False | Some t \<Rightarrow> t < now - secs older_than_seconds)"

text \<open>The CTE: the ids of the stale rows, oldest claim first; the ordinal is the position.\<close>

definition stale_ids :: "instant \<Rightarrow> int \<Rightarrow> job list \<Rightarrow> nat list" where
  "stale_ids now older rs =
     map job_id (sort_key (\<lambda>j. (the (claimed_at j), job_id j)) (filter (stale now older) rs))"

fun ordinal_of :: "nat list \<Rightarrow> nat \<Rightarrow> nat option" where
  "ordinal_of [] i = None"
| "ordinal_of (x # xs) i = (if x = i then Some 0 else map_option Suc (ordinal_of xs i))"

text \<open>
  The \<open>UPDATE\<close> joined with the CTE. Its outer qualification is evaluated on the rows as
  they are when the update reaches them, which need not be the rows the CTE was read from.
\<close>

definition reclaim_row :: "instant \<Rightarrow> int \<Rightarrow> nat list \<Rightarrow> job \<Rightarrow> job" where
  "reclaim_row now older ids j = (case ordinal_of ids (job_id j) of
       None \<Rightarrow> j
     | Some n \<Rightarrow>
         if stale now older j
         then j\<lparr>job_state := Pending, claimed_by := None, claimed_at := None,
                run_after := now + secs (int n * RECLAIM_STAGGER_SECONDS), updated_at := now\<rparr>
         else j)"

definition reclaim_update ::
  "instant \<Rightarrow> int \<Rightarrow> nat list \<Rightarrow> jobs_db \<Rightarrow> db_error + (jobs_db \<times> nat)" where
  "reclaim_update now older ids db =
     (case commit_rows db (map (reclaim_row now older ids) (db_rows db)) of
        Inl e \<Rightarrow> Inl e
      | Inr db' \<Rightarrow> Inr (db', length (filter
          (\<lambda>j. ordinal_of ids (job_id j) \<noteq> None \<and> stale now older j) (db_rows db))))"

definition reclaim_stale :: "instant \<Rightarrow> int \<Rightarrow> jobs_db \<Rightarrow> db_error + (jobs_db \<times> nat)" where
  "reclaim_stale now older db = reclaim_update now older (stale_ids now older (db_rows db)) db"

subsection \<open>release, complete, fail\<close>

definition release :: "instant \<Rightarrow> nat \<Rightarrow> jobs_db \<Rightarrow> db_error + jobs_db" where
  "release now i db = (case job_by_id db i of
       None \<Rightarrow> Inl No_result_found
     | Some j \<Rightarrow> commit_rows db (put_job (orm_flush now j
         (j\<lparr>job_state := Pending, claimed_by := None, claimed_at := None,
            attempts := attempts j - 1\<rparr>)) (db_rows db)))"

definition dismiss_siblings ::
  "instant \<Rightarrow> job_state \<Rightarrow> string option \<Rightarrow> nat \<Rightarrow> job list \<Rightarrow> job list" where
  "dismiss_siblings now st dkey i rs = (case dkey of None \<Rightarrow> rs
     | Some k \<Rightarrow> update_where
         (\<lambda>j. dedupe_key j = Some k \<and> job_state j = st \<and> job_id j \<noteq> i)
         (\<lambda>j. j\<lparr>job_state := Dismissed, updated_at := now\<rparr>) rs)"

text \<open>A warnings string counts only when it is truthy: not \<open>None\<close> and not empty.\<close>

definition truthy :: "string option \<Rightarrow> bool" where
  "truthy w \<longleftrightarrow> w \<noteq> None \<and> w \<noteq> Some []"

definition complete :: "instant \<Rightarrow> nat \<Rightarrow> string option \<Rightarrow> jobs_db \<Rightarrow> db_error + jobs_db" where
  "complete now i warnings db = (case job_by_id db i of
       None \<Rightarrow> Inl No_result_found
     | Some j \<Rightarrow>
         let j' = orm_flush now j
               (j\<lparr>job_state := (if truthy warnings then Done_with_warnings else Done),
                  last_error := (if truthy warnings then warnings else None)\<rparr>)
         in commit_rows db (dismiss_siblings now Deferred (dedupe_key j) i
              (put_job j' (db_rows db))))"

text \<open>
  \<open>BACKOFF_BASE_SECONDS * 2 ** (attempts - 1)\<close>; Python's power of a negative exponent is
  the float one half, which \<open>make_interval\<close> takes as it is.
\<close>

definition backoff :: "nat \<Rightarrow> instant" where
  "backoff n = (if n = 0 then secs BACKOFF_BASE_SECONDS div 2
     else secs (BACKOFF_BASE_SECONDS * 2 ^ (n - 1)))"

text \<open>What a failed attempt makes of its row: dismissed, deferred, parked or rescheduled.\<close>

definition fail_row :: "instant \<Rightarrow> string \<Rightarrow> nat \<Rightarrow> int option \<Rightarrow> job \<Rightarrow> job" where
  "fail_row now error max_attempts defer_seconds j =
     (let j0 = j\<lparr>last_error := Some error, claimed_by := None, claimed_at := None\<rparr>
      in if cancel_requested j then j0\<lparr>job_state := Dismissed\<rparr>
         else case defer_seconds of
           Some d \<Rightarrow> j0\<lparr>job_state := Deferred, attempts := 0, run_after := now + secs d\<rparr>
         | None \<Rightarrow>
             if max_attempts \<le> attempts j then j0\<lparr>job_state := Parked\<rparr>
             else j0\<lparr>job_state := Pending, run_after := now + backoff (attempts j)\<rparr>)"

definition fail ::
  "instant \<Rightarrow> nat \<Rightarrow> string \<Rightarrow> nat \<Rightarrow> int option \<Rightarrow> jobs_db \<Rightarrow> db_error + (jobs_db \<times> job_state)" where
  "fail now i error max_attempts defer_seconds db = (case job_by_id db i of
       None \<Rightarrow> Inl No_result_found
     | Some j \<Rightarrow>
         let j1 = fail_row now error max_attempts defer_seconds j;
             rs = (if job_state j1 = Parked
                   then dismiss_siblings now Parked (dedupe_key j) i (db_rows db)
                   else db_rows db)
         in case commit_rows db (put_job (orm_flush now j j1) rs) of
              Inl e \<Rightarrow> Inl e
            | Inr db' \<Rightarrow> Inr (db', job_state j1))"

subsection \<open>The HTTP operations: cancel, retry, dismiss\<close>

datatype http_error = Http_404 | Http_409

definition cancel_job :: "instant \<Rightarrow> nat \<Rightarrow> jobs_db \<Rightarrow> http_error + (jobs_db \<times> job_state)" where
  "cancel_job now i db = (case job_by_id db i of
       None \<Rightarrow> Inl Http_404
     | Some j \<Rightarrow>
         if claimable (job_state j)
         then Inr (db\<lparr>db_rows := put_job (orm_flush now j (j\<lparr>job_state := Dismissed\<rparr>)) (db_rows db)\<rparr>,
                   Dismissed)
         else if job_state j = Running
         then Inr (db\<lparr>db_rows := put_job (orm_flush now j (j\<lparr>cancel_requested := True\<rparr>)) (db_rows db)\<rparr>,
                   Running)
         else Inl Http_409)"

definition parked_job :: "jobs_db \<Rightarrow> nat \<Rightarrow> job option" where
  "parked_job db i = List.find (\<lambda>j. job_id j = i \<and> job_state j = Parked) (db_rows db)"

definition retry_job :: "instant \<Rightarrow> nat \<Rightarrow> jobs_db \<Rightarrow> http_error + jobs_db" where
  "retry_job now i db = (case parked_job db i of
       None \<Rightarrow> Inl Http_404
     | Some j \<Rightarrow>
         (case commit_rows db (put_job (orm_flush now j
            (j\<lparr>job_state := Pending, attempts := 0, claimed_by := None, claimed_at := None,
               run_after := now\<rparr>)) (db_rows db)) of
            Inl _ \<Rightarrow> Inl Http_409
          | Inr db' \<Rightarrow> Inr db'))"

definition dismiss_job :: "instant \<Rightarrow> nat \<Rightarrow> jobs_db \<Rightarrow> http_error + jobs_db" where
  "dismiss_job now i db = (case parked_job db i of
       None \<Rightarrow> Inl Http_404
     | Some j \<Rightarrow>
         Inr (db\<lparr>db_rows := put_job (orm_flush now j (j\<lparr>job_state := Dismissed\<rparr>)) (db_rows db)\<rparr>))"


subsection \<open>Lemmas: the rows as a map from ids\<close>

text \<open>
  \<open>tab rs\<close> is the table as a map from ids to rows. Every statement acts on it as a map
  update, which is what the proofs about single jobs use.
\<close>

lemma tab_Nil [simp]: "tab [] i = None"
  by (simp add: tab_def)

lemma tab_Cons [simp]: "tab (j # rs) i = (if job_id j = i then Some j else tab rs i)"
  by (simp add: tab_def)

lemma tab_append: "tab (rs @ qs) i = (case tab rs i of None \<Rightarrow> tab qs i | Some j \<Rightarrow> Some j)"
  by (induction rs) auto

lemma tab_Some_mem: "tab rs i = Some j \<Longrightarrow> j \<in> set rs \<and> job_id j = i"
  by (induction rs) (auto split: if_splits)

lemma tab_None: "tab rs i = None \<longleftrightarrow> i \<notin> job_id ` set rs"
  by (induction rs) auto

lemma tab_mem: "distinct (map job_id rs) \<Longrightarrow> j \<in> set rs \<Longrightarrow> tab rs (job_id j) = Some j"
  by (induction rs) (auto simp: image_iff)

lemma tab_map:
  assumes "\<And>j. job_id (f j) = job_id j"
  shows "tab (map f rs) i = map_option f (tab rs i)"
  using assms by (induction rs) auto

lemma tab_update_where:
  assumes "\<And>j. job_id (f j) = job_id j"
  shows "tab (update_where P f rs) i = map_option (\<lambda>j. if P j then f j else j) (tab rs i)"
  unfolding update_where_def using assms by (intro tab_map) simp

lemma put_job_ids [simp]: "map job_id (put_job j' rs) = map job_id rs"
  by (induction rs) (auto simp: put_job_def)

lemma set_put_job: "set (put_job j' rs) \<subseteq> insert j' (set rs)"
  by (auto simp: put_job_def set_update_where)

lemma set_put_job_ids: "j \<in> set (put_job j' rs) \<Longrightarrow> j = j' \<or> (j \<in> set rs \<and> job_id j \<noteq> job_id j')"
  by (auto simp: put_job_def set_update_where split: if_splits)

lemma tab_put_job:
  "tab (put_job j' rs) i =
     (if i = job_id j' \<and> tab rs i \<noteq> None then Some j' else tab rs i)"
  by (induction rs) (auto simp: put_job_def)

lemma dismiss_siblings_ids [simp]: "map job_id (dismiss_siblings now st k i rs) = map job_id rs"
  by (auto simp: dismiss_siblings_def map_update_where split: option.split)

lemma tab_dismiss_siblings:
  "tab (dismiss_siblings now st k i rs) n = map_option
     (\<lambda>j. if k \<noteq> None \<and> dedupe_key j = k \<and> job_state j = st \<and> job_id j \<noteq> i
          then j\<lparr>job_state := Dismissed, updated_at := now\<rparr> else j) (tab rs n)"
proof (cases k)
  case None
  then show ?thesis by (cases "tab rs n") (auto simp: dismiss_siblings_def)
next
  case (Some x)
  then show ?thesis by (auto simp: dismiss_siblings_def tab_update_where)
qed

lemma orm_flush_sel [simp]:
  "job_id (orm_flush now j j') = job_id j'"
  "dedupe_key (orm_flush now j j') = dedupe_key j'"
  "job_state (orm_flush now j j') = job_state j'"
  "attempts (orm_flush now j j') = attempts j'"
  "run_after (orm_flush now j j') = run_after j'"
  "claimed_by (orm_flush now j j') = claimed_by j'"
  "claimed_at (orm_flush now j j') = claimed_at j'"
  "cancel_requested (orm_flush now j j') = cancel_requested j'"
  "last_error (orm_flush now j j') = last_error j'"
  "job_kind (orm_flush now j j') = job_kind j'"
  "job_payload (orm_flush now j j') = job_payload j'"
  by (simp_all add: orm_flush_def)

lemma live_key_orm_flush [simp]: "live_key (orm_flush now j j') = live_key j'"
  by (simp add: live_key_def)

subsection \<open>Lemmas: the unique index\<close>

lemma uq_Nil [simp]: "uq_jobs_pending_dedupe []"
  by (simp add: uq_jobs_pending_dedupe_def List.map_filter_def)

lemma map_filter_mem: "x \<in> set (List.map_filter f rs) \<longleftrightarrow> (\<exists>r \<in> set rs. f r = Some x)"
  by (induction rs) (auto simp: List.map_filter_simps split: option.split)

lemma uq_Cons:
  "uq_jobs_pending_dedupe (j # rs) \<longleftrightarrow> uq_jobs_pending_dedupe rs \<and>
     (live_key j \<noteq> None \<longrightarrow> (\<forall>r \<in> set rs. live_key r \<noteq> live_key j))"
  by (cases "live_key j")
    (auto simp: uq_jobs_pending_dedupe_def List.map_filter_simps map_filter_mem)

text \<open>With distinct ids the index says: two live rows of one key are the same row.\<close>

definition uq_ids :: "job list \<Rightarrow> bool" where
  "uq_ids rs \<longleftrightarrow> (\<forall>j \<in> set rs. \<forall>j' \<in> set rs.
     live_key j \<noteq> None \<longrightarrow> live_key j = live_key j' \<longrightarrow> job_id j = job_id j')"

lemma uq_ids_Cons:
  assumes "\<And>r. r \<in> set rs \<Longrightarrow> job_id r \<noteq> job_id a"
  shows "uq_ids (a # rs) \<longleftrightarrow> uq_ids rs \<and>
     (live_key a \<noteq> None \<longrightarrow> (\<forall>r \<in> set rs. live_key r \<noteq> live_key a))"
proof -
  have "uq_ids (a # rs) \<longleftrightarrow> uq_ids rs \<and>
     (\<forall>r \<in> set rs. live_key a \<noteq> None \<longrightarrow> live_key a = live_key r \<longrightarrow> job_id a = job_id r) \<and>
     (\<forall>r \<in> set rs. live_key r \<noteq> None \<longrightarrow> live_key r = live_key a \<longrightarrow> job_id r = job_id a)"
    unfolding uq_ids_def by (simp add: ball_conj_distrib) blast
  with assms show ?thesis by metis
qed

lemma uq_iff: "distinct (map job_id rs) \<Longrightarrow> uq_jobs_pending_dedupe rs \<longleftrightarrow> uq_ids rs"
proof (induction rs)
  case Nil
  then show ?case by (simp add: uq_ids_def)
next
  case (Cons a rs)
  then have "job_id r \<noteq> job_id a" if "r \<in> set rs" for r
    using that by (auto simp: image_iff)
  with Cons show ?case by (simp add: uq_Cons uq_ids_Cons)
qed

lemma uq_map:
  assumes "uq_jobs_pending_dedupe rs"
    and "\<And>j. j \<in> set rs \<Longrightarrow> live_key (f j) = live_key j \<or> live_key (f j) = None"
  shows "uq_jobs_pending_dedupe (map f rs)"
  using assms
proof (induction rs)
  case Nil
  then show ?case by simp
next
  case (Cons a rs)
  have rs: "uq_jobs_pending_dedupe (map f rs)"
    using Cons by (simp add: uq_Cons)
  have "live_key (f r) \<noteq> live_key (f a)" if "live_key (f a) \<noteq> None" "r \<in> set rs" for r
    using that Cons.prems(1) Cons.prems(2) [of a] Cons.prems(2) [of r] by (auto simp: uq_Cons)
  with rs show ?case by (simp add: uq_Cons)
qed

lemma uq_append_fresh:
  assumes "uq_jobs_pending_dedupe rs"
    and "live_key j \<noteq> None \<Longrightarrow> \<forall>r \<in> set rs. live_key r \<noteq> live_key j"
  shows "uq_jobs_pending_dedupe (rs @ [j])"
  using assms
proof (induction rs)
  case Nil
  then show ?case by (simp add: uq_Cons)
next
  case (Cons a rs)
  then show ?case by (cases "live_key j") (auto simp: uq_Cons)
qed

lemma commit_rows_Inr:
  "commit_rows db rs = Inr db' \<longleftrightarrow> uq_jobs_pending_dedupe rs \<and> db' = db\<lparr>db_rows := rs\<rparr>"
  by (auto simp: commit_rows_def)

lemma commit_rows_Inl:
  "commit_rows db rs = Inl e \<longleftrightarrow> \<not> uq_jobs_pending_dedupe rs \<and> e = Unique_violation"
  by (auto simp: commit_rows_def)

lemma conflicting_Some:
  "conflicting k rs = Some j \<Longrightarrow> j \<in> set rs \<and> k \<noteq> None \<and> live_key j = k \<and> claimable (job_state j)"
  by (auto simp: conflicting_def live_key_def split: option.splits if_splits dest!: find_Some_mem)

lemma conflicting_None:
  "conflicting k rs = None \<longleftrightarrow> k = None \<or> (\<forall>j \<in> set rs. live_key j \<noteq> k)"
  by (cases k) (auto simp: conflicting_def find_None)

end
