(* ===== verification/Queue_Contract.thy ===== *)
theory Queue_Contract
  imports Jobs
begin

text \<open>
  What every operation on the queue promises (the locale \<open>queue_operation\<close>, interpreted on
  each operation of \<open>queue/jobs.py\<close> and of the two HTTP modules), the step relation of the
  whole queue and the invariant of its reachable tables.
\<close>

subsection \<open>The table invariant\<close>

definition claim_ok :: "job \<Rightarrow> bool" where
  "claim_ok j \<longleftrightarrow>
     (job_state j = Running \<longrightarrow> claimed_by j \<noteq> None \<and> claimed_at j \<noteq> None \<and> 1 \<le> attempts j) \<and>
     (claimable (job_state j) \<longrightarrow> claimed_by j = None \<and> claimed_at j = None)"

definition wf_db :: "jobs_db \<Rightarrow> bool" where
  "wf_db db \<longleftrightarrow> distinct (map job_id (db_rows db)) \<and>
     (\<forall>j \<in> set (db_rows db). job_id j < db_next db \<and> claim_ok j) \<and>
     uq_jobs_pending_dedupe (db_rows db)"

definition empty_db :: jobs_db where
  "empty_db = \<lparr>db_rows = [], db_next = 1\<rparr>"

lemma wf_empty_db: "wf_db empty_db"
  by (simp add: wf_db_def empty_db_def)

lemma wf_claim_ok: "wf_db db \<Longrightarrow> \<forall>j \<in> set (db_rows db). claim_ok j"
  by (simp add: wf_db_def)

lemma wf_job_by_id:
  "wf_db db \<Longrightarrow> job_by_id db i = Some j \<Longrightarrow>
     j \<in> set (db_rows db) \<and> job_id j = i \<and> claim_ok j \<and> i < db_next db"
  by (auto simp: wf_db_def job_by_id_def dest!: tab_Some_mem)

lemma wf_job_by_id_iff:
  "wf_db db \<Longrightarrow> job_by_id db i = Some j \<longleftrightarrow> j \<in> set (db_rows db) \<and> job_id j = i"
  by (auto simp: wf_db_def job_by_id_def dest!: tab_Some_mem intro: tab_mem)

text \<open>
  Rows rewritten in place keep the invariant when ids stay, each new row is consistent and
  the index holds.
\<close>

lemma wf_rows_update:
  assumes "wf_db db" and "map job_id rs = map job_id (db_rows db)"
    and "uq_jobs_pending_dedupe rs" and "\<And>j. j \<in> set rs \<Longrightarrow> claim_ok j"
  shows "wf_db (db\<lparr>db_rows := rs\<rparr>)"
proof -
  have "job_id ` set rs = job_id ` set (db_rows db)"
    using assms(2) by (metis list.set_map)
  then have "job_id j < db_next db" if "j \<in> set rs" for j
    using that assms(1) by (force simp: wf_db_def)
  with assms show ?thesis by (simp add: wf_db_def)
qed

lemma wf_put_job:
  assumes "wf_db db" and "claim_ok j'" and "uq_jobs_pending_dedupe (put_job j' (db_rows db))"
  shows "wf_db (db\<lparr>db_rows := put_job j' (db_rows db)\<rparr>)"
  using assms set_put_job [of j' "db_rows db"]
  by (intro wf_rows_update) (auto simp: wf_db_def)

text \<open>A row put back without entering the index keeps the index.\<close>

lemma uq_put_job:
  assumes "wf_db db" and "tab (db_rows db) (job_id j') = Some j"
    and "live_key j' = live_key j \<or> live_key j' = None"
  shows "uq_jobs_pending_dedupe (put_job j' (db_rows db))"
  unfolding put_job_def update_where_def
proof (rule uq_map)
  show "uq_jobs_pending_dedupe (db_rows db)" using assms(1) by (simp add: wf_db_def)
  fix r assume "r \<in> set (db_rows db)"
  then show "live_key (if job_id r = job_id j' then j' else r) = live_key r \<or>
    live_key (if job_id r = job_id j' then j' else r) = None"
    using assms tab_mem [of "db_rows db" r] by (auto simp: wf_db_def)
qed

lemma claim_ok_dismissed [simp]: "claim_ok (j\<lparr>job_state := Dismissed, updated_at := t\<rparr>)"
  "claim_ok (j\<lparr>job_state := Dismissed\<rparr>)"
  by (simp_all add: claim_ok_def claimable_def)

lemma claim_ok_orm_flush [simp]: "claim_ok (orm_flush now j j') \<longleftrightarrow> claim_ok j'"
  by (simp add: claim_ok_def)

lemma claim_ok_dismiss_siblings:
  "\<forall>j \<in> set rs. claim_ok j \<Longrightarrow> j \<in> set (dismiss_siblings now st k i rs) \<Longrightarrow> claim_ok j"
  by (auto simp: dismiss_siblings_def set_update_where split: option.splits if_splits)

subsection \<open>The contract\<close>

locale queue_operation =
  fixes opr :: "jobs_db \<Rightarrow> jobs_db \<Rightarrow> bool"
  assumes keeps_wf: "wf_db db \<Longrightarrow> opr db db' \<Longrightarrow> wf_db db'"
    and keeps_ids: "wf_db db \<Longrightarrow> opr db db' \<Longrightarrow>
      \<exists>new. map job_id (db_rows db') = map job_id (db_rows db) @ new"
begin

text \<open>What follows for any number of such operations in a row.\<close>

lemma run_wf: "opr\<^sup>*\<^sup>* db db' \<Longrightarrow> wf_db db \<Longrightarrow> wf_db db'"
  by (induction rule: rtranclp_induct) (auto intro: keeps_wf)

lemma run_ids:
  "opr\<^sup>*\<^sup>* db db' \<Longrightarrow> wf_db db \<Longrightarrow>
     \<exists>new. map job_id (db_rows db') = map job_id (db_rows db) @ new"
proof (induction rule: rtranclp_induct)
  case base
  then show ?case by simp
next
  case (step y z)
  from step run_wf [of db y] keeps_ids [of y z] show ?case by auto
qed

text \<open>No operation deletes a row.\<close>

lemma run_keeps_job:
  assumes "opr\<^sup>*\<^sup>* db db'" and "wf_db db" and "job_by_id db i \<noteq> None"
  shows "job_by_id db' i \<noteq> None"
proof -
  obtain new where "map job_id (db_rows db') = map job_id (db_rows db) @ new"
    using run_ids [OF assms(1,2)] by blast
  then have "job_id ` set (db_rows db) \<subseteq> job_id ` set (db_rows db')"
    by (metis list.set_map set_append sup_ge1)
  with assms(3) show ?thesis by (auto simp: job_by_id_def tab_None)
qed

end

text \<open>An operation that puts back one row it found, under the unique index.\<close>

lemma commit_put_wf:
  assumes "wf_db db" and "commit_rows db (put_job j' rs) = Inr db'"
    and "map job_id rs = map job_id (db_rows db)" and "\<And>j. j \<in> set rs \<Longrightarrow> claim_ok j"
    and "claim_ok j'"
  shows "wf_db db'"
proof -
  have "uq_jobs_pending_dedupe (put_job j' rs)" and "db' = db\<lparr>db_rows := put_job j' rs\<rparr>"
    using assms(2) by (auto simp: commit_rows_Inr)
  with assms set_put_job [of j' rs] show ?thesis
    by (auto intro!: wf_rows_update)
qed

lemma commit_put_ids:
  "commit_rows db (put_job j' rs) = Inr db' \<Longrightarrow> map job_id rs = map job_id (db_rows db) \<Longrightarrow>
     map job_id (db_rows db') = map job_id (db_rows db)"
  by (auto simp: commit_rows_Inr)

subsection \<open>Each operation keeps the contract\<close>

lemma release_commit:
  assumes "release now i db = Inr db'"
  obtains j where "job_by_id db i = Some j"
    and "commit_rows db (put_job (orm_flush now j (j\<lparr>job_state := Pending, claimed_by := None,
          claimed_at := None, attempts := attempts j - 1\<rparr>)) (db_rows db)) = Inr db'"
  using assms by (auto simp: release_def split: option.splits)

interpretation release_op: queue_operation "\<lambda>db db'. \<exists>now i. release now i db = Inr db'"
proof
  fix db db' assume "wf_db db" and "\<exists>now i. release now i db = Inr db'"
  then obtain now i j where j: "wf_db db" "job_by_id db i = Some j"
    and c: "commit_rows db (put_job (orm_flush now j (j\<lparr>job_state := Pending, claimed_by := None,
          claimed_at := None, attempts := attempts j - 1\<rparr>)) (db_rows db)) = Inr db'"
    by (blast elim: release_commit)
  show "wf_db db'"
    using j(1) by (intro commit_put_wf [OF j(1) c]) (auto simp: wf_db_def claim_ok_def)
  show "\<exists>new. map job_id (db_rows db') = map job_id (db_rows db) @ new"
    using commit_put_ids [OF c] by simp
qed


lemma claim_row:
  assumes "claim now locked w db = (db', Some j')"
  obtains j where "next_due now locked (db_rows db) = Some j"
    and "j' = claimed now w j"
    and "db' = db\<lparr>db_rows := put_job j' (db_rows db)\<rparr>"
  using assms by (auto simp: claim_def Let_def split: option.splits)

interpretation due_choice: ordered_choice "next_due now locked" "due now locked" claim_key
  for now locked
  by unfold_locales (simp add: next_due_def)

lemma claim_None: "claim now locked w db = (db', None) \<longleftrightarrow> db' = db \<and> next_due now locked (db_rows db) = None"
  by (auto simp: claim_def Let_def split: option.splits)

interpretation claim_op: queue_operation "\<lambda>db db'. \<exists>now locked w. db' = fst (claim now locked w db)"
proof
  fix db db' assume wf: "wf_db db" and "\<exists>now locked w. db' = fst (claim now locked w db)"
  then obtain now locked w r where c: "claim now locked w db = (db', r)"
    by (metis prod.collapse)
  have "wf_db db' \<and> map job_id (db_rows db') = map job_id (db_rows db)"
  proof (cases r)
    case None
    with c wf show ?thesis by (simp add: claim_None)
  next
    case (Some j')
    with c obtain j where j: "next_due now locked (db_rows db) = Some j"
      and j': "j' = claimed now w j"
      and db': "db' = db\<lparr>db_rows := put_job j' (db_rows db)\<rparr>"
      by (metis claim_row)
    have "tab (db_rows db) (job_id j') = Some j"
      using due_choice.pick_mem [OF j] wf j' by (auto simp: claimed_def wf_db_def intro: tab_mem)
    moreover have "live_key j' = None" "claim_ok j'"
      by (simp_all add: j' claimed_def live_key_def claimable_def claim_ok_def)
    ultimately show ?thesis
      using wf unfolding db' by (auto intro!: wf_put_job uq_put_job)
  qed
  then show "wf_db db'" and "\<exists>new. map job_id (db_rows db') = map job_id (db_rows db) @ new"
    by auto
qed

lemma complete_commit:
  assumes "complete now i w db = Inr db'"
  obtains j j' where "job_by_id db i = Some j"
    and "j' = orm_flush now j (j\<lparr>job_state := (if truthy w then Done_with_warnings else Done),
                  last_error := (if truthy w then w else None)\<rparr>)"
    and "db' = db\<lparr>db_rows := dismiss_siblings now Deferred (dedupe_key j) i (put_job j' (db_rows db))\<rparr>"
    and "uq_jobs_pending_dedupe (db_rows db')"
  using assms by (auto simp: complete_def Let_def commit_rows_Inr split: option.splits)

interpretation complete_op: queue_operation "\<lambda>db db'. \<exists>now i w. complete now i w db = Inr db'"
proof
  fix db db' assume wf: "wf_db db" and "\<exists>now i w. complete now i w db = Inr db'"
  then obtain now i w j j' where j: "job_by_id db i = Some j"
    and j': "j' = orm_flush now j (j\<lparr>job_state := (if truthy w then Done_with_warnings else Done),
                  last_error := (if truthy w then w else None)\<rparr>)"
    and db': "db' = db\<lparr>db_rows := dismiss_siblings now Deferred (dedupe_key j) i (put_job j' (db_rows db))\<rparr>"
    and uq: "uq_jobs_pending_dedupe (db_rows db')"
    by (metis complete_commit)
  have "claim_ok j'" by (simp add: j' claim_ok_def claimable_def)
  then have "\<forall>r \<in> set (put_job j' (db_rows db)). claim_ok r"
    using wf set_put_job [of j' "db_rows db"] by (auto simp: wf_db_def)
  then show "wf_db db'"
    using wf uq unfolding db' by (intro wf_rows_update) (auto dest: claim_ok_dismiss_siblings)
  show "\<exists>new. map job_id (db_rows db') = map job_id (db_rows db) @ new"
    by (simp add: db')
qed

lemma fail_commit:
  assumes "fail now i e m d db = Inr (db', s)"
  obtains j rs where "job_by_id db i = Some j"
    and "rs = (if job_state (fail_row now e m d j) = Parked
               then dismiss_siblings now Parked (dedupe_key j) i (db_rows db) else db_rows db)"
    and "commit_rows db (put_job (orm_flush now j (fail_row now e m d j)) rs) = Inr db'"
    and "s = job_state (fail_row now e m d j)"
  using assms by (auto simp: fail_def Let_def split: option.splits sum.splits)

lemma fail_row_sel [simp]:
  "job_id (fail_row now e m d j) = job_id j"
  "dedupe_key (fail_row now e m d j) = dedupe_key j"
  "claimed_by (fail_row now e m d j) = None"
  "claimed_at (fail_row now e m d j) = None"
  "last_error (fail_row now e m d j) = Some e"
  "cancel_requested (fail_row now e m d j) = cancel_requested j"
  by (simp_all add: fail_row_def Let_def split: option.split)

lemma fail_row_not_running [simp]: "job_state (fail_row now e m d j) \<noteq> Running"
  by (simp add: fail_row_def Let_def split: option.split)

interpretation fail_op: queue_operation "\<lambda>db db'. \<exists>now i e m d s. fail now i e m d db = Inr (db', s)"
proof
  fix db db' assume wf: "wf_db db" and "\<exists>now i e m d s. fail now i e m d db = Inr (db', s)"
  then obtain now i e m d j rs where j: "job_by_id db i = Some j"
    and rs: "rs = (if job_state (fail_row now e m d j) = Parked
               then dismiss_siblings now Parked (dedupe_key j) i (db_rows db) else db_rows db)"
    and c: "commit_rows db (put_job (orm_flush now j (fail_row now e m d j)) rs) = Inr db'"
    by (metis fail_commit)
  have ids: "map job_id rs = map job_id (db_rows db)"
    by (simp add: rs)
  have "\<forall>r \<in> set rs. claim_ok r"
    using claim_ok_dismiss_siblings [OF wf_claim_ok [OF wf]] wf_claim_ok [OF wf] by (auto simp: rs)
  then show "wf_db db'"
    by (intro commit_put_wf [OF wf c ids]) (auto simp: claim_ok_def)
  show "\<exists>new. map job_id (db_rows db') = map job_id (db_rows db) @ new"
    using commit_put_ids [OF c ids] by simp
qed


lemma reclaim_commit:
  assumes "reclaim_update now older ids db = Inr (db', n)"
  shows "db' = db\<lparr>db_rows := map (reclaim_row now older ids) (db_rows db)\<rparr>"
    and "uq_jobs_pending_dedupe (map (reclaim_row now older ids) (db_rows db))"
  using assms by (auto simp: reclaim_update_def commit_rows_Inr split: sum.splits)

lemma reclaim_row_id [simp]: "job_id (reclaim_row now older ids j) = job_id j"
  by (simp add: reclaim_row_def split: option.split)

lemma reclaim_row_cases:
  obtains "reclaim_row now older ids j = j"
  | n where "ordinal_of ids (job_id j) = Some n" and "stale now older j"
    and "reclaim_row now older ids j = j\<lparr>job_state := Pending, claimed_by := None,
      claimed_at := None, run_after := now + secs (int n * RECLAIM_STAGGER_SECONDS), updated_at := now\<rparr>"
  using that by (cases "ordinal_of ids (job_id j)"; cases "stale now older j")
    (auto simp: reclaim_row_def)

lemma claim_ok_reclaim_row: "claim_ok j \<Longrightarrow> claim_ok (reclaim_row now older ids j)"
  by (cases rule: reclaim_row_cases [of now older ids j]) (simp_all add: claim_ok_def)

lemma map_job_id_reclaim [simp]: "map job_id (map (reclaim_row now older ids) rs) = map job_id rs"
  by simp

interpretation reclaim_op:
  queue_operation "\<lambda>db db'. \<exists>now older ids n. reclaim_update now older ids db = Inr (db', n)"
proof
  fix db db' assume wf: "wf_db db" and "\<exists>now older ids n. reclaim_update now older ids db = Inr (db', n)"
  then obtain now older ids n where c: "reclaim_update now older ids db = Inr (db', n)"
    by blast
  note eq = reclaim_commit [OF c]
  show "wf_db db'"
    unfolding eq(1)
    by (rule wf_rows_update [OF wf _ eq(2)])
      (use wf_claim_ok [OF wf] in \<open>auto intro: claim_ok_reclaim_row\<close>)
  show "\<exists>new. map job_id (db_rows db') = map job_id (db_rows db) @ new"
    by (simp add: eq(1) del: map_map)
qed

text \<open>Inserting a row for a key no live row has.\<close>

lemma new_job_sel [simp]:
  "job_id (new_job i now k p dk t) = i" "dedupe_key (new_job i now k p dk t) = dk"
  "job_state (new_job i now k p dk t) = Pending" "live_key (new_job i now k p dk t) = dk"
  "run_after (new_job i now k p dk t) = t" "attempts (new_job i now k p dk t) = 0"
  "claim_ok (new_job i now k p dk t)"
  "created_at (new_job i now k p dk t) = now" "job_kind (new_job i now k p dk t) = k"
  by (simp_all add: new_job_def live_key_def claimable_def claim_ok_def)

lemma wf_insert:
  assumes "wf_db db" and "conflicting dk (db_rows db) = None"
  shows "wf_db (db\<lparr>db_next := Suc (db_next db),
    db_rows := db_rows db @ [new_job (db_next db) now k p dk t]\<rparr>)"
proof -
  have "uq_jobs_pending_dedupe (db_rows db @ [new_job (db_next db) now k p dk t])"
    using assms by (intro uq_append_fresh) (auto simp: wf_db_def conflicting_None)
  with assms(1) show ?thesis by (auto simp: wf_db_def)
qed

lemma wf_next_Suc: "wf_db db \<Longrightarrow> wf_db (db\<lparr>db_next := Suc (db_next db)\<rparr>)"
  by (auto simp: wf_db_def)

lemma wf_db_next_rows:
  "wf_db (db\<lparr>db_rows := rs\<rparr>) \<Longrightarrow> wf_db (db\<lparr>db_next := Suc (db_next db), db_rows := rs\<rparr>)"
  by (auto simp: wf_db_def)

text \<open>The wake of a deferred row: still the one live row of its key.\<close>

lemma wf_wake:
  assumes "wf_db db" and "conflicting dk (db_rows db) = Some j"
  shows "wf_db (db\<lparr>db_rows := put_job
     (j\<lparr>job_state := Pending, run_after := t, updated_at := now, last_error := None\<rparr>) (db_rows db)\<rparr>)"
proof -
  note c = conflicting_Some [OF assms(2)]
  have "tab (db_rows db) (job_id j) = Some j"
    using assms(1) c by (auto simp: wf_db_def intro: tab_mem)
  moreover have "claim_ok j" using assms(1) c by (auto simp: wf_db_def)
  ultimately show ?thesis
    using assms(1) c
    by (intro wf_put_job uq_put_job [where j = j]) (auto simp: claim_ok_def live_key_def claimable_def)
qed

interpretation enqueue_op:
  queue_operation "\<lambda>db db'. \<exists>now k p dk d. db' = fst (enqueue now k p dk d db)"
proof
  fix db db' assume wf: "wf_db db" and "\<exists>now k p dk d. db' = fst (enqueue now k p dk d db)"
  then obtain now k p dk d where e: "db' = fst (enqueue now k p dk d db)" by blast
  show "wf_db db'"
    using wf wf_insert [OF wf] wf_db_next_rows [OF wf_wake [OF wf]] wf_next_Suc [OF wf]
    by (auto simp: e enqueue_def Let_def split: option.split)
  show "\<exists>new. map job_id (db_rows db') = map job_id (db_rows db) @ new"
    by (auto simp: e enqueue_def Let_def split: option.split)
qed

lemma insert_or_skip_wf: "wf_db db \<Longrightarrow> wf_db (fst (insert_or_skip now k (db, n) e))"
  by (cases e) (auto simp: Let_def wf_insert wf_next_Suc split: option.split)

lemma insert_or_skip_ids:
  "\<exists>new. map job_id (db_rows (fst (insert_or_skip now k (db, n) e))) = map job_id (db_rows db) @ new"
  by (cases e) (auto simp: Let_def split: option.split)

lemma foldl_insert_wf: "wf_db (fst acc) \<Longrightarrow> wf_db (fst (foldl (insert_or_skip now k) acc es))"
proof (induction es arbitrary: acc)
  case Nil
  then show ?case by simp
next
  case (Cons e es)
  then show ?case using insert_or_skip_wf [of "fst acc" now k "snd acc" e] by simp
qed

lemma foldl_insert_ids:
  "\<exists>new. map job_id (db_rows (fst (foldl (insert_or_skip now k) acc es))) =
     map job_id (db_rows (fst acc)) @ new"
proof (induction es arbitrary: acc)
  case Nil
  then show ?case by simp
next
  case (Cons e es)
  obtain n1 where "map job_id (db_rows (fst (insert_or_skip now k acc e))) =
      map job_id (db_rows (fst acc)) @ n1"
    using insert_or_skip_ids [of now k "fst acc" "snd acc" e] by auto
  with Cons [of "insert_or_skip now k acc e"] show ?case by auto
qed

text \<open>
  Cutting the entries into statements of \<open>BATCH_ROWS\<close> changes nothing: the batches together
  are one pass over the entries.
\<close>

lemma insert_or_skip_add:
  "insert_or_skip now k (db, m + n) e =
     (let (db', c) = insert_or_skip now k (db, n) e in (db', m + c))"
  by (cases e) (simp add: Let_def split: option.split)

lemma foldl_insert_add:
  "foldl (insert_or_skip now k) (db, m + n) es =
     (let (db', c) = foldl (insert_or_skip now k) (db, n) es in (db', m + c))"
proof (induction es arbitrary: db n)
  case Nil
  then show ?case by simp
next
  case (Cons e es)
  obtain db' c where "insert_or_skip now k (db, n) e = (db', c)" by fastforce
  with Cons [of db' c] show ?case by (simp add: insert_or_skip_add)
qed

lemma enqueue_batches_fold:
  "enqueue_batches now k bs (db, n) = foldl (insert_or_skip now k) (db, n) (concat bs)"
proof (induction bs arbitrary: db n)
  case Nil
  then show ?case by simp
next
  case (Cons b bs)
  obtain db' c where b: "foldl (insert_or_skip now k) (db, 0) b = (db', c)" by fastforce
  with foldl_insert_add [of now k db n 0 b] Cons show ?case by simp
qed

lemma enqueue_batch_fold:
  "enqueue_batch now k entries db = foldl (insert_or_skip now k) (db, 0) entries"
  by (simp add: enqueue_batch_def enqueue_batches_fold concat_chunks BATCH_ROWS_def)

interpretation enqueue_batch_op:
  queue_operation "\<lambda>db db'. \<exists>now k es. db' = fst (enqueue_batch now k es db)"
  using foldl_insert_ids
  by unfold_locales (auto simp: enqueue_batch_fold intro: foldl_insert_wf)


lemma cancel_commit:
  assumes "cancel_job now i db = Inr (db', s)"
  obtains j j' where "job_by_id db i = Some j"
    and "db' = db\<lparr>db_rows := put_job (orm_flush now j j') (db_rows db)\<rparr>"
    and "j' = j\<lparr>job_state := Dismissed\<rparr> \<and> claimable (job_state j) \<or>
         j' = j\<lparr>cancel_requested := True\<rparr> \<and> job_state j = Running"
  using assms by (auto simp: cancel_job_def split: option.splits if_splits)

lemma parked_job_Some:
  "wf_db db \<Longrightarrow> parked_job db i = Some j \<Longrightarrow> job_by_id db i = Some j \<and> job_state j = Parked"
  by (auto simp: parked_job_def wf_job_by_id_iff dest!: find_Some_mem)

lemma retry_commit:
  assumes "retry_job now i db = Inr db'"
  obtains j where "parked_job db i = Some j"
    and "commit_rows db (put_job (orm_flush now j (j\<lparr>job_state := Pending, attempts := 0,
           claimed_by := None, claimed_at := None, run_after := now\<rparr>)) (db_rows db)) = Inr db'"
  using assms by (auto simp: retry_job_def split: option.splits sum.splits)

lemma dismiss_commit:
  assumes "dismiss_job now i db = Inr db'"
  obtains j where "parked_job db i = Some j"
    and "db' = db\<lparr>db_rows := put_job (orm_flush now j (j\<lparr>job_state := Dismissed\<rparr>)) (db_rows db)\<rparr>"
  using assms by (auto simp: dismiss_job_def split: option.splits)

interpretation cancel_op: queue_operation "\<lambda>db db'. \<exists>now i s. cancel_job now i db = Inr (db', s)"
proof
  fix db db' assume wf: "wf_db db" and "\<exists>now i s. cancel_job now i db = Inr (db', s)"
  then obtain now i s j j' where j: "job_by_id db i = Some j"
    and db': "db' = db\<lparr>db_rows := put_job (orm_flush now j j') (db_rows db)\<rparr>"
    and j': "j' = j\<lparr>job_state := Dismissed\<rparr> \<and> claimable (job_state j) \<or>
         j' = j\<lparr>cancel_requested := True\<rparr> \<and> job_state j = Running"
    by (metis cancel_commit)
  have "claim_ok j'" using wf_job_by_id [OF wf j] j' by (auto simp: claim_ok_def claimable_def)
  moreover have "live_key j' = None" using j' by (auto simp: live_key_def claimable_def)
  moreover have "tab (db_rows db) (job_id j') = Some j"
    using j j' wf_job_by_id [OF wf j] by (auto simp: job_by_id_def)
  ultimately show "wf_db db'"
    using wf unfolding db' by (intro wf_put_job uq_put_job [where j = j]) auto
  show "\<exists>new. map job_id (db_rows db') = map job_id (db_rows db) @ new"
    by (simp add: db')
qed

interpretation retry_op: queue_operation "\<lambda>db db'. \<exists>now i. retry_job now i db = Inr db'"
proof
  fix db db' assume wf: "wf_db db" and "\<exists>now i. retry_job now i db = Inr db'"
  then obtain now j where c: "commit_rows db (put_job (orm_flush now j (j\<lparr>job_state := Pending,
      attempts := 0, claimed_by := None, claimed_at := None, run_after := now\<rparr>)) (db_rows db)) = Inr db'"
    by (metis retry_commit)
  show "wf_db db'"
    using wf_claim_ok [OF wf] by (intro commit_put_wf [OF wf c]) (auto simp: claim_ok_def)
  show "\<exists>new. map job_id (db_rows db') = map job_id (db_rows db) @ new"
    using commit_put_ids [OF c] by simp
qed

interpretation dismiss_op: queue_operation "\<lambda>db db'. \<exists>now i. dismiss_job now i db = Inr db'"
proof
  fix db db' assume wf: "wf_db db" and "\<exists>now i. dismiss_job now i db = Inr db'"
  then obtain now i j where p: "parked_job db i = Some j"
    and db': "db' = db\<lparr>db_rows := put_job (orm_flush now j (j\<lparr>job_state := Dismissed\<rparr>)) (db_rows db)\<rparr>"
    by (metis dismiss_commit)
  note j = parked_job_Some [OF wf p]
  then have "tab (db_rows db) (job_id j) = Some j"
    using wf_job_by_id [OF wf] by (auto simp: job_by_id_def)
  then show "wf_db db'"
    using wf unfolding db'
    by (intro wf_put_job uq_put_job [where j = j]) (auto simp: live_key_def claimable_def)
  show "\<exists>new. map job_id (db_rows db') = map job_id (db_rows db) @ new"
    by (simp add: db')
qed

subsection \<open>The queue as a transition system\<close>

text \<open>
  One committed transaction of any process: a worker's, a webhook's, a sweep's or an
  operator's. \<open>reclaim_update\<close> may run with the ids of an older snapshot.
\<close>

inductive queue_step :: "jobs_db \<Rightarrow> jobs_db \<Rightarrow> bool" where
  step_enqueue: "queue_step db (fst (enqueue now k p dk d db))"
| step_enqueue_batch: "queue_step db (fst (enqueue_batch now k es db))"
| step_claim: "queue_step db (fst (claim now locked w db))"
| step_reclaim: "reclaim_update now older ids db = Inr (db', n) \<Longrightarrow> queue_step db db'"
| step_release: "release now i db = Inr db' \<Longrightarrow> queue_step db db'"
| step_complete: "complete now i w db = Inr db' \<Longrightarrow> queue_step db db'"
| step_fail: "fail now i e m d db = Inr (db', s) \<Longrightarrow> queue_step db db'"
| step_cancel: "cancel_job now i db = Inr (db', s) \<Longrightarrow> queue_step db db'"
| step_retry: "retry_job now i db = Inr db' \<Longrightarrow> queue_step db db'"
| step_dismiss: "dismiss_job now i db = Inr db' \<Longrightarrow> queue_step db db'"

inductive_simps queue_step_simp: "queue_step db db'"

text \<open>The contract of the steps is the contract of the operations.\<close>

lemma queue_step_wf: "queue_step db db' \<Longrightarrow> wf_db db \<Longrightarrow> wf_db db'"
proof (induction rule: queue_step.induct)
  case step_enqueue
  then show ?case by - (rule enqueue_op.keeps_wf, assumption, intro exI, (rule refl | assumption))
next
  case step_enqueue_batch
  then show ?case by - (rule enqueue_batch_op.keeps_wf, assumption, intro exI, (rule refl | assumption))
next
  case step_claim
  then show ?case by - (rule claim_op.keeps_wf, assumption, intro exI, (rule refl | assumption))
next
  case step_reclaim
  then show ?case by - (rule reclaim_op.keeps_wf, assumption, intro exI, (rule refl | assumption))
next
  case step_release
  then show ?case by - (rule release_op.keeps_wf, assumption, intro exI, (rule refl | assumption))
next
  case step_complete
  then show ?case by - (rule complete_op.keeps_wf, assumption, intro exI, (rule refl | assumption))
next
  case step_fail
  then show ?case by - (rule fail_op.keeps_wf, assumption, intro exI, (rule refl | assumption))
next
  case step_cancel
  then show ?case by - (rule cancel_op.keeps_wf, assumption, intro exI, (rule refl | assumption))
next
  case step_retry
  then show ?case by - (rule retry_op.keeps_wf, assumption, intro exI, (rule refl | assumption))
next
  case step_dismiss
  then show ?case by - (rule dismiss_op.keeps_wf, assumption, intro exI, (rule refl | assumption))
qed

lemma queue_step_ids:
  "queue_step db db' \<Longrightarrow> wf_db db \<Longrightarrow>
     \<exists>new. map job_id (db_rows db') = map job_id (db_rows db) @ new"
proof (induction rule: queue_step.induct)
  case step_enqueue
  then show ?case by - (rule enqueue_op.keeps_ids, assumption, intro exI, (rule refl | assumption))
next
  case step_enqueue_batch
  then show ?case by - (rule enqueue_batch_op.keeps_ids, assumption, intro exI, (rule refl | assumption))
next
  case step_claim
  then show ?case by - (rule claim_op.keeps_ids, assumption, intro exI, (rule refl | assumption))
next
  case step_reclaim
  then show ?case by - (rule reclaim_op.keeps_ids, assumption, intro exI, (rule refl | assumption))
next
  case step_release
  then show ?case by - (rule release_op.keeps_ids, assumption, intro exI, (rule refl | assumption))
next
  case step_complete
  then show ?case by - (rule complete_op.keeps_ids, assumption, intro exI, (rule refl | assumption))
next
  case step_fail
  then show ?case by - (rule fail_op.keeps_ids, assumption, intro exI, (rule refl | assumption))
next
  case step_cancel
  then show ?case by - (rule cancel_op.keeps_ids, assumption, intro exI, (rule refl | assumption))
next
  case step_retry
  then show ?case by - (rule retry_op.keeps_ids, assumption, intro exI, (rule refl | assumption))
next
  case step_dismiss
  then show ?case by - (rule dismiss_op.keeps_ids, assumption, intro exI, (rule refl | assumption))
qed

interpretation queue: queue_operation queue_step
  by unfold_locales (auto intro: queue_step_wf queue_step_ids)

inductive reachable :: "jobs_db \<Rightarrow> bool" where
  start: "reachable empty_db"
| step: "reachable db \<Longrightarrow> queue_step db db' \<Longrightarrow> reachable db'"

lemma reachable_wf: "reachable db \<Longrightarrow> wf_db db"
  by (induction rule: reachable.induct) (auto intro: wf_empty_db queue.keeps_wf)

end
