(* ===== verification/Queue_Props.thy ===== *)
theory Queue_Props
  imports Queue_Contract
begin

text \<open>The properties of the queue: exclusivity, coalescing, the retry budget, reclaiming.\<close>

subsection \<open>The operations as map updates\<close>

lemma job_by_id_rows [simp]: "job_by_id (db\<lparr>db_rows := rs\<rparr>) n = tab rs n"
  by (simp add: job_by_id_def)

lemma fail_tab:
  assumes "wf_db db" and "job_by_id db i = Some j" and "fail now i e m d db = Inr (db', s)"
  shows "job_by_id db' n =
     (if n = i then Some (orm_flush now j (fail_row now e m d j))
      else map_option (\<lambda>r. if s = Parked \<and> dedupe_key j \<noteq> None \<and> dedupe_key r = dedupe_key j
              \<and> job_state r = Parked
            then r\<lparr>job_state := Dismissed, updated_at := now\<rparr> else r) (job_by_id db n))"
    and "s = job_state (fail_row now e m d j)"
proof -
  obtain rs where rs: "rs = (if job_state (fail_row now e m d j) = Parked
               then dismiss_siblings now Parked (dedupe_key j) i (db_rows db) else db_rows db)"
    and c: "commit_rows db (put_job (orm_flush now j (fail_row now e m d j)) rs) = Inr db'"
    and s: "s = job_state (fail_row now e m d j)"
    using fail_commit [OF assms(3)] assms(2) by (metis option.inject)
  show "s = job_state (fail_row now e m d j)" by (rule s)
  have j: "job_id j = i" "tab (db_rows db) i = Some j"
    using wf_job_by_id [OF assms(1,2)] assms(2) by (auto simp: job_by_id_def)
  have db': "db' = db\<lparr>db_rows := put_job (orm_flush now j (fail_row now e m d j)) rs\<rparr>"
    using c by (simp add: commit_rows_Inr)
  have "tab rs n = (if s = Parked then map_option (\<lambda>r. if dedupe_key j \<noteq> None \<and>
      dedupe_key r = dedupe_key j \<and> job_state r = Parked \<and> job_id r \<noteq> i
      then r\<lparr>job_state := Dismissed, updated_at := now\<rparr> else r) (tab (db_rows db) n)
    else tab (db_rows db) n)" for n
    by (simp add: rs s tab_dismiss_siblings)
  then show "job_by_id db' n =
     (if n = i then Some (orm_flush now j (fail_row now e m d j))
      else map_option (\<lambda>r. if s = Parked \<and> dedupe_key j \<noteq> None \<and> dedupe_key r = dedupe_key j
              \<and> job_state r = Parked
            then r\<lparr>job_state := Dismissed, updated_at := now\<rparr> else r) (job_by_id db n))"
    using j by (cases "tab (db_rows db) n")
      (auto simp: db' tab_put_job job_by_id_def dest: tab_Some_mem)
qed

lemma complete_tab:
  assumes "wf_db db" and "job_by_id db i = Some j" and "complete now i w db = Inr db'"
  shows "job_by_id db' n =
     (if n = i then Some (orm_flush now j
          (j\<lparr>job_state := (if truthy w then Done_with_warnings else Done),
             last_error := (if truthy w then w else None)\<rparr>))
      else map_option (\<lambda>r. if dedupe_key j \<noteq> None \<and> dedupe_key r = dedupe_key j
              \<and> job_state r = Deferred
            then r\<lparr>job_state := Dismissed, updated_at := now\<rparr> else r) (job_by_id db n))"
proof -
  obtain j' where j': "j' = orm_flush now j (j\<lparr>job_state := (if truthy w then Done_with_warnings else Done),
                  last_error := (if truthy w then w else None)\<rparr>)"
    and db': "db' = db\<lparr>db_rows := dismiss_siblings now Deferred (dedupe_key j) i (put_job j' (db_rows db))\<rparr>"
    using complete_commit [OF assms(3)] assms(2) by (metis option.inject)
  have j: "job_id j = i" "tab (db_rows db) i = Some j"
    using wf_job_by_id [OF assms(1,2)] assms(2) by (auto simp: job_by_id_def)
  show ?thesis
    using j by (cases "tab (db_rows db) n")
      (auto simp: db' j' tab_put_job tab_dismiss_siblings job_by_id_def dest: tab_Some_mem)
qed

lemma claim_tab:
  assumes "wf_db db" and "claim now locked w db = (db', Some j')"
  obtains j where "job_by_id db (job_id j) = Some j" and "due now locked j" and "j' = claimed now w j"
    and "\<forall>n. job_by_id db' n = (if n = job_id j then Some (claimed now w j) else job_by_id db n)"
    and "\<forall>r \<in> set (db_rows db). due now locked r \<longrightarrow> claim_key j \<le> claim_key r"
proof -
  obtain j where j: "next_due now locked (db_rows db) = Some j" "j' = claimed now w j"
    and db': "db' = db\<lparr>db_rows := put_job j' (db_rows db)\<rparr>"
    using claim_row [OF assms(2)] by metis
  have mem: "j \<in> set (db_rows db)" "due now locked j"
    using due_choice.pick_mem [OF j(1)] by auto
  then have t: "job_by_id db (job_id j) = Some j"
    using assms(1) by (simp add: wf_job_by_id_iff)
  have "job_by_id db' n = (if n = job_id j then Some (claimed now w j) else job_by_id db n)" for n
    using t by (auto simp: db' j(2) tab_put_job job_by_id_def claimed_def)
  with that [OF t mem(2) j(2)] due_choice.pick_least [OF j(1)] show thesis by blast
qed

lemma wf_one_live:
  assumes wf: "wf_db db" and "j \<in> set (db_rows db)" "j' \<in> set (db_rows db)"
    and "claimable (job_state j)" "claimable (job_state j')"
    and "dedupe_key j \<noteq> None" "dedupe_key j = dedupe_key j'"
  shows "job_id j = job_id j'"
proof -
  have "uq_ids (db_rows db)" using wf uq_iff [of "db_rows db"] by (simp add: wf_db_def)
  moreover have "live_key j = dedupe_key j" "live_key j' = dedupe_key j'"
    using assms by (simp_all add: live_key_def)
  ultimately show ?thesis using assms unfolding uq_ids_def by metis
qed

subsection \<open>Every reachable table\<close>

text \<open>
  C1: in every table the queue's transactions can reach, job ids are unique and below the
  sequence, at most one pending or deferred row exists per dedupe key, every running row
  carries its claim and at least one charged attempt, and no claimable row carries a claim.
\<close>

theorem queue_invariant:
  assumes "reachable db"
  shows "distinct (map job_id (db_rows db)) \<and>
    (\<forall>j \<in> set (db_rows db). \<forall>j' \<in> set (db_rows db).
       claimable (job_state j) \<and> claimable (job_state j') \<and> dedupe_key j \<noteq> None \<and>
       dedupe_key j = dedupe_key j' \<longrightarrow> job_id j = job_id j') \<and>
    (\<forall>j \<in> set (db_rows db). job_id j < db_next db \<and>
       (job_state j = Running \<longrightarrow> claimed_by j \<noteq> None \<and> claimed_at j \<noteq> None \<and> 1 \<le> attempts j) \<and>
       (claimable (job_state j) \<longrightarrow> claimed_by j = None \<and> claimed_at j = None))"
proof -
  have wf: "wf_db db" using assms by (rule reachable_wf)
  have "\<forall>j \<in> set (db_rows db). \<forall>j' \<in> set (db_rows db).
       claimable (job_state j) \<and> claimable (job_state j') \<and> dedupe_key j \<noteq> None \<and>
       dedupe_key j = dedupe_key j' \<longrightarrow> job_id j = job_id j'"
    using wf_one_live [OF wf] by blast
  with wf show ?thesis by (simp add: wf_db_def claim_ok_def)
qed

lemma reachable_enqueue: "reachable db \<Longrightarrow> reachable (fst (enqueue now k p dk d db))"
  by (rule reachable.step [OF _ step_enqueue])

theorem queue_invariant_witness:
  "distinct (map job_id (db_rows (fst (enqueue 0 ''a'' [] (Some ''k'') 0 empty_db))))"
  using queue_invariant [OF reachable_enqueue [OF reachable.start]] by blast

subsection \<open>Claiming\<close>

lemma claimed_row:
  assumes "wf_db db" and "claim now locked w db = (db1, Some j1)"
  shows "job_by_id db1 (job_id j1) = Some j1"
  by (rule claim_tab [OF assms]) (simp add: claimed_def)



subsection \<open>Coalescing\<close>

lemma enqueue_wf: "wf_db db \<Longrightarrow> enqueue now kd p dk d db = (db', r) \<Longrightarrow> wf_db db'"
  using enqueue_op.keeps_wf by (metis fst_conv)

lemma enqueue_cases:
  assumes "wf_db db" and "enqueue now kd p dk d db = (db', r)"
  obtains (fresh) j where "conflicting dk (db_rows db) = None"
      and "j = new_job (db_next db) now kd p dk (now + secs d)"
      and "db_rows db' = db_rows db @ [j]" and "r = Some (db_next db)"
  | (wake) j0 j where "conflicting dk (db_rows db) = Some j0" and "job_state j0 = Deferred"
      and "j = j0\<lparr>job_state := Pending, run_after := now + secs d, updated_at := now, last_error := None\<rparr>"
      and "db_rows db' = put_job j (db_rows db)" and "r = Some (job_id j0)"
  | (debounce) j0 where "conflicting dk (db_rows db) = Some j0" and "job_state j0 = Pending"
      and "db_rows db' = db_rows db" and "r = None"
proof (cases "conflicting dk (db_rows db)")
  case None
  with assms(2) fresh show thesis by (auto simp: enqueue_def Let_def)
next
  case (Some j0)
  with conflicting_Some [OF Some] have "job_state j0 = Deferred \<or> job_state j0 = Pending"
    by (auto simp: claimable_def)
  with Some assms(2) wake debounce show thesis by (auto simp: enqueue_def Let_def)
qed

lemma live_key_Some: "live_key j = Some k \<longleftrightarrow> claimable (job_state j) \<and> dedupe_key j = Some k"
  by (simp add: live_key_def)

lemma wf_live_unique:
  assumes "wf_db db" and "j \<in> set (db_rows db)" and "live_key j = Some k"
  shows "\<forall>j' \<in> set (db_rows db). live_key j' = Some k \<longrightarrow> j' = j"
proof (intro ballI impI)
  fix j' assume j': "j' \<in> set (db_rows db)" "live_key j' = Some k"
  have "job_id j = job_id j'"
    by (rule wf_one_live [OF assms(1,2) j'(1)])
      (use assms(3) j'(2) in \<open>simp_all add: live_key_Some\<close>)
  moreover have "distinct (map job_id (db_rows db))" using assms(1) by (simp add: wf_db_def)
  ultimately show "j' = j"
    using distinct_map_inj [of job_id "db_rows db" j' j] assms(2) j'(1) by simp
qed

text \<open>
  An event named by a dedupe key leaves exactly one live row for that key, pending. When
  one was already pending nothing in the table changes and no id is returned; otherwise the
  returned id is that row's, fresh or woken from its deferral, and it is due exactly the
  requested delay from now.
\<close>

theorem enqueue_coalesces:
  assumes "wf_db db" and "enqueue now kd p (Some k) d db = (db', r)"
  shows "(\<exists>j \<in> set (db_rows db'). live_key j = Some k \<and> job_state j = Pending \<and>
       (\<forall>j' \<in> set (db_rows db'). live_key j' = Some k \<longrightarrow> j' = j)) \<and>
    (r = None \<longleftrightarrow> (\<exists>j \<in> set (db_rows db). live_key j = Some k \<and> job_state j = Pending)) \<and>
    (r = None \<longrightarrow> db_rows db' = db_rows db) \<and>
    (\<forall>i. r = Some i \<longrightarrow> (\<exists>j \<in> set (db_rows db'). job_id j = i \<and> live_key j = Some k \<and>
       run_after j = now + secs d))"
proof -
  note wf' = enqueue_wf [OF assms]
  note uniq = wf_live_unique [OF assms(1)] and uniq' = wf_live_unique [OF wf']
  from assms show ?thesis
  proof (cases rule: enqueue_cases)
    case (fresh j)
    then have j: "j \<in> set (db_rows db')" "live_key j = Some k" "job_state j = Pending"
        "job_id j = db_next db" "run_after j = now + secs d"
      by auto
    have "\<forall>q \<in> set (db_rows db). live_key q \<noteq> Some k"
      using fresh(1) by (simp add: conflicting_None)
    with uniq' [OF j(1,2)] j fresh(4) show ?thesis by blast
  next
    case (wake j0 j)
    note c = conflicting_Some [OF wake(1)]
    have mem: "j \<in> set (db_rows db')"
      using c wake(3,4) by (auto simp: put_job_def set_update_where image_iff)
    moreover have j: "live_key j = Some k" "job_state j = Pending" "job_id j = job_id j0"
        "run_after j = now + secs d"
      using c by (simp_all add: wake(3) live_key_Some, simp add: claimable_def)
    moreover have "\<not> (\<exists>q \<in> set (db_rows db). live_key q = Some k \<and> job_state q = Pending)"
      using uniq [of j0 k] c wake(2) by auto
    ultimately show ?thesis using uniq' [OF mem j(1)] wake(5) by blast
  next
    case (debounce j0)
    note c = conflicting_Some [OF debounce(1)]
    with uniq [of j0 k] debounce show ?thesis by auto
  qed
qed

definition one_deferred :: jobs_db where
  "one_deferred = \<lparr>db_rows = [(new_job 1 0 ''process_item'' [] (Some ''movie:1'') 0)
     \<lparr>job_state := Deferred\<rparr>], db_next = 2\<rparr>"

lemma wf_one_deferred: "wf_db one_deferred"
  by (simp add: wf_db_def one_deferred_def uq_Cons claim_ok_def new_job_def)

theorem enqueue_coalesces_witness:
  "\<exists>j \<in> set (db_rows (fst (enqueue 7 ''process_item'' [] (Some ''movie:1'') 60 one_deferred))).
     job_id j = 1 \<and> live_key j = Some ''movie:1'' \<and> run_after j = 7 + secs 60"
proof -
  have "snd (enqueue 7 ''process_item'' [] (Some ''movie:1'') 60 one_deferred) = Some 1"
    by (simp add: enqueue_def one_deferred_def conflicting_def live_key_def claimable_def new_job_def)
  then show ?thesis
    using enqueue_coalesces [OF wf_one_deferred prod.collapse [symmetric],
        of 7 "''process_item''" "[]" "''movie:1''" 60] by auto
qed

subsection \<open>Batches\<close>

lemma foldl_insert_spec:
  "\<exists>new ks. db_rows (fst (foldl (insert_or_skip now kd) (db, m) es)) = db_rows db @ new \<and>
     snd (foldl (insert_or_skip now kd) (db, m) es) = m + length new \<and>
     map dedupe_key new = map Some ks \<and> distinct ks \<and>
     set ks = {k \<in> snd ` set es. \<forall>j \<in> set (db_rows db). live_key j \<noteq> Some k} \<and>
     (\<forall>j \<in> set new. job_state j = Pending \<and> run_after j = now \<and> attempts j = 0 \<and>
        created_at j = now \<and> job_kind j = kd)"
proof (induction es arbitrary: db m)
  case Nil
  then show ?case by (intro exI [of _ "[]"]) simp
next
  case (Cons e es)
  obtain p k where e: "e = (p, k)" by fastforce
  show ?case
  proof (cases "conflicting (Some k) (db_rows db)")
    case (Some j)
    let ?db = "db\<lparr>db_next := Suc (db_next db)\<rparr>"
    have step: "insert_or_skip now kd (db, m) e = (?db, m)"
      using Some by (simp add: e)
    have "\<exists>j \<in> set (db_rows db). live_key j = Some k"
      using conflicting_Some [OF Some] by blast
    then have "{x \<in> snd ` set (e # es). \<forall>j \<in> set (db_rows db). live_key j \<noteq> Some x} =
        {x \<in> snd ` set es. \<forall>j \<in> set (db_rows db). live_key j \<noteq> Some x}"
      by (auto simp: e)
    with Cons [of ?db m] step show ?thesis by simp
  next
    case None
    let ?j = "new_job (db_next db) now kd p (Some k) now"
    let ?db = "db\<lparr>db_next := Suc (db_next db), db_rows := db_rows db @ [?j]\<rparr>"
    have step: "insert_or_skip now kd (db, m) e = (?db, Suc m)"
      using None by (simp add: e)
    obtain new ks where ih: "db_rows (fst (foldl (insert_or_skip now kd) (?db, Suc m) es)) = db_rows ?db @ new"
      "snd (foldl (insert_or_skip now kd) (?db, Suc m) es) = Suc m + length new"
      "map dedupe_key new = map Some ks" "distinct ks"
      "set ks = {k \<in> snd ` set es. \<forall>j \<in> set (db_rows ?db). live_key j \<noteq> Some k}"
      "\<forall>j \<in> set new. job_state j = Pending \<and> run_after j = now \<and> attempts j = 0 \<and>
        created_at j = now \<and> job_kind j = kd"
      using Cons by blast
    have fresh: "\<forall>j \<in> set (db_rows db). live_key j \<noteq> Some k"
      using None by (simp add: conflicting_None)
    have "set (k # ks) = {x \<in> snd ` set (e # es). \<forall>j \<in> set (db_rows db). live_key j \<noteq> Some x}"
      and "distinct (k # ks)"
      using ih(4,5) fresh by (auto simp: e)
    with step ih show ?thesis
      by (intro exI [of _ "?j # new"] exI [of _ "k # ks"]) simp
  qed
qed

lemma enqueue_batch_spec:
  "\<exists>new ks. db_rows (fst (enqueue_batch now kd es db)) = db_rows db @ new \<and>
     snd (enqueue_batch now kd es db) = length new \<and>
     map dedupe_key new = map Some ks \<and> distinct ks \<and>
     set ks = {k \<in> snd ` set es. \<forall>j \<in> set (db_rows db). live_key j \<noteq> Some k} \<and>
     (\<forall>j \<in> set new. job_state j = Pending \<and> run_after j = now \<and> attempts j = 0 \<and>
        created_at j = now \<and> job_kind j = kd)"
  using foldl_insert_spec [of now kd db 0 es] by (simp add: enqueue_batch_fold)

text \<open>
  A sweep's batch appends one pending row, due now, for each key of the entries that no
  live row has, once per key however often it is repeated and however the entries fall into
  statements; it touches no existing row, deferred ones included, and the count it returns
  is the number of rows it appended.
\<close>

theorem enqueue_batch_inserts_missing_keys:
  "\<exists>new ks. db_rows (fst (enqueue_batch now kd es db)) = db_rows db @ new \<and>
     snd (enqueue_batch now kd es db) = length new \<and>
     map dedupe_key new = map Some ks \<and> distinct ks \<and>
     set ks = {k \<in> snd ` set es. \<forall>j \<in> set (db_rows db). live_key j \<noteq> Some k} \<and>
     (\<forall>j \<in> set new. job_state j = Pending \<and> run_after j = now \<and> attempts j = 0 \<and>
        created_at j = now \<and> job_kind j = kd)"
  by (rule enqueue_batch_spec)

theorem enqueue_batch_inserts_missing_keys_witness:
  "\<exists>new. db_rows (fst (enqueue_batch 0 ''process_item'' [([], ''a''), ([], ''b''), ([], ''a'')]
      one_deferred)) = db_rows one_deferred @ new \<and> length new = 2"
proof -
  let ?es = "[([], ''a''), ([], ''b''), ([], ''a'')] :: (payload \<times> string) list"
  obtain new ks where n: "db_rows (fst (enqueue_batch 0 ''process_item'' ?es one_deferred)) =
      db_rows one_deferred @ new" "map dedupe_key new = map Some ks" "distinct ks"
      "set ks = {k \<in> snd ` set ?es. \<forall>j \<in> set (db_rows one_deferred). live_key j \<noteq> Some k}"
    using enqueue_batch_inserts_missing_keys [where db = one_deferred and now = 0
      and kd = "''process_item''" and es = ?es] by blast
  have "set ks = {''a'', ''b''}"
    using n(4) by (auto simp: one_deferred_def new_job_def live_key_def)
  then have "length ks = 2" using distinct_card [OF n(3)] by simp
  then have "length new = 2" using n(2) by (metis length_map)
  with n(1) show ?thesis by blast
qed


subsection \<open>The retry budget\<close>

lemma backoff_Suc: "backoff (Suc n) = secs (30 * 2 ^ n)"
  by (simp add: backoff_def BACKOFF_BASE_SECONDS_def)

text \<open>
  \<open>unlucky i m n t db db'\<close>: the job \<open>i\<close> was claimed and then failed \<open>n\<close> times under the
  budget \<open>m\<close>, never deferred, the last failure at the instant \<open>t\<close>.
\<close>

inductive unlucky :: "nat \<Rightarrow> nat \<Rightarrow> nat \<Rightarrow> instant \<Rightarrow> jobs_db \<Rightarrow> jobs_db \<Rightarrow> bool" where
  none: "unlucky i m 0 t db db"
| again: "unlucky i m n t db db1 \<Longrightarrow> claim now locked w db1 = (db2, Some j) \<Longrightarrow> job_id j = i \<Longrightarrow>
     fail t' i e m None db2 = Inr (db3, s) \<Longrightarrow> unlucky i m (Suc n) t' db db3"

lemma unlucky_state:
  assumes "unlucky i m n t db db'" and "wf_db db" and "1 \<le> m"
    and "job_by_id db i = Some j" "attempts j = 0" "\<not> cancel_requested j" "claimable (job_state j)"
  shows "wf_db db' \<and> n \<le> m \<and> (\<exists>j'. job_by_id db' i = Some j' \<and> attempts j' = n \<and>
    \<not> cancel_requested j' \<and> (0 < n \<longrightarrow> job_state j' = (if n = m then Parked else Pending) \<and>
      (n < m \<longrightarrow> run_after j' = t + backoff n)) \<and> (n = 0 \<longrightarrow> claimable (job_state j')))"
  using assms
proof (induction rule: unlucky.induct)
  case (none i m t db)
  then show ?case by simp
next
  case (again i m n t db db1 now locked w db2 j2 t' e db3 s)
  note ih = again.IH [OF again.prems]
  then have wf1: "wf_db db1" and n: "n \<le> m" by simp_all
  from ih obtain j1 where j1: "job_by_id db1 i = Some j1"
      "attempts j1 = n" "\<not> cancel_requested j1"
    and st: "0 < n \<longrightarrow> job_state j1 = (if n = m then Parked else Pending)"
    by (elim conjE exE) (rule that; blast)
  obtain r where r: "job_by_id db1 (job_id r) = Some r" "due now locked r" "j2 = claimed now w r"
    and t: "\<forall>x. job_by_id db2 x = (if x = job_id r then Some (claimed now w r) else job_by_id db1 x)"
    by (rule claim_tab [OF wf1 again.hyps(2)], rule that)
  have i: "job_id r = i" using again.hyps(3) r(3) by (simp add: claimed_def)
  then have "r = j1" using r(1) j1(1) by simp
  then have j2: "job_by_id db2 i = Some (claimed now w j1)"
    using t i by simp
  have "n < m"
    using r(2) n st again.prems(2) \<open>r = j1\<close> by (cases "n = m") (auto simp: due_def claimable_def)
  have wf2: "wf_db db2" using claim_op.keeps_wf [OF wf1] again.hyps(2) by (metis fst_conv)
  have wf3: "wf_db db3" using fail_op.keeps_wf [OF wf2] again.hyps(4) by blast
  note f = fail_tab(1) [OF wf2 j2 again.hyps(4), of i]
  show ?case
    using wf3 \<open>n < m\<close> f j1(2,3) by (simp add: fail_row_def claimed_def Let_def)
qed


definition one_pending :: jobs_db where
  "one_pending = \<lparr>db_rows = [new_job 1 0 ''process_item'' [] (Some ''movie:1'') 0], db_next = 2\<rparr>"

lemma wf_one_pending: "wf_db one_pending"
  by (simp add: wf_db_def one_pending_def uq_Cons)


lemma one_pending_reachable: "reachable one_pending"
proof -
  have "fst (enqueue 0 ''process_item'' [] (Some ''movie:1'') 0 empty_db) = one_pending"
    by (simp add: enqueue_def empty_db_def conflicting_def one_pending_def)
  then show ?thesis using reachable_enqueue [OF reachable.start] by metis
qed

lemma first_by_singleton [simp]: "first_by key [x] = Some x"
  by (simp add: first_by_def)

definition one_parked :: jobs_db where
  "one_parked = \<lparr>db_rows = [fail_row 9 ''boom'' 1 None
     (claimed 5 ''worker-0'' (new_job 1 0 ''process_item'' [] (Some ''movie:1'') 0))
     \<lparr>updated_at := 9\<rparr>], db_next = 2\<rparr>"

lemma unlucky_once: "unlucky 1 1 1 9 one_pending one_parked"
proof -
  let ?j = "claimed 5 ''worker-0'' (new_job 1 0 ''process_item'' [] (Some ''movie:1'') 0)"
  let ?db = "one_pending\<lparr>db_rows := [?j]\<rparr>"
  have c: "claim 5 (\<lambda>_. False) ''worker-0'' one_pending = (?db, Some ?j)"
    by (simp add: claim_def next_due_def one_pending_def due_def claimable_def put_job_def
        claimed_def new_job_def Let_def)
  have "fail 9 1 ''boom'' 1 None ?db = Inr (one_parked, Parked)"
    by (simp add: fail_def one_parked_def one_pending_def commit_rows_def uq_Cons job_by_id_def
        fail_row_def claimed_def new_job_def live_key_def claimable_def put_job_def orm_flush_def
        dismiss_siblings_def)
  then show ?thesis
    using unlucky.again [OF unlucky.none [of 1 1 0] c] by (simp add: claimed_def new_job_def)
qed



subsection \<open>Reclaiming stale claims\<close>

lemma ordinal_of_None: "ordinal_of xs i = None \<longleftrightarrow> i \<notin> set xs"
  by (induction xs) auto

lemma ordinal_of_nth: "distinct xs \<Longrightarrow> n < length xs \<Longrightarrow> ordinal_of xs (xs ! n) = Some n"
proof (induction xs arbitrary: n)
  case Nil
  then show ?case by simp
next
  case (Cons x xs)
  then show ?case by (cases n) auto
qed

lemma set_stale_ids: "set (stale_ids now older rs) = job_id ` {j \<in> set rs. stale now older j}"
  by (simp add: stale_ids_def)

lemma distinct_stale_ids:
  assumes "distinct (map job_id rs)"
  shows "distinct (stale_ids now older rs)"
proof -
  have "inj_on job_id (set (filter (stale now older) rs))" and "distinct (filter (stale now older) rs)"
    using assms by (auto simp: distinct_map intro: inj_on_subset)
  then show ?thesis by (simp add: stale_ids_def distinct_map distinct_sort)
qed

lemma reclaim_tab:
  assumes "reclaim_update now older ids db = Inr (db', n)"
  shows "job_by_id db' i = map_option (reclaim_row now older ids) (job_by_id db i)"
  using reclaim_commit(1) [OF assms] by (simp add: job_by_id_def tab_map)

text \<open>
  A reclaim returns every running job claimed longer ago than the threshold, and only
  those, to pending: the \<open>k\<close>-th of them by claim age is due \<open>30 k\<close> seconds from now, so no
  two come due together; the attempts they were charged stay charged, every other row is
  untouched and the count is the number of jobs returned.
\<close>

theorem reclaim_staggered:
  assumes "wf_db db" and "reclaim_stale now older db = Inr (db', c)"
  shows "let ids = stale_ids now older (db_rows db) in
    c = length ids \<and> distinct ids \<and>
    (\<forall>i. i \<in> set ids \<longleftrightarrow> (\<exists>j. job_by_id db i = Some j \<and> stale now older j)) \<and>
    (\<forall>k < length ids. \<exists>j. job_by_id db (ids ! k) = Some j \<and>
       job_by_id db' (ids ! k) = Some (j\<lparr>job_state := Pending, claimed_by := None,
         claimed_at := None, run_after := now + secs (30 * int k), updated_at := now\<rparr>)) \<and>
    (\<forall>i. i \<notin> set ids \<longrightarrow> job_by_id db' i = job_by_id db i)"
proof -
  define ids where "ids = stale_ids now older (db_rows db)"
  have upd: "reclaim_update now older ids db = Inr (db', c)"
    using assms(2) by (simp add: reclaim_stale_def ids_def)
  note tab = reclaim_tab [OF upd]
  have dist: "distinct ids" using assms(1) by (simp add: ids_def distinct_stale_ids wf_db_def)
  have mem: "i \<in> set ids \<longleftrightarrow> (\<exists>j. job_by_id db i = Some j \<and> stale now older j)" for i
    using assms(1) by (auto simp: ids_def set_stale_ids wf_job_by_id_iff)
  have "filter (\<lambda>j. ordinal_of ids (job_id j) \<noteq> None \<and> stale now older j) (db_rows db) =
      filter (stale now older) (db_rows db)"
    by (rule filter_cong) (auto simp: ordinal_of_None ids_def set_stale_ids)
  then have c: "c = length ids"
    using upd by (auto simp: reclaim_update_def ids_def stale_ids_def split: sum.splits)
  have "\<exists>j. job_by_id db (ids ! k) = Some j \<and>
       job_by_id db' (ids ! k) = Some (j\<lparr>job_state := Pending, claimed_by := None,
         claimed_at := None, run_after := now + secs (30 * int k), updated_at := now\<rparr>)"
    if k: "k < length ids" for k
  proof -
    obtain j where j: "job_by_id db (ids ! k) = Some j" "stale now older j"
      using mem k nth_mem by blast
    moreover have "job_id j = ids ! k" using wf_job_by_id [OF assms(1) j(1)] by simp
    ultimately show ?thesis
      using ordinal_of_nth [OF dist k]
      by (simp add: tab reclaim_row_def RECLAIM_STAGGER_SECONDS_def mult.commute)
  qed
  moreover have "job_by_id db' i = job_by_id db i" if "i \<notin> set ids" for i
  proof (cases "job_by_id db i")
    case (Some j)
    then have "ordinal_of ids (job_id j) = None"
      using that wf_job_by_id [OF assms(1) Some] by (simp add: ordinal_of_None)
    with Some show ?thesis by (simp add: tab reclaim_row_def)
  qed (simp add: tab)
  ultimately show ?thesis
    using c dist mem by (simp add: Let_def flip: ids_def)
qed

definition one_stale :: jobs_db where
  "one_stale = \<lparr>db_rows = [claimed 5 ''worker-0'' (new_job 1 0 ''process_item'' [] (Some ''movie:1'') 0)],
     db_next = 2\<rparr>"

lemma wf_one_stale: "wf_db one_stale"
  by (simp add: wf_db_def one_stale_def uq_Cons claimed_def claim_ok_def claimable_def new_job_def)

lemma one_stale_ids: "stale_ids (secs 1000) 900 (db_rows one_stale) = [1]"
  by (simp add: stale_ids_def one_stale_def stale_def claimed_def new_job_def secs_def)

theorem reclaim_staggered_witness:
  "\<exists>db' c. reclaim_stale (secs 1000) 900 one_stale = Inr (db', c) \<and> c = 1 \<and>
     (\<exists>j. job_by_id db' 1 = Some j \<and> job_state j = Pending \<and> attempts j = 1)"
proof -
  have "\<exists>db' c. reclaim_stale (secs 1000) 900 one_stale = Inr (db', c)"
    by (simp add: reclaim_stale_def one_stale_ids)
      (simp add: reclaim_update_def commit_rows_def one_stale_def uq_Cons)
  then obtain db' c where r: "reclaim_stale (secs 1000) 900 one_stale = Inr (db', c)" by blast
  have "job_by_id one_stale 1 = Some (claimed 5 ''worker-0''
      (new_job 1 0 ''process_item'' [] (Some ''movie:1'') 0))"
    by (simp add: job_by_id_def one_stale_def claimed_def new_job_def)
  moreover have "stale (secs 1000) 900 (claimed 5 ''worker-0''
      (new_job 1 0 ''process_item'' [] (Some ''movie:1'') 0))"
    by (simp add: stale_def claimed_def secs_def)
  ultimately show ?thesis
    using reclaim_staggered [OF wf_one_stale r] r by (simp add: one_stale_ids claimed_def new_job_def)
qed

text \<open>
  A reclaim whose list of stale jobs was read from an earlier table leaves alone every
  job that has meanwhile finished, been handed back or been claimed again within the
  threshold, whatever transactions ran in between.
\<close>

theorem reclaim_spares_moved_on:
  assumes "queue_step\<^sup>*\<^sup>* db db1"
    and "reclaim_update now older (stale_ids now older (db_rows db)) db1 = Inr (db2, c)"
    and "job_by_id db1 i = Some j"
    and "job_state j \<noteq> Running \<or> (\<exists>t. claimed_at j = Some t \<and> now - secs older \<le> t)"
  shows "job_by_id db2 i = Some j"
proof -
  have "\<not> stale now older j" using assms(4) by (auto simp: stale_def)
  then show ?thesis
    using reclaim_tab [OF assms(2), of i] assms(3)
    by (simp add: reclaim_row_def split: option.split)
qed

definition one_done :: jobs_db where
  "one_done = \<lparr>db_rows = [(claimed 5 ''worker-0'' (new_job 1 0 ''process_item'' [] (Some ''movie:1'') 0))
     \<lparr>job_state := Done, updated_at := 6\<rparr>], db_next = 2\<rparr>"

lemma complete_one_stale: "complete 6 1 None one_stale = Inr one_done"
  by (simp add: complete_def one_stale_def one_done_def job_by_id_def claimed_def new_job_def
      commit_rows_def put_job_def dismiss_siblings_def uq_Cons live_key_def claimable_def
      truthy_def orm_flush_def)

theorem reclaim_spares_moved_on_witness:
  "\<exists>db2 c. reclaim_update (secs 1000) 900 (stale_ids (secs 1000) 900 (db_rows one_stale)) one_done
      = Inr (db2, c) \<and> (\<exists>j. job_by_id db2 1 = Some j \<and> job_state j = Done)"
proof -
  have steps: "queue_step\<^sup>*\<^sup>* one_stale one_done"
    using step_complete [OF complete_one_stale] by blast
  have "\<exists>db2 c. reclaim_update (secs 1000) 900 (stale_ids (secs 1000) 900 (db_rows one_stale)) one_done
      = Inr (db2, c)"
    unfolding one_stale_ids by (simp add: reclaim_update_def commit_rows_def one_done_def uq_Cons)
  then obtain db2 c where r: "reclaim_update (secs 1000) 900
      (stale_ids (secs 1000) 900 (db_rows one_stale)) one_done = Inr (db2, c)" by blast
  obtain j where j: "job_by_id one_done 1 = Some j" "job_state j = Done"
    by (simp add: job_by_id_def one_done_def claimed_def new_job_def)
  with reclaim_spares_moved_on [OF steps r j(1)] r show ?thesis by simp
qed


subsection \<open>Cancelling and completing\<close>

lemma dismissed_eq: "r\<lparr>job_state := Dismissed, updated_at := t\<rparr> = r \<Longrightarrow> job_state r = Dismissed"
  by (cases r) simp

text \<open>
  Once an operator has cancelled a running job, its next failure dismisses it whatever
  the error, the attempts it has left and the deferral the caller asks for; and a pending
  or deferred job that is cancelled is dismissed at once.
\<close>

theorem cancel_wins:
  assumes "wf_db db" and "cancel_job now i db = Inr (db1, s)"
  shows "(s = Running \<longrightarrow> (\<forall>now' e m d db2 s'. fail now' i e m d db1 = Inr (db2, s') \<longrightarrow>
      s' = Dismissed \<and> (\<exists>j. job_by_id db2 i = Some j \<and> job_state j = Dismissed))) \<and>
    (s \<noteq> Running \<longrightarrow> (\<exists>j. job_by_id db1 i = Some j \<and> job_state j = Dismissed))"
proof -
  obtain j j' where j: "job_by_id db i = Some j"
    and db1: "db1 = db\<lparr>db_rows := put_job (orm_flush now j j') (db_rows db)\<rparr>"
    and j': "j' = j\<lparr>job_state := Dismissed\<rparr> \<and> claimable (job_state j) \<or>
         j' = j\<lparr>cancel_requested := True\<rparr> \<and> job_state j = Running"
    by (rule cancel_commit [OF assms(2)])
  have s: "s = (if claimable (job_state j) then Dismissed else Running)"
    using assms(2) j by (auto simp: cancel_job_def split: if_splits)
  have id: "job_id j' = i" using j' wf_job_by_id [OF assms(1) j] by auto
  then have row: "job_by_id db1 i = Some (orm_flush now j j')"
    using j by (simp add: db1 tab_put_job job_by_id_def)
  have wf1: "wf_db db1" using cancel_op.keeps_wf [OF assms(1)] assms(2) by blast
  show ?thesis
  proof (cases "claimable (job_state j)")
    case True
    then show ?thesis using j' row s by (auto simp: claimable_def)
  next
    case False
    then have "cancel_requested j'" using j' by auto
    then have "job_state (fail_row now' e m d (orm_flush now j j')) = Dismissed" for now' e m d
      by (simp add: fail_row_def Let_def)
    then show ?thesis
      using False s fail_tab [OF wf1 row] by (metis job_state.distinct orm_flush_sel(3))
  qed
qed

theorem cancel_wins_witness:
  "\<exists>db1 db2. cancel_job 7 1 one_stale = Inr (db1, Running) \<and>
     fail 8 1 ''boom'' 5 (Some 60) db1 = Inr (db2, Dismissed)"
proof -
  have "\<exists>db1. cancel_job 7 1 one_stale = Inr (db1, Running) \<and>
      (\<exists>db2 s'. fail 8 1 ''boom'' 5 (Some 60) db1 = Inr (db2, s'))"
    by (simp add: cancel_job_def one_stale_def job_by_id_def claimed_def new_job_def claimable_def
        fail_def fail_row_def Let_def orm_flush_def commit_rows_def put_job_def uq_jobs_pending_dedupe_def
        live_key_def List.map_filter_simps)
  then obtain db1 db2 s' where c: "cancel_job 7 1 one_stale = Inr (db1, Running)"
      "fail 8 1 ''boom'' 5 (Some 60) db1 = Inr (db2, s')" by blast
  with cancel_wins [OF wf_one_stale c(1)] show ?thesis by blast
qed

text \<open>
  Completing a job finishes it, as \<open>done\<close> or, exactly when a warning sentence was
  returned, as \<open>done_with_warnings\<close> carrying it; no deferred job is left waiting on the same
  key, and a pending one, queued while this one ran, is left to run.
\<close>

theorem complete_retires_deferred:
  assumes "wf_db db" and "job_by_id db i = Some j" and "complete now i w db = Inr db'"
  shows "(\<exists>j'. job_by_id db' i = Some j' \<and> last_error j' = (if truthy w then w else None) \<and>
      job_state j' = (if truthy w then Done_with_warnings else Done)) \<and>
    (\<forall>n r. job_by_id db' n = Some r \<longrightarrow> n \<noteq> i \<longrightarrow> dedupe_key j \<noteq> None \<longrightarrow>
      dedupe_key r = dedupe_key j \<longrightarrow> job_state r \<noteq> Deferred) \<and>
    (\<forall>n r. n \<noteq> i \<longrightarrow> job_by_id db n = Some r \<longrightarrow>
      job_state r \<noteq> Deferred \<or> dedupe_key r \<noteq> dedupe_key j \<or> dedupe_key j = None \<longrightarrow>
      job_by_id db' n = Some r)"
proof (intro conjI allI impI)
  note t = complete_tab [OF assms]
  show "\<exists>j'. job_by_id db' i = Some j' \<and> last_error j' = (if truthy w then w else None) \<and>
      job_state j' = (if truthy w then Done_with_warnings else Done)"
    by (simp add: t)
  show "job_state r \<noteq> Deferred"
    if "job_by_id db' n = Some r" "n \<noteq> i" "dedupe_key j \<noteq> None" "dedupe_key r = dedupe_key j" for n r
    using that by (auto simp: t split: if_splits dest!: dismissed_eq)
  show "job_by_id db' n = Some r"
    if "n \<noteq> i" "job_by_id db n = Some r"
      "job_state r \<noteq> Deferred \<or> dedupe_key r \<noteq> dedupe_key j \<or> dedupe_key j = None" for n r
    using that by (auto simp: t)
qed

theorem complete_retires_deferred_witness:
  "\<exists>j'. job_by_id one_done 1 = Some j' \<and> job_state j' = Done"
proof -
  have "job_by_id one_stale 1 = Some (claimed 5 ''worker-0''
      (new_job 1 0 ''process_item'' [] (Some ''movie:1'') 0))"
    by (simp add: job_by_id_def one_stale_def claimed_def new_job_def)
  from complete_retires_deferred [OF wf_one_stale this complete_one_stale] show ?thesis
    by (auto simp: truthy_def)
qed

subsection \<open>One parked row per key\<close>

definition one_parked_per_key :: "jobs_db \<Rightarrow> bool" where
  "one_parked_per_key db \<longleftrightarrow> (\<forall>i i' j j'. job_by_id db i = Some j \<and> job_by_id db i' = Some j' \<and>
     job_state j = Parked \<and> job_state j' = Parked \<and> dedupe_key j \<noteq> None \<and>
     dedupe_key j = dedupe_key j' \<longrightarrow> i = i')"

text \<open>
  Steps under which every parked row of the new table was the same parked row before cannot
  break it.
\<close>

lemma one_parked_from_old:
  assumes "one_parked_per_key db"
    and "\<And>i j. job_by_id db' i = Some j \<Longrightarrow> job_state j = Parked \<Longrightarrow>
      \<exists>j0. job_by_id db i = Some j0 \<and> job_state j0 = Parked \<and> dedupe_key j0 = dedupe_key j"
  shows "one_parked_per_key db'"
  unfolding one_parked_per_key_def using assms(1) assms(2)
  unfolding one_parked_per_key_def by metis

lemma fail_one_parked:
  assumes "wf_db db" and "one_parked_per_key db" and "fail now i e m d db = Inr (db', s)"
  shows "one_parked_per_key db'"
proof -
  obtain j where j: "job_by_id db i = Some j"
    using fail_commit [OF assms(3)] by metis
  note t = fail_tab(1) [OF assms(1) j assms(3)]
  have old: "\<exists>j0. job_by_id db n = Some j0 \<and> job_state j0 = Parked \<and> dedupe_key j0 = dedupe_key r"
    if "job_by_id db' n = Some r" "job_state r = Parked" "n \<noteq> i" for n r
    using that by (auto simp: t split: if_splits)
  have row: "job_by_id db' i = Some (orm_flush now j (fail_row now e m d j))" by (simp add: t)
  have swept: "dedupe_key r \<noteq> dedupe_key j"
    if "job_by_id db' n = Some r" "job_state r = Parked" "n \<noteq> i" "s = Parked" "dedupe_key j \<noteq> None" for n r
    using that by (auto simp: t split: if_splits dest!: dismissed_eq)
  have s: "s = job_state (fail_row now e m d j)" by (rule fail_tab(2) [OF assms(1) j assms(3)])
  show ?thesis
    unfolding one_parked_per_key_def
  proof (intro allI impI, elim conjE)
    fix a b p q
    assume p: "job_by_id db' a = Some p" "job_state p = Parked"
      and q: "job_by_id db' b = Some q" "job_state q = Parked"
      and k: "dedupe_key p \<noteq> None" "dedupe_key p = dedupe_key q"
    show "a = b"
    proof (cases "a = i \<or> b = i")
      case True
      with p q k row s swept show ?thesis by fastforce
    next
      case False
      with old [OF p] old [OF q] k assms(2) show ?thesis
        unfolding one_parked_per_key_def by metis
    qed
  qed
qed


text \<open>Every other step leaves the parked rows of the new table as they were.\<close>

definition parked_sub :: "job list \<Rightarrow> job list \<Rightarrow> bool" where
  "parked_sub rs' rs \<longleftrightarrow> (\<forall>r \<in> set rs'. job_state r = Parked \<longrightarrow> r \<in> set rs)"

lemma parked_sub_refl [simp]: "parked_sub rs rs"
  by (simp add: parked_sub_def)

lemma parked_sub_trans: "parked_sub a b \<Longrightarrow> parked_sub b c \<Longrightarrow> parked_sub a c"
  by (auto simp: parked_sub_def)

lemma parked_sub_put: "job_state j' \<noteq> Parked \<Longrightarrow> parked_sub (put_job j' rs) rs"
  using set_put_job [of j' rs] by (auto simp: parked_sub_def)

lemma parked_sub_dismiss: "parked_sub (dismiss_siblings now st k i rs) rs"
  by (auto simp: parked_sub_def dismiss_siblings_def set_update_where split: option.splits if_splits)

lemma parked_sub_append: "\<forall>j \<in> set new. job_state j \<noteq> Parked \<Longrightarrow> parked_sub (rs @ new) rs"
  by (auto simp: parked_sub_def)

lemma parked_sub_reclaim: "parked_sub (map (reclaim_row now older ids) rs) rs"
proof -
  have "reclaim_row now older ids j = j \<or> job_state (reclaim_row now older ids j) = Pending" for j
    by (cases rule: reclaim_row_cases [of now older ids j]) simp_all
  note cases = this
  show ?thesis
    unfolding parked_sub_def
  proof (intro ballI impI)
    fix r assume "r \<in> set (map (reclaim_row now older ids) rs)" "job_state r = Parked"
    then obtain j where "j \<in> set rs" "r = reclaim_row now older ids j" by auto
    with cases [of j] \<open>job_state r = Parked\<close> show "r \<in> set rs" by auto
  qed
qed

lemma one_parked_sub:
  assumes "wf_db db" "wf_db db'" "one_parked_per_key db" "parked_sub (db_rows db') (db_rows db)"
  shows "one_parked_per_key db'"
proof (rule one_parked_from_old [OF assms(3)])
  fix i j assume j: "job_by_id db' i = Some j" "job_state j = Parked"
  then have "j \<in> set (db_rows db)" "job_id j = i"
    using assms(2,4) by (auto simp: parked_sub_def wf_job_by_id_iff)
  with j(2) assms(1)
  show "\<exists>j0. job_by_id db i = Some j0 \<and> job_state j0 = Parked \<and> dedupe_key j0 = dedupe_key j"
    by (auto simp: wf_job_by_id_iff)
qed

lemma enqueue_parked_sub:
  assumes "wf_db db"
  shows "parked_sub (db_rows (fst (enqueue now kd p dk d db))) (db_rows db)"
proof -
  obtain db' r where e: "enqueue now kd p dk d db = (db', r)" by fastforce
  from assms e show ?thesis
    by (cases rule: enqueue_cases) (auto simp: e intro!: parked_sub_put parked_sub_append)
qed

lemma enqueue_batch_parked_sub: "parked_sub (db_rows (fst (enqueue_batch now kd es db))) (db_rows db)"
proof -
  obtain new where "db_rows (fst (enqueue_batch now kd es db)) = db_rows db @ new"
    "\<forall>j \<in> set new. job_state j = Pending"
    using foldl_insert_spec [of now kd db 0 es] by (auto simp: enqueue_batch_fold)
  then show ?thesis by (auto intro: parked_sub_append)
qed

lemma claim_parked_sub: "parked_sub (db_rows (fst (claim now locked w db))) (db_rows db)"
  by (auto simp: claim_def Let_def claimed_def split: option.split intro!: parked_sub_put)

lemma step_parked_sub:
  assumes "queue_step db db'" and "wf_db db"
  shows "(\<exists>now i e m d s. fail now i e m d db = Inr (db', s)) \<or>
    parked_sub (db_rows db') (db_rows db)"
  using assms
proof (cases rule: queue_step.cases)
  case step_enqueue
  then show ?thesis using enqueue_parked_sub [OF assms(2)] by simp
next
  case step_enqueue_batch
  then show ?thesis by (simp add: enqueue_batch_parked_sub)
next
  case step_claim
  then show ?thesis by (simp add: claim_parked_sub)
next
  case step_reclaim
  from reclaim_commit(1) [OF this] show ?thesis by (simp add: parked_sub_reclaim del: map_map)
next
  case step_release
  then show ?thesis
    by (elim release_commit) (auto simp: commit_rows_Inr intro!: parked_sub_put)
next
  case step_complete
  then show ?thesis
    by (elim complete_commit) (auto intro!: parked_sub_put parked_sub_trans [OF parked_sub_dismiss])
next
  case step_fail
  then show ?thesis by blast
next
  case step_cancel
  then show ?thesis by (elim cancel_commit) (auto intro!: parked_sub_put)
next
  case step_retry
  then show ?thesis
    by (elim retry_commit) (auto simp: commit_rows_Inr intro!: parked_sub_put)
next
  case step_dismiss
  then show ?thesis by (elim dismiss_commit) (auto intro!: parked_sub_put)
qed

lemma step_one_parked:
  assumes "queue_step db db'" and "wf_db db" and "one_parked_per_key db"
  shows "one_parked_per_key db'"
  using step_parked_sub [OF assms(1,2)]
proof
  assume "\<exists>now i e m d s. fail now i e m d db = Inr (db', s)"
  then show ?thesis using fail_one_parked [OF assms(2,3)] by blast
next
  assume "parked_sub (db_rows db') (db_rows db)"
  then show ?thesis
    by (rule one_parked_sub [OF assms(2) queue_step_wf [OF assms(1,2)] assms(3)])
qed

lemma reachable_one_parked: "reachable db \<Longrightarrow> one_parked_per_key db"
proof (induction rule: reachable.induct)
  case start
  show ?case by (simp add: one_parked_per_key_def empty_db_def job_by_id_def)
next
  case (step db db')
  then show ?case using step_one_parked reachable_wf by blast
qed

text \<open>
  The queue's operations never leave two parked jobs for one dedupe key: parking retires
  the parked rows before it, so the Failures page shows one row per item.
\<close>

theorem parked_unique:
  assumes "reachable db" and "job_by_id db i = Some j" and "job_by_id db i' = Some j'"
    and "job_state j = Parked" and "job_state j' = Parked"
    and "dedupe_key j = Some k" and "dedupe_key j' = Some k"
  shows "i = i'"
  using reachable_one_parked [OF assms(1)] assms(2-) unfolding one_parked_per_key_def by fastforce

lemma claim_reachable: "reachable db \<Longrightarrow> claim now locked w db = (db', r) \<Longrightarrow> reachable db'"
  using step_claim [of db now locked w] by (auto intro: reachable.step)

lemma unlucky_reachable: "unlucky i m n t db db' \<Longrightarrow> reachable db \<Longrightarrow> reachable db'"
proof (induction rule: unlucky.induct)
  case (none i m t db)
  then show ?case by simp
next
  case again
  show ?case
    by (rule reachable.step [OF claim_reachable [OF again.IH [OF again.prems] again.hyps(2)]
          step_fail [OF again.hyps(4)]])
qed

lemma one_parked_row:
  "job_by_id one_parked 1 = Some (hd (db_rows one_parked))"
  "job_state (hd (db_rows one_parked)) = Parked"
  "dedupe_key (hd (db_rows one_parked)) = Some ''movie:1''"
  by (simp_all add: job_by_id_def one_parked_def fail_row_def claimed_def new_job_def)

theorem parked_unique_witness:
  "{i. \<exists>j. job_by_id one_parked i = Some j \<and> job_state j = Parked \<and> dedupe_key j = Some ''movie:1''} = {1}"
  using parked_unique [OF unlucky_reachable [OF unlucky_once one_pending_reachable]
      one_parked_row(1) _ one_parked_row(2) _ one_parked_row(3)] one_parked_row by blast

subsection \<open>Where the index is in the way\<close>

text \<open>
  C9: while a job runs, an event for its key queues a second row. Then returning the first
  to the queue breaks the unique index: a failure with attempts left, or a deferral, is the
  error \<open>Unique_violation\<close> and leaves the job running; and once its claim is stale every
  reclaim fails as a whole, so that no stale job at all is returned.
\<close>

theorem requeue_collision:
  assumes "wf_db db" and "job_by_id db i = Some j" and "job_state j = Running"
    and "dedupe_key j = Some k" and "job_by_id db i' = Some r" and "live_key r = Some k"
  shows "(\<not> cancel_requested j \<and> (d \<noteq> None \<or> attempts j < m) \<longrightarrow>
      fail now i e m d db = Inl Unique_violation) \<and>
    (stale now older j \<longrightarrow> reclaim_stale now older db = Inl Unique_violation)"
proof (intro conjI impI)
  have neq: "i' \<noteq> i" using assms by (auto simp: live_key_def claimable_def)
  have mem: "j \<in> set (db_rows db)" "r \<in> set (db_rows db)" "job_id j = i" "job_id r = i'"
    using assms(1,2,5) by (auto simp: wf_job_by_id_iff)
  have viol: "\<not> uq_jobs_pending_dedupe rs" if ids: "map job_id rs = map job_id (db_rows db)"
    and r': "r' \<in> set rs" "live_key r' = Some k" "job_id r' = i'"
    and j': "j' \<in> set rs" "live_key j' = Some k" "job_id j' = i" for rs r' j'
  proof -
    have d: "distinct (map job_id rs)" using ids assms(1) by (simp add: wf_db_def)
    have "\<not> uq_ids rs" using r' j' neq unfolding uq_ids_def by (metis option.distinct(1))
    then show ?thesis by (simp add: uq_iff [OF d])
  qed
  show "fail now i e m d db = Inl Unique_violation"
    if h: "\<not> cancel_requested j \<and> (d \<noteq> None \<or> attempts j < m)"
  proof -
    let ?j = "orm_flush now j (fail_row now e m d j)"
    have st: "claimable (job_state (fail_row now e m d j))"
      using h by (cases d) (auto simp: fail_row_def claimable_def Let_def)
    have "?j \<in> set (put_job ?j (db_rows db))" "r \<in> set (put_job ?j (db_rows db))"
      using mem neq by (auto simp: put_job_def set_update_where image_iff intro: bexI [of _ j] bexI [of _ r])
    then have "\<not> uq_jobs_pending_dedupe (put_job ?j (db_rows db))"
      using viol [of "put_job ?j (db_rows db)" r ?j] st mem assms(4,6) by (simp add: live_key_Some)
    with st assms(2) show ?thesis
      by (auto simp: fail_def Let_def commit_rows_def claimable_def)
  qed
  show "reclaim_stale now older db = Inl Unique_violation" if st: "stale now older j"
  proof -
    let ?ids = "stale_ids now older (db_rows db)"
    let ?f = "reclaim_row now older ?ids"
    have "ordinal_of ?ids i \<noteq> None"
      using st mem by (auto simp: ordinal_of_None set_stale_ids)
    then have "live_key (?f j) = Some k"
      using st mem(3) assms(4) by (auto simp: reclaim_row_def live_key_Some claimable_def)
    moreover have "?f r = r"
      using assms(6) by (auto simp: reclaim_row_def live_key_Some claimable_def stale_def split: option.split)
    ultimately have "\<not> uq_jobs_pending_dedupe (map ?f (db_rows db))"
      using viol [of "map ?f (db_rows db)" r "?f j"] mem assms(6) by (force simp: image_iff)
    then show ?thesis by (simp add: reclaim_stale_def reclaim_update_def commit_rows_def)
  qed
qed

definition requeued_while_running :: jobs_db where
  "requeued_while_running =
     fst (enqueue 6 ''process_item'' [] (Some ''movie:1'') 0 one_stale)"

theorem requeue_collision_witness:
  "fail 7 1 ''boom'' 5 None requeued_while_running = Inl Unique_violation \<and>
   reclaim_stale (secs 1000) 900 requeued_while_running = Inl Unique_violation"
proof -
  have wf: "wf_db requeued_while_running"
    unfolding requeued_while_running_def using enqueue_op.keeps_wf [OF wf_one_stale] by blast
  have row: "job_by_id requeued_while_running 1 = Some (claimed 5 ''worker-0''
      (new_job 1 0 ''process_item'' [] (Some ''movie:1'') 0))"
    "job_by_id requeued_while_running 2 = Some (new_job 2 6 ''process_item'' [] (Some ''movie:1'') 6)"
    by (simp_all add: requeued_while_running_def enqueue_def one_stale_def conflicting_def
        job_by_id_def claimed_def live_key_def claimable_def)
  show ?thesis
    using requeue_collision [OF wf row(1) _ _ row(2), where k = "''movie:1''" and d = None]
    by (simp add: claimed_def stale_def secs_def new_job_def live_key_def claimable_def)
qed

end
