(* ===== verification/Pause.thy ===== *)
theory Pause
  imports Prelude
begin

text \<open>
  The scaffolding of the bulk artwork modes (\<open>artwork_modes/base.py\<close>): the two refusal guards
  and the worker fence, and the protocol between the worker pool (\<open>queue/worker.py\<close>) and a
  mode that writes to the media server (\<open>_run_plex_writing_mode\<close> of \<open>api/routes.py\<close>). A step
  of the protocol is the code between two awaits, which asyncio runs without interruption.
\<close>

subsection \<open>The plausibility guards\<close>

datatype refusal =
    Over_cap int int int
  | Over_share int int rat
  | Empty_table string

definition SHARE_CHECK_MIN_ITEMS :: int where
  "SHARE_CHECK_MIN_ITEMS = 20"

definition refuse_if_implausible :: "int \<Rightarrow> int \<Rightarrow> int \<Rightarrow> rat \<Rightarrow> refusal option" where
  "refuse_if_implausible count totl cap share =
     (if count \<noteq> 0 \<and> count > cap then Some (Over_cap count totl cap)
      else
        let ratio = (if totl \<noteq> 0 then of_int count / of_int totl else 0)
        in if totl \<ge> SHARE_CHECK_MIN_ITEMS \<and> ratio > share
           then Some (Over_share count totl share) else None)"

definition refuse_if_empty :: "'r list \<Rightarrow> string \<Rightarrow> refusal option" where
  "refuse_if_empty rs table_name = (if rs = [] then Some (Empty_table table_name) else None)"

subsection \<open>The fence\<close>

record fence =
  event :: bool
  active :: nat
  idle :: bool

definition new_fence :: fence where
  "new_fence = \<lparr>event = False, active = 0, idle = True\<rparr>"

definition is_paused :: "fence \<Rightarrow> bool" where
  "is_paused f = event f"

definition pause :: "fence \<Rightarrow> fence" where
  "pause f = f\<lparr>event := True\<rparr>"

definition resume :: "fence \<Rightarrow> fence" where
  "resume f = f\<lparr>event := False\<rparr>"

text \<open>Entering and leaving the \<open>running_job\<close> context.\<close>

definition running_enter :: "fence \<Rightarrow> fence" where
  "running_enter f = f\<lparr>active := active f + 1, idle := False\<rparr>"

definition running_exit :: "fence \<Rightarrow> fence" where
  "running_exit f =
     (let n = active f - 1 in f\<lparr>active := n, idle := (if n = 0 then True else idle f)\<rparr>)"

subsection \<open>The pool and the modes\<close>

text \<open>
  Where a worker is: before the gate of \<open>run_worker\<close>, past it, holding a claimed job that
  \<open>run_once\<close> has not yet looked at the fence for, or inside the handler.
\<close>

datatype worker_pc = At_gate | Past_gate | Claimed_job | In_job

datatype mode_pc = M_idle | M_draining | M_drained | M_writing

datatype lock_owner = Mode nat | Restart

record pool =
  fnc :: fence
  workers :: "nat \<Rightarrow> worker_pc"
  modes :: "nat \<Rightarrow> mode_pc"
  mode_lock :: "lock_owner option"

definition init_pool :: pool where
  "init_pool = \<lparr>fnc = new_fence, workers = (\<lambda>_. At_gate), modes = (\<lambda>_. M_idle), mode_lock = None\<rparr>"

inductive pool_step :: "pool \<Rightarrow> pool \<Rightarrow> bool" where
  gate_open: "workers p w = At_gate \<Longrightarrow> \<not> is_paused (fnc p) \<Longrightarrow>
     pool_step p (p\<lparr>workers := (workers p)(w := Past_gate)\<rparr>)"
| nothing_due: "workers p w = Past_gate \<Longrightarrow>
     pool_step p (p\<lparr>workers := (workers p)(w := At_gate)\<rparr>)"
| claimed: "workers p w = Past_gate \<Longrightarrow>
     pool_step p (p\<lparr>workers := (workers p)(w := Claimed_job)\<rparr>)"
| handed_back: "workers p w = Claimed_job \<Longrightarrow> is_paused (fnc p) \<Longrightarrow>
     pool_step p (p\<lparr>workers := (workers p)(w := At_gate)\<rparr>)"
| unknown_kind: "workers p w = Claimed_job \<Longrightarrow> \<not> is_paused (fnc p) \<Longrightarrow>
     pool_step p (p\<lparr>workers := (workers p)(w := At_gate)\<rparr>)"
| job_starts: "workers p w = Claimed_job \<Longrightarrow> \<not> is_paused (fnc p) \<Longrightarrow>
     pool_step p (p\<lparr>workers := (workers p)(w := In_job), fnc := running_enter (fnc p)\<rparr>)"
| job_ends: "workers p w = In_job \<Longrightarrow>
     pool_step p (p\<lparr>workers := (workers p)(w := At_gate), fnc := running_exit (fnc p)\<rparr>)"
| mode_starts: "modes p m = M_idle \<Longrightarrow> mode_lock p = None \<Longrightarrow>
     pool_step p (p\<lparr>mode_lock := Some (Mode m), fnc := pause (fnc p),
                    modes := (modes p)(m := M_draining)\<rparr>)"
| mode_drained: "modes p m = M_draining \<Longrightarrow> idle (fnc p) \<Longrightarrow>
     pool_step p (p\<lparr>modes := (modes p)(m := M_drained)\<rparr>)"
| mode_writes: "modes p m = M_drained \<Longrightarrow>
     pool_step p (p\<lparr>modes := (modes p)(m := M_writing)\<rparr>)"
| mode_ends: "modes p m \<noteq> M_idle \<Longrightarrow>
     pool_step p (p\<lparr>mode_lock := None, fnc := resume (fnc p),
                    modes := (modes p)(m := M_idle)\<rparr>)"
| restart_locks: "mode_lock p = None \<Longrightarrow> pool_step p (p\<lparr>mode_lock := Some Restart\<rparr>)"
| restart_fails: "mode_lock p = Some Restart \<Longrightarrow> pool_step p (p\<lparr>mode_lock := None\<rparr>)"

inductive pool_reachable :: "pool \<Rightarrow> bool" where
  pool_start: "pool_reachable init_pool"
| pool_more: "pool_reachable p \<Longrightarrow> pool_step p q \<Longrightarrow> pool_reachable q"

subsection \<open>The invariant\<close>

definition in_job :: "pool \<Rightarrow> nat set" where
  "in_job p = {w. workers p w = In_job}"

definition fence_counts :: "pool \<Rightarrow> bool" where
  "fence_counts p \<longleftrightarrow> finite (in_job p) \<and> active (fnc p) = card (in_job p) \<and>
     (idle (fnc p) \<longleftrightarrow> active (fnc p) = 0)"

definition mode_holds :: "pool \<Rightarrow> bool" where
  "mode_holds p \<longleftrightarrow>
     (\<forall>m. modes p m \<noteq> M_idle \<longleftrightarrow> mode_lock p = Some (Mode m)) \<and>
     (is_paused (fnc p) \<longleftrightarrow> (\<exists>m. modes p m \<noteq> M_idle)) \<and>
     (\<forall>m. modes p m = M_drained \<or> modes p m = M_writing \<longrightarrow> active (fnc p) = 0)"

lemma in_job_upd:
  "in_job (p\<lparr>workers := (workers p)(w := pc), fnc := f\<rparr>) =
     (if pc = In_job then insert w (in_job p) else in_job p - {w})"
  "in_job (p\<lparr>workers := (workers p)(w := pc)\<rparr>) =
     (if pc = In_job then insert w (in_job p) else in_job p - {w})"
  by (auto simp: in_job_def)

lemma in_job_move [simp]:
  "workers p w \<noteq> In_job \<Longrightarrow> pc \<noteq> In_job \<Longrightarrow>
     in_job (p\<lparr>workers := (workers p)(w := pc)\<rparr>) = in_job p"
  by (auto simp: in_job_def)

lemma in_job_modes [simp]:
  "in_job (p\<lparr>fnc := f\<rparr>) = in_job p"
  "in_job (p\<lparr>modes := ms\<rparr>) = in_job p"
  "in_job (p\<lparr>mode_lock := l\<rparr>) = in_job p"
  by (simp_all add: in_job_def)

lemmas fence_defs = is_paused_def pause_def resume_def running_enter_def running_exit_def

lemma counts_step: "pool_step p q \<Longrightarrow> fence_counts p \<Longrightarrow> fence_counts q"
proof (induction rule: pool_step.induct)
  case (job_starts p w)
  then have "w \<notin> in_job p" by (simp add: in_job_def)
  with job_starts show ?case by (auto simp: fence_counts_def in_job_upd fence_defs)
next
  case (job_ends p w)
  then have "w \<in> in_job p" by (simp add: in_job_def)
  moreover from this job_ends have "card (in_job p) \<noteq> 0" by (auto simp: fence_counts_def)
  ultimately show ?case
    using job_ends by (auto simp: fence_counts_def in_job_upd fence_defs Let_def)
qed (auto simp: fence_counts_def fence_defs)

lemma holds_step:
  "pool_step p q \<Longrightarrow> fence_counts p \<Longrightarrow> mode_holds p \<Longrightarrow> mode_holds q"
proof (induction rule: pool_step.induct)
  case (mode_starts p m)
  then show ?case by (fastforce simp: mode_holds_def fence_defs)
next
  case (mode_drained p m)
  then show ?case by (auto simp: mode_holds_def fence_counts_def split: if_splits)
next
  case (mode_writes p m)
  then show ?case by (fastforce simp: mode_holds_def)
next
  case (mode_ends p m)
  then show ?case by (auto simp: mode_holds_def fence_defs)
next
  case (job_ends p w)
  then show ?case by (auto simp: mode_holds_def fence_defs Let_def)
next
  case (job_starts p w)
  then show ?case by (auto simp: mode_holds_def fence_defs)
qed (auto simp: mode_holds_def)

lemma pool_inv: "pool_reachable p \<Longrightarrow> fence_counts p \<and> mode_holds p"
proof (induction rule: pool_reachable.induct)
  case pool_start
  show ?case
    by (simp add: fence_counts_def mode_holds_def init_pool_def new_fence_def in_job_def is_paused_def)
next
  case (pool_more p q)
  then show ?case using counts_step holds_step by blast
qed

text \<open>
  C3: under every interleaving of any number of workers, modes and restart requests, while
  a mode is writing no worker is inside a handler, no other mode is running at all, and no
  restart holds the lock.
\<close>

theorem fence_excludes:
  assumes "pool_reachable p" and "modes p m = M_writing"
  shows "(\<forall>w. workers p w \<noteq> In_job) \<and> (\<forall>m'. m' \<noteq> m \<longrightarrow> modes p m' = M_idle) \<and>
    mode_lock p = Some (Mode m)"
proof -
  note inv = pool_inv [OF assms(1)]
  have "active (fnc p) = 0" using inv assms(2) by (auto simp: mode_holds_def)
  then have "in_job p = {}" using inv unfolding fence_counts_def by (metis card_0_eq)
  moreover have "mode_lock p = Some (Mode m)"
    using inv assms(2) unfolding mode_holds_def by (metis mode_pc.distinct(5))
  ultimately show ?thesis
    using inv unfolding mode_holds_def in_job_def by fastforce
qed


theorem fence_excludes_witness:
  "\<exists>p :: pool. modes p 7 = M_writing \<and> (\<forall>w. workers p w \<noteq> In_job) \<and> mode_lock p = Some (Mode 7)"
proof -
  let ?p1 = "init_pool\<lparr>mode_lock := Some (Mode 7), fnc := pause (fnc init_pool),
      modes := (modes init_pool)(7 := M_draining)\<rparr>"
  let ?p2 = "?p1\<lparr>modes := (modes ?p1)(7 := M_drained)\<rparr>"
  let ?p3 = "?p2\<lparr>modes := (modes ?p2)(7 := M_writing)\<rparr>"
  have "pool_step init_pool ?p1" by (rule mode_starts) (simp_all add: init_pool_def)
  moreover have "pool_step ?p1 ?p2"
    by (rule mode_drained) (simp_all add: init_pool_def pause_def new_fence_def)
  moreover have "pool_step ?p2 ?p3" by (rule mode_writes) simp
  ultimately have "pool_reachable ?p3" by (meson pool_start pool_more)
  moreover have "modes ?p3 7 = M_writing" by simp
  ultimately obtain p where p: "pool_reachable p" "modes p 7 = M_writing" by blast
  from fence_excludes [OF p] p(2) show ?thesis by (intro exI [of _ p]) simp
qed

text \<open>
  The plausibility guard lets an operation through exactly when it stays within both
  caps: at most \<open>cap\<close> items (or none at all) and, once there are at least twenty candidates,
  at most the configured share of them; so no operation on a larger library that would
  change every item passes a share below one.
\<close>

theorem refuse_if_implausible_caps:
  "(refuse_if_implausible count totl cap share = None \<longleftrightarrow>
     (count = 0 \<or> count \<le> cap) \<and>
     (20 \<le> totl \<longrightarrow> of_int count \<le> share * of_int totl)) \<and>
   (20 \<le> totl \<and> share < 1 \<longrightarrow> refuse_if_implausible totl totl cap share \<noteq> None)"
proof -
  have "20 \<le> totl \<Longrightarrow> (share < of_int count / of_int totl) = (share * of_int totl < of_int count)"
    by (simp add: pos_less_divide_eq)
  then show ?thesis
    by (auto simp: refuse_if_implausible_def SHARE_CHECK_MIN_ITEMS_def Let_def not_less)
qed

theorem refuse_if_implausible_caps_witness:
  "refuse_if_implausible 400 400 500 (1 / 2 ) \<noteq> None"
  using refuse_if_implausible_caps [of 400 400 500 "1 / 2"] by simp

end
