(* ===== verification/Worker.thy ===== *)
theory Worker
  imports Queue_Props Pause
begin

text \<open>
  The worker (\<open>queue/worker.py\<close>): \<open>run_once\<close> with its ladder of except-clauses, \<open>run_worker\<close>
  with its two gates, and what may be served as the reason of a failure. A handler is a
  parameter: what it does to the committed tables (with whatever other processes commit
  meanwhile) and how it ends.
\<close>

subsection \<open>Exceptions\<close>

text \<open>The classes the ladder tells apart; \<open>PathMismatch\<close> is a subclass of \<open>ItemNotFound\<close>.\<close>

datatype exn_class = PathMismatch | ItemNotFound | ConnectionError | Timeout | OtherException

record exn =
  exn_class :: exn_class
  exn_name :: string
  exn_message :: string
  served_detail :: bool
  exn_max_attempts :: "nat option"

definition is_ItemNotFound :: "exn \<Rightarrow> bool" where
  "is_ItemNotFound e \<longleftrightarrow> exn_class e = ItemNotFound \<or> exn_class e = PathMismatch"

definition served_reason :: "exn \<Rightarrow> string" where
  "served_reason e = (if served_detail e then exn_name e @ '': '' @ exn_message e else exn_name e)"

datatype outcome = Returned "string option" | Cancelled | Raised exn

subsection \<open>run\_once\<close>

datatype run_result = Nothing_due | Handed_back | Ran | Cancelled_run | Db_failure db_error

type_synonym handler = "job \<Rightarrow> jobs_db \<Rightarrow> jobs_db \<times> outcome"

definition max_attempts_of :: "exn \<Rightarrow> nat" where
  "max_attempts_of e = (case exn_max_attempts e of None \<Rightarrow> MAX_ATTEMPTS | Some m \<Rightarrow> m)"

text \<open>
  The except-ladder, in the code's order: the first clause whose class matches decides the
  budget and the deferral that \<open>fail\<close> is called with.
\<close>

definition fail_after :: "instant \<Rightarrow> nat \<Rightarrow> exn \<Rightarrow> jobs_db \<Rightarrow> db_error + (jobs_db \<times> job_state)" where
  "fail_after now i e db =
     (if exn_class e = PathMismatch then fail now i (served_reason e) MAX_ATTEMPTS None db
      else if is_ItemNotFound e
      then fail now i (served_reason e) MAX_ATTEMPTS (Some DEFER_INTERVAL_SECONDS) db
      else if exn_class e = ConnectionError \<or> exn_class e = Timeout
      then fail now i (served_reason e) (max_attempts_of e) None db
      else fail now i (served_reason e) (max_attempts_of e) None db)"

definition settle :: "instant \<Rightarrow> nat \<Rightarrow> outcome \<Rightarrow> jobs_db \<Rightarrow> jobs_db \<times> run_result" where
  "settle now i out db = (case out of
       Cancelled \<Rightarrow> (case release now i db of
           Inl err \<Rightarrow> (db, Db_failure err) | Inr db' \<Rightarrow> (db', Cancelled_run))
     | Raised e \<Rightarrow> (case fail_after now i e db of
           Inl err \<Rightarrow> (db, Db_failure err) | Inr (db', _) \<Rightarrow> (db', Ran))
     | Returned w \<Rightarrow> (case complete now i w db of
           Inl err \<Rightarrow> (db, Db_failure err) | Inr db' \<Rightarrow> (db', Ran)))"

definition park_unknown :: "instant \<Rightarrow> job \<Rightarrow> jobs_db \<Rightarrow> db_error + jobs_db" where
  "park_unknown now j db = commit_rows db (put_job (orm_flush now j
     (j\<lparr>job_state := Parked, last_error := Some (''unknown job kind '' @ py_repr (job_kind j))\<rparr>))
     (db_rows db))"

text \<open>
  One call of \<open>run_once\<close>: \<open>paused\<close> is the fence as it reads after the claim, \<open>now\<close> the
  instant of the claim and \<open>later\<close> that of the closing transaction.
\<close>

definition run_once ::
  "instant \<Rightarrow> instant \<Rightarrow> (nat \<Rightarrow> bool) \<Rightarrow> string \<Rightarrow> (string \<rightharpoonup> handler) \<Rightarrow> bool \<Rightarrow> jobs_db \<Rightarrow>
   jobs_db \<times> run_result" where
  "run_once now later locked worker handlers paused db =
     (case claim now locked worker db of
        (db1, None) \<Rightarrow> (db1, Nothing_due)
      | (db1, Some j) \<Rightarrow>
          if paused then
            (case release later (job_id j) db1 of
               Inl err \<Rightarrow> (db1, Db_failure err) | Inr db2 \<Rightarrow> (db2, Handed_back))
          else (case handlers (job_kind j) of
             None \<Rightarrow> (case park_unknown later j db1 of
                 Inl err \<Rightarrow> (db1, Db_failure err) | Inr db2 \<Rightarrow> (db2, Ran))
           | Some h \<Rightarrow>
               let (db2, out) = h j db1 in settle later (job_id j) out db2))"

text \<open>The function's own boolean: whether the worker should look for more work at once.\<close>

definition did_work :: "run_result \<Rightarrow> bool" where
  "did_work r \<longleftrightarrow> r = Ran"

subsection \<open>run\_worker\<close>

text \<open>
  One turn of the loop, given what it reads: the stop flag, the fence, the health check
  (\<open>None\<close> when no check was passed) and what \<open>run_once\<close> did. A worker-loop error counts as
  no work.
\<close>

record turn =
  stopped :: bool
  turn_paused :: bool
  healthy :: "bool option"
  ran :: run_result

datatype worker_action = Stop | Idle_paused | Idle_unhealthy | Tried run_result bool

definition worker_turn :: "turn \<Rightarrow> worker_action" where
  "worker_turn t =
     (if stopped t then Stop
      else if turn_paused t then Idle_paused
      else if healthy t = Some False then Idle_unhealthy
      else Tried (ran t) (\<not> did_work (ran t)))"

text \<open>A cancelled run re-raises through the loop, which ends the worker.\<close>

fun run_worker :: "turn list \<Rightarrow> worker_action list" where
  "run_worker [] = []"
| "run_worker (t # ts) =
     (case worker_turn t of
        Stop \<Rightarrow> [Stop]
      | Tried Cancelled_run s \<Rightarrow> [Tried Cancelled_run s]
      | a \<Rightarrow> a # run_worker ts)"


subsection \<open>Lemmas\<close>

lemma put_job_put_job: "job_id a = job_id b \<Longrightarrow> put_job a (put_job b rs) = put_job a rs"
  by (induction rs) (auto simp: put_job_def)

lemma release_tab:
  assumes "job_by_id db i = Some j" and "job_id j = i" and "release now i db = Inr db'"
  shows "\<exists>q. job_by_id db' i = Some q \<and> job_state q = Pending"
  using assms by (auto simp: release_def commit_rows_Inr job_by_id_def tab_put_job)

lemma park_unknown_tab:
  assumes "job_by_id db (job_id j) = Some j" and "park_unknown now j db = Inr db'"
  shows "\<exists>q. job_by_id db' (job_id j) = Some q \<and> job_state q = Parked"
    and "\<And>n. n \<noteq> job_id j \<Longrightarrow> job_by_id db' n = job_by_id db n"
  using assms by (auto simp: park_unknown_def commit_rows_Inr job_by_id_def tab_put_job)

lemma fail_after_as_fail:
  "\<exists>m d. fail_after now i e db = fail now i (served_reason e) m d db"
  by (auto simp: fail_after_def)

lemma settle_row:
  assumes wf: "wf_db db" and row: "job_by_id db i \<noteq> None"
    and res: "settle now i out db = (db', r)" and ok: "\<forall>err. r \<noteq> Db_failure err"
  shows "\<exists>q. job_by_id db' i = Some q \<and> job_state q \<noteq> Running"
proof -
  obtain j where j: "job_by_id db i = Some j" using row by blast
  show ?thesis
  proof (cases out)
    case (Returned w)
    with res ok have "complete now i w db = Inr db'"
      by (auto simp: settle_def split: sum.splits)
    from complete_tab [OF wf j this, of i] show ?thesis by simp
  next
    case Cancelled
    with res ok have "release now i db = Inr db'"
      by (auto simp: settle_def split: sum.splits)
    with release_tab [OF j] wf_job_by_id [OF wf j] show ?thesis by fastforce
  next
    case (Raised e)
    with res ok obtain s where "fail_after now i e db = Inr (db', s)"
      by (auto simp: settle_def split: sum.splits)
    then obtain m d where "fail now i (served_reason e) m d db = Inr (db', s)"
      using fail_after_as_fail [of now i e db] by auto
    from fail_tab(1) [OF wf j this, of i] show ?thesis by simp
  qed
qed

text \<open>What the worker relies on: a handler changes the queue by its operations only.\<close>

definition handlers_step :: "(string \<rightharpoonup> handler) \<Rightarrow> bool" where
  "handlers_step hs \<longleftrightarrow> (\<forall>k h j db. hs k = Some h \<longrightarrow> queue_step\<^sup>*\<^sup>* db (fst (h j db)))"

text \<open>
  C4: whatever the handler does and however it ends, the job this call claimed is no longer
  running when the call returns, unless the closing transaction itself failed.
\<close>

theorem run_once_settles:
  assumes "wf_db db" and "handlers_step hs" and "claim now locked w db = (db1, Some j)"
    and "run_once now later locked w hs paused db = (db', r)"
  shows "(\<exists>err. r = Db_failure err) \<or>
    (\<exists>q. job_by_id db' (job_id j) = Some q \<and> job_state q \<noteq> Running)"
proof (rule ccontr)
  assume neg: "\<not> ?thesis"
  have wf1: "wf_db db1" using claim_op.keeps_wf [OF assms(1)] assms(3) by (metis fst_conv)
  have row: "job_by_id db1 (job_id j) = Some j"
    by (rule claimed_row [OF assms(1,3)])
  show False
  proof (cases paused)
    case True
    then show False
      using assms(3,4) neg release_tab [OF row refl, of later]
      by (auto simp: run_once_def split: sum.splits)
  next
    case False
    show False
    proof (cases "hs (job_kind j)")
      case None
      then show False
        using False assms(3,4) neg park_unknown_tab(1) [OF row, of later]
        by (auto simp: run_once_def split: sum.splits)
    next
      case (Some h)
      obtain db2 out where h: "h j db1 = (db2, out)" by fastforce
      have steps: "queue_step\<^sup>*\<^sup>* db1 db2"
        using assms(2) Some h unfolding handlers_step_def by (metis fst_conv)
      have "settle later (job_id j) out db2 = (db', r)"
        using assms(3,4) False Some h by (simp add: run_once_def)
      moreover have "wf_db db2" by (rule queue.run_wf [OF steps wf1])
      moreover have "job_by_id db2 (job_id j) \<noteq> None"
        using queue.run_keeps_job [OF steps wf1] row by simp
      ultimately show False using settle_row neg by blast
    qed
  qed
qed

definition quiet_handler :: handler where
  "quiet_handler j db = (db, Returned None)"

lemma claim_one_pending:
  "claim 5 (\<lambda>_. False) ''worker-0'' one_pending = (one_stale,
     Some (claimed 5 ''worker-0'' (new_job 1 0 ''process_item'' [] (Some ''movie:1'') 0)))"
  by (simp add: claim_def next_due_def one_pending_def one_stale_def due_def claimable_def
      put_job_def claimed_def new_job_def Let_def)

theorem run_once_settles_witness:
  "\<exists>q. job_by_id one_done 1 = Some q \<and> job_state q \<noteq> Running"
proof -
  have hs: "handlers_step [''process_item'' \<mapsto> quiet_handler]"
    by (simp add: handlers_step_def quiet_handler_def)
  have "run_once 5 6 (\<lambda>_. False) ''worker-0'' [''process_item'' \<mapsto> quiet_handler] False one_pending
      = (one_done, Ran)"
    using complete_one_stale
    by (simp add: run_once_def claim_one_pending claimed_def new_job_def quiet_handler_def settle_def)
  from run_once_settles [OF wf_one_pending hs claim_one_pending this] show ?thesis
    by (simp add: claimed_def new_job_def)
qed

text \<open>
  A job claimed behind a raised fence goes straight back: the call succeeds, answers
  that no work was done and runs no handler; the job is pending with the attempts and the
  schedule it had before the claim, and no other row is touched.
\<close>

theorem paused_hands_back:
  assumes "wf_db db" and "claim now locked w db = (db1, Some j)"
    and "job_by_id db (job_id j) = Some j0"
    and "run_once now later locked w hs True db = (db', r)"
  shows "r = Handed_back \<and> \<not> did_work r \<and>
    (\<exists>q. job_by_id db' (job_id j) = Some q \<and> job_state q = Pending \<and> attempts q = attempts j0 \<and>
       run_after q = run_after j0 \<and> claimed_by q = None \<and> claimed_at q = None) \<and>
    (\<forall>n. n \<noteq> job_id j \<longrightarrow> job_by_id db' n = job_by_id db n)"
proof -
  obtain j1 where j1: "next_due now locked (db_rows db) = Some j1" "j = claimed now w j1"
      "db1 = db\<lparr>db_rows := put_job j (db_rows db)\<rparr>"
    by (rule claim_row [OF assms(2)])
  have "job_by_id db (job_id j1) = Some j1"
    using due_choice.pick_mem [OF j1(1)] assms(1) by (simp add: wf_job_by_id_iff)
  then have "j1 = j0" using assms(3) j1(2) by (simp add: claimed_def)
  with j1 have j: "next_due now locked (db_rows db) = Some j0 \<and> j = claimed now w j0 \<and>
      db1 = db\<lparr>db_rows := put_job j (db_rows db)\<rparr>" by simp
  then have live: "claimable (job_state j0)"
    using due_choice.pick_mem by (auto simp: due_def)
  define q where "q = orm_flush later j (j\<lparr>job_state := Pending, claimed_by := None,
      claimed_at := None, attempts := attempts j - 1\<rparr>)"
  have q: "job_id q = job_id j" "job_state q = Pending" "attempts q = attempts j0"
      "run_after q = run_after j0" "claimed_by q = None" "claimed_at q = None"
      "dedupe_key q = dedupe_key j0"
    using j by (simp_all add: q_def claimed_def)
  have id: "job_id j = job_id j0" using j by (simp add: claimed_def)
  have t0: "tab (db_rows db) (job_id q) = Some j0"
    using assms(3) q(1) by (simp add: job_by_id_def)
  have "live_key q = live_key j0" using live q by (simp add: live_key_def claimable_def)
  with uq_put_job [OF assms(1) t0] have uq: "uq_jobs_pending_dedupe (put_job q (db_rows db))"
    by simp
  have row: "job_by_id db1 (job_id j) = Some j"
    by (rule claimed_row [OF assms(1,2)])
  have db1: "db1 = db\<lparr>db_rows := put_job j (db_rows db)\<rparr>" using j by simp
  have "release later (job_id j) db1 = commit_rows db1 (put_job q (db_rows db1))"
    by (simp add: release_def row q_def)
  also have "put_job q (db_rows db1) = put_job q (db_rows db)"
    using q(1) by (simp add: db1 put_job_put_job)
  also have "commit_rows db1 \<dots> = Inr (db\<lparr>db_rows := put_job q (db_rows db)\<rparr>)"
    using uq by (simp add: commit_rows_def db1)
  finally have "release later (job_id j) db1 = Inr (db\<lparr>db_rows := put_job q (db_rows db)\<rparr>)" .
  then have "r = Handed_back \<and> db' = db\<lparr>db_rows := put_job q (db_rows db)\<rparr>"
    using assms(2,4) by (simp add: run_once_def)
  then show ?thesis
    using q t0 by (auto simp: did_work_def tab_put_job job_by_id_def)
qed


theorem paused_hands_back_witness:
  "snd (run_once 5 6 (\<lambda>_. False) ''worker-0'' [''process_item'' \<mapsto> quiet_handler] True one_pending)
     = Handed_back"
proof -
  have "job_by_id one_pending (job_id (claimed 5 ''worker-0''
      (new_job 1 0 ''process_item'' [] (Some ''movie:1'') 0))) =
      Some (new_job 1 0 ''process_item'' [] (Some ''movie:1'') 0)"
    by (simp add: job_by_id_def one_pending_def claimed_def new_job_def)
  from paused_hands_back [OF wf_one_pending claim_one_pending this prod.collapse [symmetric]]
  show ?thesis by blast
qed

subsection \<open>The ladder\<close>

text \<open>
  For a job no operator has cancelled, only an item the server does not have yet defers
  it, on the six-hour horizon and with a fresh budget; a path mismatch, though a subclass of
  that, and every other error spend the attempt, and park the job exactly when the attempts
  charged have reached the budget (the exception's own, else five).
\<close>

theorem ladder_outcomes:
  assumes "wf_db db" and "job_by_id db i = Some j" and "\<not> cancel_requested j"
    and "fail_after now i e db = Inr (db', s)"
  shows "(s = Deferred \<longleftrightarrow> exn_class e = ItemNotFound) \<and>
    (s = Deferred \<longrightarrow> (\<exists>q. job_by_id db' i = Some q \<and> attempts q = 0 \<and>
       run_after q = now + secs 21600)) \<and>
    (s \<noteq> Deferred \<longrightarrow> (s = Parked \<longleftrightarrow>
       (if exn_class e = PathMismatch then 5 else max_attempts_of e) \<le> attempts j)) \<and>
    (s \<noteq> Deferred \<longrightarrow> s = Parked \<or> s = Pending) \<and>
    (\<exists>q. job_by_id db' i = Some q \<and> job_state q = s \<and> last_error q = Some (served_reason e))"
proof -
  define m where "m = (if exn_class e = PathMismatch \<or> exn_class e = ItemNotFound
    then MAX_ATTEMPTS else max_attempts_of e)"
  define d where "d = (if exn_class e = ItemNotFound then Some DEFER_INTERVAL_SECONDS else None)"
  have f: "fail now i (served_reason e) m d db = Inr (db', s)"
    using assms(4) by (auto simp: fail_after_def m_def d_def is_ItemNotFound_def split: if_splits)
  note t = fail_tab [OF assms(1,2) f]
  show ?thesis
    using assms(3) t(1) [of i] t(2)
    by (cases "exn_class e = ItemNotFound")
      (simp_all add: fail_row_def Let_def d_def m_def MAX_ATTEMPTS_def DEFER_INTERVAL_SECONDS_def)
qed

definition missing_item :: exn where
  "missing_item = \<lparr>exn_class = ItemNotFound, exn_name = ''ItemNotFound'',
     exn_message = ''no match'', served_detail = True, exn_max_attempts = None\<rparr>"

theorem ladder_outcomes_witness:
  "\<exists>db' s. fail_after 9 1 missing_item one_stale = Inr (db', s) \<and> s = Deferred"
proof -
  have row: "job_by_id one_stale 1 = Some (claimed 5 ''worker-0''
      (new_job 1 0 ''process_item'' [] (Some ''movie:1'') 0))"
    by (simp add: job_by_id_def one_stale_def claimed_def new_job_def)
  have "\<exists>db' s. fail_after 9 1 missing_item one_stale = Inr (db', s)"
    by (simp add: fail_after_def missing_item_def is_ItemNotFound_def fail_def job_by_id_def fail_row_def
        Let_def one_stale_def commit_rows_def put_job_def claimed_def new_job_def uq_Cons)
  then obtain db' s where f: "fail_after 9 1 missing_item one_stale = Inr (db', s)" by blast
  from ladder_outcomes [OF wf_one_stale row _ f] f show ?thesis
    by (simp add: missing_item_def claimed_def new_job_def)
qed

text \<open>
  The stored reason, which the API serves, never carries the text of an exception that
  is not marked as reviewed: two such exceptions that differ in their text alone leave the
  same tables, so neither a host name nor a token in it can reach a reader.
\<close>

theorem unreviewed_message_not_served:
  assumes "\<not> served_detail e"
  shows "fail_after now i (e\<lparr>exn_message := m\<rparr>) db = fail_after now i e db"
  using assms by (simp add: fail_after_def is_ItemNotFound_def served_reason_def max_attempts_of_def)

theorem unreviewed_message_not_served_witness:
  "fail_after 9 1 (missing_item\<lparr>served_detail := False, exn_message := ''http://plex:32400''\<rparr>) one_stale
     = fail_after 9 1 (missing_item\<lparr>served_detail := False\<rparr>) one_stale"
  using unreviewed_message_not_served [of "missing_item\<lparr>served_detail := False\<rparr>" 9 1
      "''http://plex:32400''" one_stale]
  by (simp add: missing_item_def)

text \<open>
  A job of a kind no handler is registered for parks at once, without an attempt more;
  and this park, unlike the one of \<open>fail\<close>, leaves every other row as it is, so parked rows
  of the same key stay beside it.
\<close>

theorem unknown_kind_parks:
  assumes "wf_db db" and "claim now locked w db = (db1, Some j)" and "hs (job_kind j) = None"
    and "run_once now later locked w hs False db = (db', r)"
  shows "r = Ran \<and> (\<exists>q. job_by_id db' (job_id j) = Some q \<and> job_state q = Parked \<and>
      last_error q = Some (''unknown job kind '' @ py_repr (job_kind j)) \<and> attempts q = attempts j) \<and>
    (\<forall>n. n \<noteq> job_id j \<longrightarrow> job_by_id db' n = job_by_id db1 n)"
proof -
  have wf1: "wf_db db1" using claim_op.keeps_wf [OF assms(1)] assms(2) by (metis fst_conv)
  have row: "job_by_id db1 (job_id j) = Some j"
    by (rule claimed_row [OF assms(1,2)])
  define q where "q = orm_flush later j (j\<lparr>job_state := Parked,
      last_error := Some (''unknown job kind '' @ py_repr (job_kind j))\<rparr>)"
  have q: "job_id q = job_id j" "live_key q = None" "job_state q = Parked" "attempts q = attempts j"
      "last_error q = Some (''unknown job kind '' @ py_repr (job_kind j))"
    by (simp_all add: q_def live_key_def claimable_def)
  have "uq_jobs_pending_dedupe (put_job q (db_rows db1))"
    using row q(1,2) by (intro uq_put_job [OF wf1, where j = j]) (simp_all add: job_by_id_def)
  then have "park_unknown later j db1 = Inr (db1\<lparr>db_rows := put_job q (db_rows db1)\<rparr>)"
    by (simp add: park_unknown_def q_def commit_rows_def)
  with assms(2,3,4) have "r = Ran \<and> db' = db1\<lparr>db_rows := put_job q (db_rows db1)\<rparr>"
    by (simp add: run_once_def)
  then show ?thesis
    using q row by (auto simp: tab_put_job job_by_id_def)
qed

theorem unknown_kind_parks_witness:
  "snd (run_once 5 6 (\<lambda>_. False) ''worker-0'' Map.empty False one_pending) = Ran"
  using unknown_kind_parks [OF wf_one_pending claim_one_pending _ prod.collapse [symmetric],
      of Map.empty 6] by simp

subsection \<open>The loop\<close>

text \<open>
  The worker claims nothing on a turn on which it is stopped, the fence is up or its
  server is unhealthy, it goes straight to the next turn only after real work, and nothing
  follows a stop or a cancellation.
\<close>

theorem worker_claims_only_when_open:
  assumes "k < length (run_worker ts)"
  shows "k < length ts \<and> run_worker ts ! k = worker_turn (ts ! k) \<and>
    (\<forall>res sleeps. run_worker ts ! k = Tried res sleeps \<longrightarrow>
       \<not> stopped (ts ! k) \<and> \<not> turn_paused (ts ! k) \<and> healthy (ts ! k) \<noteq> Some False \<and>
       (\<not> sleeps \<longleftrightarrow> res = Ran)) \<and>
    (run_worker ts ! k = Stop \<or> (\<exists>sl. run_worker ts ! k = Tried Cancelled_run sl) \<longrightarrow>
       Suc k = length (run_worker ts))"
  using assms
proof (induction ts arbitrary: k)
  case Nil
  then show ?case by simp
next
  case (Cons t ts)
  show ?case
  proof (cases "worker_turn t = Stop \<or> (\<exists>sl. worker_turn t = Tried Cancelled_run sl)")
    case True
    then have "run_worker (t # ts) = [worker_turn t]" by auto
    with Cons.prems show ?thesis
      by (auto simp: worker_turn_def did_work_def split: if_splits)
  next
    case False
    then have eq: "run_worker (t # ts) = worker_turn t # run_worker ts"
      by (auto split: worker_action.split run_result.split)
    show ?thesis
    proof (cases k)
      case 0
      with False show ?thesis
        unfolding eq by (auto simp: worker_turn_def did_work_def split: if_splits)
    next
      case (Suc n)
      with Cons eq show ?thesis by simp
    qed
  qed
qed

theorem worker_claims_only_when_open_witness:
  "run_worker [\<lparr>stopped = False, turn_paused = True, healthy = None, ran = Ran\<rparr>] ! 0 = Idle_paused"
  using worker_claims_only_when_open
    [of 0 "[\<lparr>stopped = False, turn_paused = True, healthy = None, ran = Ran\<rparr>]"]
  by (simp add: worker_turn_def)

end
