(* ===== verification/Outcomes.thy ===== *)
theory Outcomes
  imports Prelude
begin

text \<open>
  The per-server outcome tables (\<open>deliveries.py\<close>: \<open>render_deliveries\<close> and \<open>metadata_writes\<close>):
  the shared upsert, its two callers, the roll-up of a render and the warning sentence of a
  job. Both tables have one row shape; \<open>terminal_at\<close> stands for \<open>uploaded_at\<close> of the first
  and \<open>written_at\<close> of the second, and \<open>fingerprint\<close> is used by the first only.
\<close>

subsection \<open>Rows\<close>

datatype status = S_pending | S_failed | S_skipped | S_absent | S_uploaded | S_written

definition STATUSES :: "status list" where
  "STATUSES = [S_pending, S_failed, S_skipped, S_absent]"

definition RETRY_SECONDS :: int where
  "RETRY_SECONDS = 6 * 60 * 60"

record outcome_row =
  o_id :: nat
  o_key :: nat
  o_server :: string
  o_status :: status
  o_detail :: "string option"
  o_attempts :: nat
  attempted_at :: "instant option"
  terminal_at :: "instant option"
  next_attempt_at :: "instant option"
  fingerprint :: "string option"
  o_run_id :: "nat option"
  previous_status :: "status option"

record outcome_tab =
  o_rows :: "outcome_row list"
  o_next :: nat

text \<open>The row of the unique constraint \<open>(render_id | item_id, server)\<close>.\<close>

definition at_key :: "nat \<Rightarrow> string \<Rightarrow> outcome_row \<Rightarrow> bool" where
  "at_key k s r \<longleftrightarrow> o_key r = k \<and> o_server r = s"

definition look :: "outcome_tab \<Rightarrow> nat \<Rightarrow> string \<Rightarrow> outcome_row option" where
  "look t k s = List.find (at_key k s) (o_rows t)"

subsection \<open>failure\_detail\<close>

datatype failure =
    HTTPStatusError string nat
  | TransportError string
  | OtherError string

fun failure_detail :: "failure \<Rightarrow> string" where
  "failure_detail (HTTPStatusError cls code) = ''status: '' @ cls @ '' '' @ nat_digits code"
| "failure_detail (TransportError cls) = ''connect: '' @ cls"
| "failure_detail (OtherError cls) = ''error: '' @ cls"

subsection \<open>The upsert\<close>

text \<open>The keyword arguments of \<open>record\<close> and \<open>record_metadata\<close>, with their defaults.\<close>

record write_args =
  w_status :: status
  w_detail :: "string option"
  w_retry_in :: "int option"
  w_fingerprint :: "string option"
  count_attempt :: bool
  reset_attempts :: bool
  leave_run :: bool
  keep_next_attempt :: bool

definition args :: "status \<Rightarrow> write_args" where
  "args st = \<lparr>w_status = st, w_detail = None, w_retry_in = None, w_fingerprint = None,
     count_attempt = True, reset_attempts = False, leave_run = False, keep_next_attempt = False\<rparr>"

datatype write_error = Value_error status | Type_error

definition open_status :: "status \<Rightarrow> bool" where
  "open_status st \<longleftrightarrow> st = S_pending \<or> st = S_failed"

text \<open>
  \<open>now + timedelta(seconds=retry_in)\<close> for a pending outcome, which needs a number; no
  horizon otherwise.
\<close>

definition horizon :: "instant \<Rightarrow> write_args \<Rightarrow> write_error + instant option" where
  "horizon now a = (if w_status a = S_pending
     then (case w_retry_in a of None \<Rightarrow> Inl Type_error | Some d \<Rightarrow> Inr (Some (now + secs d)))
     else Inr None)"

definition counted :: "write_args \<Rightarrow> bool" where
  "counted a \<longleftrightarrow> count_attempt a \<and> open_status (w_status a)"

definition fresh_row ::
  "instant \<Rightarrow> status \<Rightarrow> nat \<Rightarrow> nat \<Rightarrow> string \<Rightarrow> write_args \<Rightarrow> instant option \<Rightarrow> outcome_row" where
  "fresh_row now terminal i k s a hz =
     \<lparr>o_id = i, o_key = k, o_server = s, o_status = w_status a, o_detail = w_detail a,
      o_attempts = (if counted a then 1 else 0), attempted_at = Some now,
      terminal_at = (if w_status a = terminal then Some now else None), next_attempt_at = hz,
      fingerprint = (if w_status a = terminal then w_fingerprint a else None),
      o_run_id = None, previous_status = None\<rparr>"

text \<open>
  The \<open>SET\<close> of the conflict clause: the terminal columns are written by a terminal outcome
  only, a fingerprint only when one is given, and the attempts are counted, kept or reset.
\<close>

definition updated_row ::
  "instant \<Rightarrow> status \<Rightarrow> write_args \<Rightarrow> instant option \<Rightarrow> outcome_row \<Rightarrow> outcome_row" where
  "updated_row now terminal a hz r =
     r\<lparr>o_status := w_status a, o_detail := w_detail a, attempted_at := Some now,
       next_attempt_at := (if keep_next_attempt a
          then (case next_attempt_at r of None \<Rightarrow> hz | Some t \<Rightarrow> Some t) else hz),
       o_run_id := (if leave_run a then None else o_run_id r),
       previous_status := (if leave_run a then None else previous_status r),
       terminal_at := (if w_status a = terminal then Some now else terminal_at r),
       fingerprint := (if w_status a = terminal \<and> w_fingerprint a \<noteq> None
          then w_fingerprint a else fingerprint r),
       o_attempts := (if counted a then (if reset_attempts a then 1 else o_attempts r + 1)
          else if open_status (w_status a) \<and> \<not> reset_attempts a then o_attempts r else 0)\<rparr>"

definition upsert_outcome ::
  "status \<Rightarrow> instant \<Rightarrow> nat \<Rightarrow> string \<Rightarrow> write_args \<Rightarrow> outcome_tab \<Rightarrow>
   write_error + (outcome_tab \<times> nat)" where
  "upsert_outcome terminal now k s a t =
     (if w_status a \<notin> set STATUSES \<and> w_status a \<noteq> terminal then Inl (Value_error (w_status a))
      else case horizon now a of Inl e \<Rightarrow> Inl e
      | Inr hz \<Rightarrow> Inr
          (let t' = t\<lparr>o_next := Suc (o_next t)\<rparr>
           in case look t k s of
                None \<Rightarrow>
                  let r = fresh_row now terminal (o_next t) k s a hz
                  in (t'\<lparr>o_rows := o_rows t @ [r]\<rparr>, o_attempts r)
              | Some r \<Rightarrow>
                  if o_status r = S_absent then (t', 0)
                  else let r' = updated_row now terminal a hz r
                       in (t'\<lparr>o_rows := update_where (at_key k s) (\<lambda>_. r') (o_rows t)\<rparr>,
                           o_attempts r')))"

definition record_delivery ::
  "instant \<Rightarrow> nat \<Rightarrow> string \<Rightarrow> write_args \<Rightarrow> outcome_tab \<Rightarrow> write_error + (outcome_tab \<times> nat)" where
  "record_delivery = upsert_outcome S_uploaded"

definition record_metadata ::
  "instant \<Rightarrow> nat \<Rightarrow> string \<Rightarrow> write_args \<Rightarrow> outcome_tab \<Rightarrow> write_error + (outcome_tab \<times> nat)" where
  "record_metadata now k s a = upsert_outcome S_written now k s (a\<lparr>w_fingerprint := None\<rparr>)"

subsection \<open>rollup\<close>

definition rollup_status :: "outcome_row list \<Rightarrow> nat \<Rightarrow> status" where
  "rollup_status rs render =
     (let statuses = o_status ` {r \<in> set rs. o_key r = render}
      in if S_failed \<in> statuses then S_failed
         else if S_pending \<in> statuses then S_pending
         else if S_uploaded \<in> statuses then S_uploaded
         else S_skipped)"

fun latest :: "instant option list \<Rightarrow> instant option" where
  "latest [] = None"
| "latest (x # xs) = (case (x, latest xs) of
     (None, m) \<Rightarrow> m | (Some u, None) \<Rightarrow> Some u | (Some u, Some m) \<Rightarrow> Some (max u m))"

text \<open>A render's own columns; \<open>uploaded_at\<close> is carried forward, never blanked.\<close>

record render_cols =
  upload_status :: status
  uploaded_at :: "instant option"

definition rollup :: "outcome_tab \<Rightarrow> nat \<Rightarrow> render_cols \<Rightarrow> render_cols" where
  "rollup t render c =
     (let u = latest (map terminal_at (filter (\<lambda>r. o_key r = render) (o_rows t)))
      in c\<lparr>upload_status := rollup_status (o_rows t) render,
           uploaded_at := (if u = None then uploaded_at c else u)\<rparr>)"


subsection \<open>outcome\_warnings\<close>

fun status_word :: "status \<Rightarrow> string" where
  "status_word S_pending = ''pending''"
| "status_word S_failed = ''failed''"
| "status_word S_skipped = ''skipped''"
| "status_word S_absent = ''absent''"
| "status_word S_uploaded = ''uploaded''"
| "status_word S_written = ''written''"

text \<open>A clause is filed under its server, then its kind (empty for a miss), then its words.\<close>

type_synonym clause = "string \<times> string \<times> string"

definition row_clause :: "string \<Rightarrow> outcome_row \<Rightarrow> clause" where
  "row_clause kind r = (o_server r, kind,
     o_server r @ '': '' @ kind @ '' '' @ status_word (o_status r) @
     (case o_detail r of None \<Rightarrow> [] | Some d \<Rightarrow> if d = [] then [] else '' ('' @ d @ '')''))"

definition miss_clause :: "string \<Rightarrow> clause" where
  "miss_clause s = (s, [], s @ '': not found'')"

text \<open>The render of a delivery row: its item and its art kind.\<close>

type_synonym renders = "nat \<rightharpoonup> (nat \<times> string)"

definition owed_artwork :: "renders \<Rightarrow> outcome_tab \<Rightarrow> nat \<Rightarrow> outcome_row list" where
  "owed_artwork renders t item = filter (\<lambda>r. open_status (o_status r) \<and>
     (case renders (o_key r) of None \<Rightarrow> False
      | Some (i, art_kind) \<Rightarrow> i = item \<and> art_kind \<noteq> ''background'')) (o_rows t)"

definition owed_metadata :: "outcome_tab \<Rightarrow> nat \<Rightarrow> outcome_row list" where
  "owed_metadata t item = filter (\<lambda>r. open_status (o_status r) \<and> o_key r = item) (o_rows t)"

fun dedupe :: "string list \<Rightarrow> string list \<Rightarrow> string list" where
  "dedupe seen [] = []"
| "dedupe seen (c # cs) = (if c \<in> set seen then dedupe seen cs else c # dedupe (c # seen) cs)"

definition row_clauses ::
  "renders \<Rightarrow> outcome_tab \<Rightarrow> outcome_tab \<Rightarrow> nat \<Rightarrow> string list \<Rightarrow> clause list" where
  "row_clauses renders deliveries writes item servers =
     map (row_clause ''artwork'') (filter (\<lambda>r. o_server r \<in> set servers) (owed_artwork renders deliveries item)) @
     map (row_clause ''metadata'') (filter (\<lambda>r. o_server r \<in> set servers) (owed_metadata writes item))"

definition warning_clauses ::
  "renders \<Rightarrow> outcome_tab \<Rightarrow> outcome_tab \<Rightarrow> nat \<Rightarrow> string list \<Rightarrow> string list \<Rightarrow> string list" where
  "warning_clauses renders deliveries writes item servers misses =
     (let rows = row_clauses renders deliveries writes item servers;
          missed = remdups (filter (\<lambda>s. s \<in> set servers \<and> s \<notin> fst ` set rows) misses)
      in dedupe [] (map (snd \<circ> snd) (sort (rows @ map miss_clause missed))))"

definition outcome_warnings ::
  "renders \<Rightarrow> outcome_tab \<Rightarrow> outcome_tab \<Rightarrow> nat \<Rightarrow> string list \<Rightarrow> string list \<Rightarrow> string option" where
  "outcome_warnings renders deliveries writes item servers misses =
     (if servers = [] then None
      else case warning_clauses renders deliveries writes item servers misses of
        [] \<Rightarrow> None
      | cs \<Rightarrow> Some (join ''; '' cs))"

subsection \<open>Lemmas\<close>

lemma look_mem: "look t k s = Some r \<Longrightarrow> r \<in> set (o_rows t) \<and> o_key r = k \<and> o_server r = s"
  by (auto simp: look_def at_key_def dest!: find_Some_mem)

lemma find_update_where:
  assumes "at_key k s r'"
  shows "List.find (at_key k' s') (update_where (at_key k s) (\<lambda>_. r') rs) =
    (if k' = k \<and> s' = s \<and> List.find (at_key k s) rs \<noteq> None then Some r'
     else List.find (at_key k' s') rs)"
  using assms by (induction rs) (auto simp: at_key_def)

lemma updated_row_sel [simp]:
  "o_id (updated_row now terminal a hz r) = o_id r"
  "o_key (updated_row now terminal a hz r) = o_key r"
  "o_server (updated_row now terminal a hz r) = o_server r"
  "o_status (updated_row now terminal a hz r) = w_status a"
  by (simp_all add: updated_row_def)

lemma fresh_row_sel [simp]:
  "o_id (fresh_row now terminal i k s a hz) = i"
  "o_key (fresh_row now terminal i k s a hz) = k"
  "o_server (fresh_row now terminal i k s a hz) = s"
  "o_status (fresh_row now terminal i k s a hz) = w_status a"
  by (simp_all add: fresh_row_def)

text \<open>The table as a map from keys, and the upsert as an update of that map.\<close>

lemma upsert_look:
  assumes "upsert_outcome terminal now k s a t = Inr (t', n)"
  obtains hz where "horizon now a = Inr hz"
    and "w_status a \<in> set STATUSES \<or> w_status a = terminal"
    and "look t k s = None \<longrightarrow>
      look t' k s = Some (fresh_row now terminal (o_next t) k s a hz) \<and>
      n = (if counted a then 1 else 0)"
    and "\<forall>r. look t k s = Some r \<longrightarrow> (if o_status r = S_absent then look t' k s = Some r \<and> n = 0
      else look t' k s = Some (updated_row now terminal a hz r) \<and>
           n = o_attempts (updated_row now terminal a hz r))"
    and "\<forall>k' s'. (k', s') \<noteq> (k, s) \<longrightarrow> look t' k' s' = look t k' s'"
proof -
  obtain hz where hz: "horizon now a = Inr hz"
    and st: "w_status a \<in> set STATUSES \<or> w_status a = terminal"
    using assms by (auto simp: upsert_outcome_def split: if_splits sum.splits)
  show thesis
  proof (cases "look t k s")
    case None
    let ?r = "fresh_row now terminal (o_next t) k s a hz"
    have "o_rows t' = o_rows t @ [?r]" "n = o_attempts ?r"
      using assms hz st None by (auto simp: upsert_outcome_def Let_def split: if_splits)
    then show thesis
      using that [OF hz st] None
      by (auto simp: look_def find_append at_key_def fresh_row_def split: option.split)
  next
    case (Some r)
    note r = look_mem [OF Some]
    let ?r = "updated_row now terminal a hz r"
    have k: "at_key k s ?r" using r by (simp add: at_key_def)
    show thesis
    proof (cases "o_status r = S_absent")
      case True
      then have "o_rows t' = o_rows t" "n = 0"
        using assms hz st Some by (auto simp: upsert_outcome_def Let_def split: if_splits)
      then show thesis using that [OF hz st] Some True by (auto simp: look_def)
    next
      case False
      then have "o_rows t' = update_where (at_key k s) (\<lambda>_. ?r) (o_rows t)" "n = o_attempts ?r"
        using assms hz st Some by (auto simp: upsert_outcome_def Let_def split: if_splits)
      then show thesis
        using that [OF hz st] Some False find_update_where [OF k] by (auto simp: look_def)
    qed
  qed
qed


subsection \<open>The table invariant\<close>

definition row_ok :: "status \<Rightarrow> outcome_row \<Rightarrow> bool" where
  "row_ok terminal r \<longleftrightarrow> (o_status r \<in> set STATUSES \<or> o_status r = terminal) \<and>
     (o_status r = S_pending \<longrightarrow> next_attempt_at r \<noteq> None)"

definition wf_outcomes :: "status \<Rightarrow> outcome_tab \<Rightarrow> bool" where
  "wf_outcomes terminal t \<longleftrightarrow> distinct (map (\<lambda>r. (o_key r, o_server r)) (o_rows t)) \<and>
     (\<forall>r \<in> set (o_rows t). row_ok terminal r \<and> o_id r < o_next t)"

lemma look_None: "look t k s = None \<longleftrightarrow> (k, s) \<notin> (\<lambda>r. (o_key r, o_server r)) ` set (o_rows t)"
  by (auto simp: look_def find_None at_key_def)

lemma upsert_wf:
  assumes "wf_outcomes terminal t" and "upsert_outcome terminal now k s a t = Inr (t', n)"
  shows "wf_outcomes terminal t'"
proof -
  obtain hz where hz: "horizon now a = Inr hz"
    and st: "w_status a \<in> set STATUSES \<or> w_status a = terminal"
    using assms(2) by (auto simp: upsert_outcome_def split: if_splits sum.splits)
  have hz': "w_status a = S_pending \<longrightarrow> hz \<noteq> None"
    using hz by (auto simp: horizon_def split: option.splits)
  have ok: "row_ok terminal (fresh_row now terminal i k s a hz)"
    "row_ok terminal (updated_row now terminal a hz r)" for i r
    using st hz' by (auto simp: row_ok_def fresh_row_def updated_row_def split: option.split)
  show ?thesis
  proof (cases "look t k s")
    case None
    then have t': "t' = t\<lparr>o_next := Suc (o_next t),
        o_rows := o_rows t @ [fresh_row now terminal (o_next t) k s a hz]\<rparr>"
      using assms(2) hz st by (auto simp: upsert_outcome_def Let_def split: if_splits)
    then show ?thesis
      using assms(1) None ok(1) by (fastforce simp: wf_outcomes_def look_None)
  next
    case (Some r)
    then show ?thesis
    proof (cases "o_status r = S_absent")
      case True
      then show ?thesis
        using assms hz st Some by (auto simp: upsert_outcome_def Let_def wf_outcomes_def less_Suc_eq split: if_splits)
    next
      case False
      let ?r = "updated_row now terminal a hz r"
      have t': "t' = t\<lparr>o_next := Suc (o_next t), o_rows := update_where (at_key k s) (\<lambda>_. ?r) (o_rows t)\<rparr>"
        using assms(2) hz st Some False by (auto simp: upsert_outcome_def Let_def split: if_splits)
      note r = look_mem [OF Some]
      have "map (\<lambda>r. (o_key r, o_server r)) (update_where (at_key k s) (\<lambda>_. ?r) rs) =
          map (\<lambda>r. (o_key r, o_server r)) rs" for rs
        using r by (induction rs) (auto simp: at_key_def)
      moreover have "o_id r < o_next t" using assms(1) r by (auto simp: wf_outcomes_def)
      ultimately show ?thesis
        using assms(1) ok(2) unfolding t' wf_outcomes_def
        by (auto simp: set_update_where less_Suc_eq)
    qed
  qed
qed

subsection \<open>The contract of the two writers\<close>

type_synonym writer =
  "instant \<Rightarrow> nat \<Rightarrow> string \<Rightarrow> write_args \<Rightarrow> outcome_tab \<Rightarrow> write_error + (outcome_tab \<times> nat)"

inductive streak :: "writer \<Rightarrow> nat \<Rightarrow> string \<Rightarrow> nat \<Rightarrow> outcome_tab \<Rightarrow> outcome_tab \<Rightarrow> bool" where
  streak_0: "streak w k s 0 t t"
| streak_Suc: "streak w k s n t t1 \<Longrightarrow> counted a \<Longrightarrow> \<not> reset_attempts a \<Longrightarrow>
     w now k s a t1 = Inr (t2, m) \<Longrightarrow> streak w k s (Suc n) t t2"

locale outcome_writer =
  fixes wr :: writer and terminal :: status
  assumes keeps_wf: "wf_outcomes terminal t \<Longrightarrow> wr now k s a t = Inr (t', n) \<Longrightarrow> wf_outcomes terminal t'"
    and frame: "wr now k s a t = Inr (t', n) \<Longrightarrow> (k', s') \<noteq> (k, s) \<Longrightarrow> look t' k' s' = look t k' s'"
    and absent_kept: "wr now k s a t = Inr (t', n) \<Longrightarrow> look t k s = Some r \<Longrightarrow>
      o_status r = S_absent \<Longrightarrow> look t' k s = Some r \<and> n = 0"
    and written: "wr now k s a t = Inr (t', n) \<Longrightarrow> look t k s = Some r \<Longrightarrow> o_status r \<noteq> S_absent \<Longrightarrow>
      \<exists>r'. look t' k s = Some r' \<and> o_status r' = w_status a \<and> n = o_attempts r' \<and>
        o_attempts r' = (if counted a then (if reset_attempts a then 1 else o_attempts r + 1)
          else if open_status (w_status a) \<and> \<not> reset_attempts a then o_attempts r else 0)"
    and terminal_kept: "wr now k s a t = Inr (t', n) \<Longrightarrow> look t k s = Some r \<Longrightarrow>
      w_status a \<noteq> terminal \<Longrightarrow>
      \<exists>r'. look t' k s = Some r' \<and> terminal_at r' = terminal_at r \<and> fingerprint r' = fingerprint r"
begin

text \<open>A streak of counted troubles climbs by one each time, whatever its length.\<close>

lemma streak_attempts:
  assumes "streak w k s n t t'" and "w = wr"
    and "look t k s = Some r" "o_status r \<noteq> S_absent"
  shows "\<exists>r'. look t' k s = Some r' \<and> o_attempts r' = o_attempts r + n \<and> o_status r' \<noteq> S_absent"
  using assms
proof (induction rule: streak.induct)
  case (streak_0 w k s t)
  then show ?case by simp
next
  case (streak_Suc w k s n t t1 a now t2 m)
  then obtain r1 where r1: "look t1 k s = Some r1" "o_attempts r1 = o_attempts r + n"
      "o_status r1 \<noteq> S_absent"
    by auto
  have "wr now k s a t1 = Inr (t2, m)" using streak_Suc by simp
  from written [OF this r1(1,3)] r1(2) streak_Suc.hyps show ?case
    by (auto simp: counted_def open_status_def)
qed

text \<open>Nothing that is not terminal blanks what was last delivered, however often it happens.\<close>

lemma streak_keeps_terminal:
  assumes "streak w k s n t t'" and "w = wr" and "terminal \<noteq> S_pending" "terminal \<noteq> S_failed"
    and "look t k s = Some r"
  shows "\<exists>r'. look t' k s = Some r' \<and> terminal_at r' = terminal_at r \<and> fingerprint r' = fingerprint r"
  using assms
proof (induction rule: streak.induct)
  case (streak_0 w k s t)
  then show ?case by simp
next
  case (streak_Suc w k s n t t1 a now t2 m)
  then obtain r1 where r1: "look t1 k s = Some r1" "terminal_at r1 = terminal_at r"
      "fingerprint r1 = fingerprint r"
    by auto
  have "wr now k s a t1 = Inr (t2, m)" and "w_status a \<noteq> terminal"
    using streak_Suc by (auto simp: counted_def open_status_def)
  from terminal_kept [OF this(1) r1(1) this(2)] r1(2,3) show ?case by auto
qed

end

lemma upsert_absent:
  assumes "upsert_outcome terminal now k s a t = Inr (t', n)" "look t k s = Some r"
    and "o_status r = S_absent"
  shows "look t' k s = Some r \<and> n = 0"
  by (rule upsert_look [OF assms(1)]) (use assms(2,3) in auto)

lemma upsert_written:
  assumes "upsert_outcome terminal now k s a t = Inr (t', n)" "look t k s = Some r"
    and "o_status r \<noteq> S_absent"
  obtains hz where "look t' k s = Some (updated_row now terminal a hz r)"
    and "n = o_attempts (updated_row now terminal a hz r)"
  by (rule upsert_look [OF assms(1)]) (use assms(2,3) that in auto)

lemma upsert_frame:
  assumes "upsert_outcome terminal now k s a t = Inr (t', n)" and "(k', s') \<noteq> (k, s)"
  shows "look t' k' s' = look t k' s'"
  by (rule upsert_look [OF assms(1)]) (use assms(2) in blast)

lemma upsert_is_writer: "outcome_writer (upsert_outcome terminal) terminal"
proof
  fix t now k s a t' n r
  assume u: "upsert_outcome terminal now k s a t = Inr (t', n)"
  show "wf_outcomes terminal t \<Longrightarrow> wf_outcomes terminal t'" by (rule upsert_wf [OF _ u])
  show "(k', s') \<noteq> (k, s) \<Longrightarrow> look t' k' s' = look t k' s'" for k' s' by (rule upsert_frame [OF u])
  assume r: "look t k s = Some r"
  show "o_status r = S_absent \<Longrightarrow> look t' k s = Some r \<and> n = 0" by (rule upsert_absent [OF u r])
  show "o_status r \<noteq> S_absent \<Longrightarrow>
      \<exists>r'. look t' k s = Some r' \<and> o_status r' = w_status a \<and> n = o_attempts r' \<and>
        o_attempts r' = (if counted a then (if reset_attempts a then 1 else o_attempts r + 1)
          else if open_status (w_status a) \<and> \<not> reset_attempts a then o_attempts r else 0)"
    by (erule upsert_written [OF u r]) (simp add: updated_row_def)
  show "w_status a \<noteq> terminal \<Longrightarrow>
      \<exists>r'. look t' k s = Some r' \<and> terminal_at r' = terminal_at r \<and> fingerprint r' = fingerprint r"
    using upsert_absent [OF u r]
    by (cases "o_status r = S_absent", simp, elim upsert_written [OF u r]) (simp add: updated_row_def)
qed

interpretation delivery: outcome_writer record_delivery S_uploaded
  unfolding record_delivery_def by (rule upsert_is_writer)

text \<open>A writer stays one when an argument none of the laws reads is changed.\<close>

lemma writer_reindex:
  assumes w: "outcome_writer w terminal"
    and f: "\<And>a. w_status (f a) = w_status a" "\<And>a. counted (f a) = counted a"
      "\<And>a. reset_attempts (f a) = reset_attempts a"
  shows "outcome_writer (\<lambda>now k s a. w now k s (f a)) terminal"
proof
  fix t now k s a t' n r
  assume u: "w now k s (f a) t = Inr (t', n)"
  show "wf_outcomes terminal t \<Longrightarrow> wf_outcomes terminal t'"
    using outcome_writer.keeps_wf [OF w _ u] .
  show "(k', s') \<noteq> (k, s) \<Longrightarrow> look t' k' s' = look t k' s'" for k' s'
    using outcome_writer.frame [OF w u] .
  assume r: "look t k s = Some r"
  show "o_status r = S_absent \<Longrightarrow> look t' k s = Some r \<and> n = 0"
    using outcome_writer.absent_kept [OF w u r] .
  show "o_status r \<noteq> S_absent \<Longrightarrow>
      \<exists>r'. look t' k s = Some r' \<and> o_status r' = w_status a \<and> n = o_attempts r' \<and>
        o_attempts r' = (if counted a then (if reset_attempts a then 1 else o_attempts r + 1)
          else if open_status (w_status a) \<and> \<not> reset_attempts a then o_attempts r else 0)"
    using outcome_writer.written [OF w u r] unfolding f .
  show "w_status a \<noteq> terminal \<Longrightarrow>
      \<exists>r'. look t' k s = Some r' \<and> terminal_at r' = terminal_at r \<and> fingerprint r' = fingerprint r"
    using outcome_writer.terminal_kept [OF w u r] unfolding f .
qed

interpretation metadata: outcome_writer record_metadata S_written
  unfolding record_metadata_def
  by (rule writer_reindex [OF upsert_is_writer]) (simp_all add: counted_def)

end
