(* ===== verification/Outcome_Props.thy ===== *)
theory Outcome_Props
  imports Outcomes
begin

text \<open>The properties of the outcome tables, of the roll-up and of the warning sentence.\<close>

subsection \<open>The tables\<close>

definition fresh_delivery :: outcome_tab where
  "fresh_delivery = \<lparr>o_rows = [\<lparr>o_id = 1, o_key = 3, o_server = ''jellyfin'', o_status = S_uploaded,
     o_detail = None, o_attempts = 0, attempted_at = Some 4, terminal_at = Some 4,
     next_attempt_at = None, fingerprint = Some ''abc'', o_run_id = None, previous_status = None\<rparr>],
     o_next = 2\<rparr>"

lemma fresh_delivery_row:
  "look fresh_delivery 3 ''jellyfin'' = Some (hd (o_rows fresh_delivery))"
  by (simp add: look_def fresh_delivery_def at_key_def)

text \<open>
  C10: a row that says the server does not carry the item's library is never written over,
  by either table's writer, whatever the outcome and the flags; the budget answer is zero.
\<close>

theorem absent_is_final:
  assumes "look t k s = Some r" and "o_status r = S_absent"
  shows "(record_delivery now k s a t = Inr (t', n) \<longrightarrow> look t' k s = Some r \<and> n = 0) \<and>
    (record_metadata now k s a t = Inr (t', n) \<longrightarrow> look t' k s = Some r \<and> n = 0)"
  using delivery.absent_kept [OF _ assms] metadata.absent_kept [OF _ assms] by blast

theorem absent_is_final_witness:
  "\<exists>t' n. record_delivery 9 3 ''plex'' (args S_uploaded)
     \<lparr>o_rows = [fresh_row 4 S_uploaded 1 3 ''plex'' (args S_absent) None], o_next = 2\<rparr> = Inr (t', n) \<and> n = 0"
proof -
  let ?r = "fresh_row 4 S_uploaded 1 3 ''plex'' (args S_absent) None"
  let ?t = "\<lparr>o_rows = [?r], o_next = 2\<rparr>"
  have r: "look ?t 3 ''plex'' = Some ?r" "o_status ?r = S_absent"
    by (simp_all add: look_def at_key_def fresh_row_def args_def)
  have "\<exists>t' n. record_delivery 9 3 ''plex'' (args S_uploaded) ?t = Inr (t', n)"
    by (simp add: record_delivery_def upsert_outcome_def horizon_def args_def)
  with absent_is_final [OF r] show ?thesis by blast
qed

text \<open>
  A streak of counted troubles, of any length, raises the row's attempts by exactly its
  length and leaves what was last delivered in place: the upload time and the fingerprint
  of the bytes this server holds.
\<close>

theorem streak_counts_and_keeps:
  assumes "streak record_delivery k s n t t'" and "look t k s = Some r" and "o_status r \<noteq> S_absent"
  shows "\<exists>r'. look t' k s = Some r' \<and> o_attempts r' = o_attempts r + n \<and>
    terminal_at r' = terminal_at r \<and> fingerprint r' = fingerprint r"
  using delivery.streak_attempts [OF assms(1) refl assms(2,3)]
    delivery.streak_keeps_terminal [OF assms(1) refl _ _ assms(2)] by auto

theorem streak_counts_and_keeps_witness:
  "\<exists>t' r'. look t' 3 ''jellyfin'' = Some r' \<and> o_attempts r' = 1 \<and> terminal_at r' = Some 4 \<and>
     fingerprint r' = Some ''abc''"
proof -
  have "\<exists>t' m. record_delivery 9 3 ''jellyfin'' (args S_failed) fresh_delivery = Inr (t', m)"
    by (simp add: record_delivery_def upsert_outcome_def horizon_def args_def STATUSES_def)
  then obtain t' m where w: "record_delivery 9 3 ''jellyfin'' (args S_failed) fresh_delivery = Inr (t', m)"
    by blast
  have "streak record_delivery 3 ''jellyfin'' 1 fresh_delivery t'"
    unfolding One_nat_def
    by (rule streak_Suc [where w = record_delivery and now = 9 and a = "args S_failed", OF streak_0 _ _ w])
      (simp_all add: counted_def args_def open_status_def)
  from streak_counts_and_keeps [OF this fresh_delivery_row] show ?thesis
    by (auto simp: fresh_delivery_def)
qed

text \<open>
  Both writers keep their table well formed (one row per key and server, every status a
  word of that table's vocabulary, every pending row with a time to be retried at) and each
  refuses the other's terminal word and a pending outcome without a horizon.
\<close>

theorem outcome_tables_well_formed:
  "(wf_outcomes S_uploaded t \<and> record_delivery now k s a t = Inr (t', n) \<longrightarrow> wf_outcomes S_uploaded t') \<and>
   (wf_outcomes S_written t \<and> record_metadata now k s a t = Inr (t', n) \<longrightarrow> wf_outcomes S_written t') \<and>
   (w_status a = S_written \<longrightarrow> record_delivery now k s a t = Inl (Value_error S_written)) \<and>
   (w_status a = S_uploaded \<longrightarrow> record_metadata now k s a t = Inl (Value_error S_uploaded)) \<and>
   (w_status a = S_pending \<and> w_retry_in a = None \<longrightarrow> record_delivery now k s a t = Inl Type_error)"
proof (intro conjI impI; (elim conjE)?)
  show "wf_outcomes S_uploaded t'"
    if "wf_outcomes S_uploaded t" "record_delivery now k s a t = Inr (t', n)"
    by (rule delivery.keeps_wf [OF that])
  show "wf_outcomes S_written t'"
    if "wf_outcomes S_written t" "record_metadata now k s a t = Inr (t', n)"
    by (rule metadata.keeps_wf [OF that])
qed (simp_all add: record_delivery_def record_metadata_def upsert_outcome_def STATUSES_def horizon_def)

lemma wf_fresh_delivery: "wf_outcomes S_uploaded fresh_delivery"
  by (simp add: wf_outcomes_def fresh_delivery_def row_ok_def)

theorem outcome_tables_well_formed_witness:
  "record_delivery 9 3 ''jellyfin'' (args S_written) fresh_delivery = Inl (Value_error S_written) \<and>
   record_delivery 9 3 ''jellyfin'' (args S_pending) fresh_delivery = Inl Type_error"
  using outcome_tables_well_formed [of fresh_delivery 9 3 "''jellyfin''" "args S_written"]
    outcome_tables_well_formed [of fresh_delivery 9 3 "''jellyfin''" "args S_pending"]
  by (simp add: args_def)

subsection \<open>The roll-up\<close>

lemma latest_None: "latest xs = None \<longleftrightarrow> (\<forall>x \<in> set xs. x = None)"
  by (induction xs) (auto split: option.splits)

lemma latest_Some: "latest xs = Some m \<Longrightarrow> Some m \<in> set xs \<and> (\<forall>u. Some u \<in> set xs \<longrightarrow> u \<le> m)"
proof (induction xs arbitrary: m)
  case Nil
  then show ?case by simp
next
  case (Cons x xs)
  show ?case
  proof (cases "latest xs")
    case None
    then show ?thesis using Cons.prems latest_None [of xs] by (auto split: option.splits)
  next
    case (Some b)
    show ?thesis
      using Cons.prems Cons.IH [OF Some] Some
      by (auto split: option.splits simp: max_def)
  qed
qed

text \<open>
  The roll-up is failed exactly when some server failed; pending exactly when none
  failed and some is pending; uploaded exactly when some server has it and none is owed it;
  a server that does not carry the library never changes it; and the delivery time only
  moves to the latest one any server reports, never back to nothing.
\<close>

theorem rollup_precedence:
  fixes t :: outcome_tab and k :: nat and c :: render_cols
  defines "mine \<equiv> {r \<in> set (o_rows t). o_key r = k}"
  shows "(upload_status (rollup t k c) = S_failed \<longleftrightarrow> (\<exists>r \<in> mine. o_status r = S_failed)) \<and>
    (upload_status (rollup t k c) = S_pending \<longleftrightarrow>
       (\<exists>r \<in> mine. o_status r = S_pending) \<and> (\<forall>r \<in> mine. o_status r \<noteq> S_failed)) \<and>
    (upload_status (rollup t k c) = S_uploaded \<longleftrightarrow>
       (\<exists>r \<in> mine. o_status r = S_uploaded) \<and> (\<forall>r \<in> mine. \<not> open_status (o_status r))) \<and>
    rollup_status (filter (\<lambda>r. o_status r \<noteq> S_absent) (o_rows t)) k = rollup_status (o_rows t) k \<and>
    (uploaded_at c \<noteq> None \<longrightarrow> uploaded_at (rollup t k c) \<noteq> None) \<and>
    (\<forall>r \<in> mine. \<forall>u. terminal_at r = Some u \<longrightarrow>
       (\<exists>v. uploaded_at (rollup t k c) = Some v \<and> u \<le> v))"
proof -
  have st: "upload_status (rollup t k c) = rollup_status (o_rows t) k"
    by (simp add: rollup_def Let_def)
  have "o_status ` {r \<in> set (filter (\<lambda>r. o_status r \<noteq> S_absent) (o_rows t)). o_key r = k} =
      o_status ` {r \<in> set (o_rows t). o_key r = k} - {S_absent}"
    by auto
  then have absent: "rollup_status (filter (\<lambda>r. o_status r \<noteq> S_absent) (o_rows t)) k =
      rollup_status (o_rows t) k"
    by (simp add: rollup_status_def Let_def)
  let ?us = "map terminal_at (filter (\<lambda>r. o_key r = k) (o_rows t))"
  have time: "\<exists>v. uploaded_at (rollup t k c) = Some v \<and> u \<le> v"
    if "r \<in> mine" "terminal_at r = Some u" for r u
  proof -
    have mem: "Some u \<in> set ?us" using that by (force simp: mine_def image_iff)
    then obtain v where v: "latest ?us = Some v" using latest_None [of ?us] by fastforce
    with latest_Some [OF v] mem show ?thesis by (auto simp: rollup_def Let_def)
  qed
  have kept: "uploaded_at c \<noteq> None \<longrightarrow> uploaded_at (rollup t k c) \<noteq> None"
    by (simp add: rollup_def Let_def)
  show ?thesis
    using absent time kept
    by (intro conjI) (auto simp: st rollup_status_def Let_def mine_def open_status_def image_iff
        split: if_splits)
qed

theorem rollup_precedence_witness:
  "upload_status (rollup fresh_delivery 3 \<lparr>upload_status = S_pending, uploaded_at = None\<rparr>) = S_uploaded \<and>
   uploaded_at (rollup fresh_delivery 3 \<lparr>upload_status = S_pending, uploaded_at = None\<rparr>) = Some 4"
  using rollup_precedence [of fresh_delivery 3 "\<lparr>upload_status = S_pending, uploaded_at = None\<rparr>"]
  by (simp add: fresh_delivery_def open_status_def rollup_def Let_def)

subsection \<open>The warning sentence\<close>

lemma set_dedupe: "set (dedupe seen cs) = set cs - set seen"
  by (induction seen cs rule: dedupe.induct) auto

lemma distinct_dedupe: "distinct (dedupe seen cs)"
  by (induction seen cs rule: dedupe.induct) (auto simp: set_dedupe)

lemma set_warning_clauses:
  "set (warning_clauses renders deliveries writes item servers misses) =
     (snd \<circ> snd) ` (set (row_clauses renders deliveries writes item servers) \<union>
       miss_clause ` {s \<in> set misses. s \<in> set servers \<and>
         s \<notin> fst ` set (row_clauses renders deliveries writes item servers)})"
  by (auto simp: warning_clauses_def Let_def set_dedupe)

text \<open>
  The job's warning names exactly what is still owed: there is none exactly when no
  server this pass touched has a pending or failed row for the item (backgrounds aside) and
  none was missed; and each clause is said once.
\<close>

theorem warnings_name_what_is_owed:
  "(outcome_warnings renders deliveries writes item servers misses = None \<longleftrightarrow>
     (\<forall>r \<in> set (owed_artwork renders deliveries item). o_server r \<notin> set servers) \<and>
     (\<forall>r \<in> set (owed_metadata writes item). o_server r \<notin> set servers) \<and>
     set misses \<inter> set servers = {}) \<and>
   distinct (warning_clauses renders deliveries writes item servers misses) \<and>
   (\<forall>r \<in> set (owed_metadata writes item). o_server r \<in> set servers \<longrightarrow>
     snd (snd (row_clause ''metadata'' r)) \<in>
       set (warning_clauses renders deliveries writes item servers misses)) \<and>
   (\<forall>r \<in> set (owed_artwork renders deliveries item). o_server r \<in> set servers \<longrightarrow>
     snd (snd (row_clause ''artwork'' r)) \<in>
       set (warning_clauses renders deliveries writes item servers misses))"
proof -
  let ?w = "warning_clauses renders deliveries writes item servers misses"
  have none: "outcome_warnings renders deliveries writes item servers misses = None \<longleftrightarrow>
      servers = [] \<or> set ?w = {}"
    by (auto simp: outcome_warnings_def split: list.split)
  have rows: "set (row_clauses renders deliveries writes item servers) =
      row_clause ''artwork'' ` {r \<in> set (owed_artwork renders deliveries item). o_server r \<in> set servers} \<union>
      row_clause ''metadata'' ` {r \<in> set (owed_metadata writes item). o_server r \<in> set servers}"
    by (simp add: row_clauses_def)
  have "set ?w = {} \<longleftrightarrow> set (row_clauses renders deliveries writes item servers) = {} \<and>
      set misses \<inter> set servers = {}"
    unfolding set_warning_clauses by auto
  then show ?thesis
    unfolding none using set_warning_clauses [of renders deliveries writes item servers misses]
    by (auto simp: rows warning_clauses_def Let_def distinct_dedupe)
qed

theorem warnings_name_what_is_owed_witness:
  "outcome_warnings (\<lambda>_. Some (8, ''poster'')) fresh_delivery \<lparr>o_rows = [], o_next = 1\<rparr> 8
     [''jellyfin''] [] = None"
  using warnings_name_what_is_owed
    [of "\<lambda>_. Some (8, ''poster'')" fresh_delivery "\<lparr>o_rows = [], o_next = 1\<rparr>" 8 "[''jellyfin'']" "[]"]
  by (simp add: owed_artwork_def owed_metadata_def fresh_delivery_def open_status_def)

end
