(* ===== verification/Retry.thy ===== *)
theory Retry
  imports Outcome_Props
begin

text \<open>
  The retry pass over both outcome tables (\<open>retry_pending_deliveries\<close> of \<open>deliveries.py\<close>):
  which rows are due, what becomes of each, the counters and the summary. What the media
  servers, the compositor and the database answer while a row is processed is a parameter,
  one record per row.
\<close>

subsection \<open>Due rows\<close>

definition in_scope :: "string option \<Rightarrow> nat option \<Rightarrow> outcome_row \<Rightarrow> bool" where
  "in_scope server run_id r \<longleftrightarrow> (server = None \<or> server = Some (o_server r)) \<and> o_run_id r = run_id"

definition is_due :: "instant \<Rightarrow> string option \<Rightarrow> nat option \<Rightarrow> outcome_row \<Rightarrow> bool" where
  "is_due now server run_id r \<longleftrightarrow> o_status r = S_pending \<and>
     (case next_attempt_at r of None \<Rightarrow> False | Some t \<Rightarrow> t \<le> now) \<and> in_scope server run_id r"

definition PASS_LIMIT :: nat where
  "PASS_LIMIT = 500"

definition due_rows :: "instant \<Rightarrow> string option \<Rightarrow> nat option \<Rightarrow> outcome_tab \<Rightarrow> outcome_row list" where
  "due_rows now server run_id t = take PASS_LIMIT
     (sort_key (\<lambda>r. (the (next_attempt_at r), o_id r))
       (filter (is_due now server run_id) (o_rows t)))"

subsection \<open>Counters\<close>

datatype word = W_due | W_uploaded | W_written | W_pending | W_failed | W_skipped

record counts =
  c_due :: nat
  c_uploaded :: nat
  c_written :: nat
  c_pending :: nat
  c_failed :: nat
  c_skipped :: nat

definition no_counts :: counts where
  "no_counts = \<lparr>c_due = 0, c_uploaded = 0, c_written = 0, c_pending = 0, c_failed = 0, c_skipped = 0\<rparr>"

fun bump :: "word \<Rightarrow> counts \<Rightarrow> counts" where
  "bump W_due c = c\<lparr>c_due := c_due c + 1\<rparr>"
| "bump W_uploaded c = c\<lparr>c_uploaded := c_uploaded c + 1\<rparr>"
| "bump W_written c = c\<lparr>c_written := c_written c + 1\<rparr>"
| "bump W_pending c = c\<lparr>c_pending := c_pending c + 1\<rparr>"
| "bump W_failed c = c\<lparr>c_failed := c_failed c + 1\<rparr>"
| "bump W_skipped c = c\<lparr>c_skipped := c_skipped c + 1\<rparr>"

text \<open>\<open>per_server\<close> is a dict in insertion order; \<open>setdefault\<close> adds a zeroed entry.\<close>

fun tally_server :: "string \<Rightarrow> word \<Rightarrow> (string \<times> counts) list \<Rightarrow> (string \<times> counts) list" where
  "tally_server name w [] = [(name, bump w no_counts)]"
| "tally_server name w ((n, c) # ps) =
     (if n = name then (n, bump w c) # ps else (n, c) # tally_server name w ps)"

text \<open>
  The pass's counters. Every \<open>still_pending += 1\<close>, \<open>uploaded += 1\<close> and \<open>written += 1\<close> of the
  code stands beside the tally of the same word.
\<close>

record counters =
  n_uploaded :: nat
  n_written :: nat
  still_pending :: nat
  per_server :: "(string \<times> counts) list"

definition tally :: "string \<Rightarrow> word \<Rightarrow> counters \<Rightarrow> counters" where
  "tally name w c = c\<lparr>per_server := tally_server name w (per_server c),
     n_uploaded := n_uploaded c + (if w = W_uploaded then 1 else 0),
     n_written := n_written c + (if w = W_written then 1 else 0),
     still_pending := still_pending c + (if w = W_pending then 1 else 0)\<rparr>"

subsection \<open>One artwork row\<close>

datatype resolve_result =
    Resolved | Mismatch failure | Missing failure | Unreachable failure

record art_env =
  e_server_known :: bool
  e_upload_on :: bool
  e_refs :: "bool option"
  e_resolve :: resolve_result
  e_ref_saved :: bool
  e_plex_known :: bool
  e_identity :: resolve_result
  e_compose :: "bool \<Rightarrow> failure + string option option"
  e_upload :: "failure option"
  e_rollup_ok :: bool
  e_commit_ok :: bool

record store =
  dtab :: outcome_tab
  cols :: "nat \<Rightarrow> render_cols"

text \<open>
  What the row's savepoint block did: the store it left, the words tallied, and whether an
  exception left the block (a statement that failed aborts the transaction, so whatever
  follows it in the block fails as well).
\<close>

type_synonym row_result = "store \<times> word list \<times> bool"

definition settle_as :: "art_env \<Rightarrow> nat \<Rightarrow> word \<Rightarrow> store \<Rightarrow> row_result" where
  "settle_as env k w st =
     (if e_rollup_ok env
      then (st\<lparr>cols := (cols st)(k := rollup (dtab st) k (cols st k))\<rparr>, [w], False)
      else (st, [w], True))"

definition put_row ::
  "instant \<Rightarrow> nat \<Rightarrow> string \<Rightarrow> write_args \<Rightarrow> store \<Rightarrow> (store \<Rightarrow> nat \<Rightarrow> row_result) \<Rightarrow> row_result" where
  "put_row now k s a st cont = (case record_delivery now k s a (dtab st) of
       Inl _ \<Rightarrow> (st, [], True)
     | Inr (t', n) \<Rightarrow> cont (st\<lparr>dtab := t'\<rparr>) n)"

definition failed_with :: "failure \<Rightarrow> write_args" where
  "failed_with f = (args S_failed)\<lparr>w_detail := Some (failure_detail f)\<rparr>"

definition pending_with :: "failure option \<Rightarrow> bool \<Rightarrow> write_args" where
  "pending_with f count = (args S_pending)\<lparr>w_detail := map_option failure_detail f,
     w_retry_in := Some RETRY_SECONDS, count_attempt := count\<rparr>"

text \<open>Compositing and the upload, with the identity server's item or without one.\<close>

definition deliver_row :: "instant \<Rightarrow> art_env \<Rightarrow> nat \<Rightarrow> string \<Rightarrow> bool \<Rightarrow> store \<Rightarrow> row_result" where
  "deliver_row now env k s with_identity st = (case e_compose env with_identity of
       Inl f \<Rightarrow> put_row now k s (failed_with f) st (\<lambda>st' _. settle_as env k W_failed st')
     | Inr None \<Rightarrow> put_row now k s (args S_skipped) st (\<lambda>st' _. settle_as env k W_skipped st')
     | Inr (Some fp) \<Rightarrow>
         (case e_upload env of
            Some f \<Rightarrow> put_row now k s (failed_with f) st (\<lambda>st' _. settle_as env k W_failed st')
          | None \<Rightarrow> put_row now k s ((args S_uploaded)\<lparr>w_fingerprint := fp\<rparr>) st
              (\<lambda>st' _. settle_as env k W_uploaded st')))"

text \<open>Sampling the identity server (Plex, when the item has a ref there and it is configured).\<close>

definition identity_phase ::
  "instant \<Rightarrow> nat \<Rightarrow> art_env \<Rightarrow> nat \<Rightarrow> string \<Rightarrow> bool \<Rightarrow> store \<Rightarrow> row_result" where
  "identity_phase now max_attempts env k s plex_ref st =
     (if \<not> (plex_ref \<and> e_plex_known env) then deliver_row now env k s False st
      else if s = ''plex'' then deliver_row now env k s True st
      else case e_identity env of
          Mismatch f \<Rightarrow> put_row now k s (failed_with f) st (\<lambda>st' _. settle_as env k W_failed st')
        | Missing f \<Rightarrow> put_row now k s (pending_with (Some f) True) st (\<lambda>st' attempts.
            if attempts < max_attempts then settle_as env k W_pending st'
            else deliver_row now env k s False st')
        | Unreachable f \<Rightarrow> put_row now k s (pending_with (Some f) False) st
            (\<lambda>st' _. settle_as env k W_pending st')
        | Resolved \<Rightarrow> deliver_row now env k s True st)"

definition retry_delivery ::
  "instant \<Rightarrow> nat \<Rightarrow> art_env \<Rightarrow> nat \<Rightarrow> string \<Rightarrow> store \<Rightarrow> row_result" where
  "retry_delivery now max_attempts env k s st =
     (if \<not> e_server_known env
      then put_row now k s ((args S_failed)\<lparr>w_detail := Some ''config: server removed''\<rparr>) st
        (\<lambda>st' _. settle_as env k W_failed st')
      else if \<not> e_upload_on env
      then put_row now k s ((args S_skipped)\<lparr>w_detail :=
          Some (''config: badges.upload_to_'' @ s @ '' is off'')\<rparr>) st
        (\<lambda>st' _. settle_as env k W_skipped st')
      else case e_refs env of
        None \<Rightarrow> (st, [], True)
      | Some plex_ref \<Rightarrow>
          (case e_resolve env of
             Mismatch f \<Rightarrow> put_row now k s (failed_with f) st (\<lambda>st' _. settle_as env k W_failed st')
           | Missing _ \<Rightarrow> put_row now k s (pending_with None False) st
               (\<lambda>st' _. settle_as env k W_pending st')
           | Unreachable f \<Rightarrow> put_row now k s (pending_with (Some f) True) st (\<lambda>st' attempts.
               if attempts \<ge> max_attempts
               then put_row now k s (failed_with f) st' (\<lambda>st'' _. settle_as env k W_failed st'')
               else settle_as env k W_pending st')
           | Resolved \<Rightarrow>
               if e_ref_saved env then identity_phase now max_attempts env k s plex_ref st
               else (st, [], True)))"

subsection \<open>The row's savepoint and commit\<close>

text \<open>
  The savepoint takes a raised exception back to the store before the row and the row is
  counted pending; a commit that fails does the same to the counters, and counts it so.
\<close>

definition process_row ::
  "(store \<Rightarrow> row_result) \<Rightarrow> bool \<Rightarrow> string \<Rightarrow> store \<times> counters \<Rightarrow> store \<times> counters" where
  "process_row body commit_ok s acc =
     (let (st, before) = acc;
          (st', ws, raised) = body st;
          words = W_due # ws @ (if raised then [W_pending] else []);
          st'' = (if raised then st else st')
      in if commit_ok then (st'', foldl (\<lambda>c w. tally s w c) before words)
         else (st, tally s W_pending (tally s W_due before)))"

definition artwork_pass ::
  "instant \<Rightarrow> nat \<Rightarrow> (outcome_row \<Rightarrow> art_env) \<Rightarrow> outcome_row list \<Rightarrow> store \<times> counters \<Rightarrow>
   store \<times> counters" where
  "artwork_pass now max_attempts envs due acc =
     foldl (\<lambda>acc r. process_row (retry_delivery now max_attempts (envs r) (o_key r) (o_server r))
       (e_commit_ok (envs r)) (o_server r) acc) acc due"

subsection \<open>One metadata row\<close>

datatype apply_result =
    Wiring_bug | Exempt string | Apply_failed failure | Applied

record meta_env =
  m_server_known :: bool
  m_operations_on :: bool
  m_write_on :: bool
  m_refs_ok :: bool
  m_resolve :: resolve_result
  m_saved :: bool
  m_apply :: apply_result
  m_commit_ok :: bool

type_synonym meta_result = "outcome_tab \<times> word list \<times> bool"

definition put_meta ::
  "instant \<Rightarrow> nat \<Rightarrow> string \<Rightarrow> write_args \<Rightarrow> outcome_tab \<Rightarrow> (outcome_tab \<Rightarrow> nat \<Rightarrow> meta_result) \<Rightarrow> meta_result" where
  "put_meta now k s a t cont = (case record_metadata now k s a t of
       Inl _ \<Rightarrow> (t, [], True)
     | Inr (t', n) \<Rightarrow> cont t' n)"

text \<open>A trouble that counts: pending, or failed once the budget is spent.\<close>

definition meta_trouble ::
  "instant \<Rightarrow> nat \<Rightarrow> nat \<Rightarrow> string \<Rightarrow> failure \<Rightarrow> outcome_tab \<Rightarrow> meta_result" where
  "meta_trouble now max_attempts k s f t =
     put_meta now k s (pending_with (Some f) True) t (\<lambda>t' attempts.
       if attempts \<ge> max_attempts
       then put_meta now k s (failed_with f) t' (\<lambda>t'' _. (t'', [W_failed], False))
       else (t', [W_pending], False))"

definition retry_metadata ::
  "instant \<Rightarrow> nat \<Rightarrow> meta_env \<Rightarrow> nat \<Rightarrow> string \<Rightarrow> outcome_tab \<Rightarrow> meta_result" where
  "retry_metadata now max_attempts env k s t =
     (if \<not> m_server_known env
      then put_meta now k s ((args S_failed)\<lparr>w_detail := Some ''config: server removed''\<rparr>) t
        (\<lambda>t' _. (t', [W_failed], False))
      else if \<not> m_operations_on env
      then put_meta now k s ((args S_skipped)\<lparr>w_detail := Some ''config: operations.enabled is off''\<rparr>) t
        (\<lambda>t' _. (t', [W_skipped], False))
      else if \<not> m_write_on env
      then put_meta now k s ((args S_skipped)\<lparr>w_detail :=
          Some (''config: operations.write_to_'' @ s @ '' is off'')\<rparr>) t
        (\<lambda>t' _. (t', [W_skipped], False))
      else if \<not> m_refs_ok env then (t, [], True)
      else case m_resolve env of
          Mismatch f \<Rightarrow> put_meta now k s (failed_with f) t (\<lambda>t' _. (t', [W_failed], False))
        | Missing _ \<Rightarrow> put_meta now k s (pending_with None False) t (\<lambda>t' _. (t', [W_pending], False))
        | Unreachable f \<Rightarrow> meta_trouble now max_attempts k s f t
        | Resolved \<Rightarrow>
            if \<not> m_saved env then (t, [], True)
            else (case m_apply env of
                Wiring_bug \<Rightarrow> (t, [], True)
              | Exempt why \<Rightarrow> put_meta now k s ((args S_skipped)\<lparr>w_detail := Some why\<rparr>) t
                  (\<lambda>t' _. (t', [W_skipped], False))
              | Apply_failed f \<Rightarrow> meta_trouble now max_attempts k s f t
              | Applied \<Rightarrow> put_meta now k s (args S_written) t (\<lambda>t' _. (t', [W_written], False))))"

definition process_meta ::
  "(outcome_tab \<Rightarrow> meta_result) \<Rightarrow> bool \<Rightarrow> string \<Rightarrow> outcome_tab \<times> counters \<Rightarrow> outcome_tab \<times> counters" where
  "process_meta body commit_ok s acc =
     (let (t, before) = acc;
          (t', ws, raised) = body t;
          words = W_due # ws @ (if raised then [W_pending] else []);
          t'' = (if raised then t else t')
      in if commit_ok then (t'', foldl (\<lambda>c w. tally s w c) before words)
         else (t, tally s W_pending (tally s W_due before)))"

definition metadata_pass ::
  "instant \<Rightarrow> nat \<Rightarrow> (outcome_row \<Rightarrow> meta_env) \<Rightarrow> outcome_row list \<Rightarrow> outcome_tab \<times> counters \<Rightarrow>
   outcome_tab \<times> counters" where
  "metadata_pass now max_attempts envs due acc =
     foldl (\<lambda>acc r. process_meta (retry_metadata now max_attempts (envs r) (o_key r) (o_server r))
       (m_commit_ok (envs r)) (o_server r) acc) acc due"

subsection \<open>The whole pass\<close>

definition retry_pending_deliveries ::
  "instant \<Rightarrow> nat \<Rightarrow> string option \<Rightarrow> nat option \<Rightarrow> (outcome_row \<Rightarrow> art_env) \<Rightarrow>
   (outcome_row \<Rightarrow> meta_env) \<Rightarrow> store \<Rightarrow> outcome_tab \<Rightarrow> store \<times> outcome_tab \<times> counters" where
  "retry_pending_deliveries now max_attempts server run_id art meta st writes =
     (let due = due_rows now server run_id (dtab st);
          metadata_due = due_rows now server run_id writes;
          c0 = \<lparr>n_uploaded = 0, n_written = 0, still_pending = 0, per_server = []\<rparr>;
          (st', c1) = artwork_pass now max_attempts art due (st, c0);
          (writes', c2) = metadata_pass now max_attempts meta metadata_due (writes, c1)
      in (st', writes', c2))"

subsection \<open>The sentence the pass returns\<close>

definition server_clause :: "string \<times> counts \<Rightarrow> string" where
  "server_clause p = (case p of (name, c) \<Rightarrow>
     name @ '': '' @ nat_digits (c_due c) @ '' due, '' @ nat_digits (c_uploaded c) @ '' uploaded, '' @
     nat_digits (c_written c) @ '' written, '' @ nat_digits (c_pending c) @ '' pending, '' @
     nat_digits (c_failed c) @ '' failed, '' @ nat_digits (c_skipped c) @ '' skipped'')"

definition summary :: "nat \<Rightarrow> counters \<Rightarrow> string" where
  "summary due c =
     ''pending deliveries: '' @ nat_digits due @ '' due, '' @
     nat_digits (n_uploaded c + n_written c) @ '' done, '' @
     nat_digits (still_pending c) @ '' still pending, '' @
     nat_digits (sum_list (map (c_failed \<circ> snd) (per_server c))) @ '' failed, '' @
     nat_digits (sum_list (map (c_skipped \<circ> snd) (per_server c))) @ '' skipped'' @
     (if per_server c = [] then []
      else ''; '' @ join ''; '' (map server_clause (sort_key fst (per_server c))))"

end
