(* ===== verification/Retry_Props.thy ===== *)
theory Retry_Props
  imports Retry
begin

text \<open>The properties of the retry pass: its order, its scope, its counters and its budget.\<close>

subsection \<open>What is due\<close>

text \<open>
  A pass takes only pending rows whose time has come and that are in its scope (its
  server, its catch-up run, and without a run only the rows no run armed), at most five
  hundred of them, earliest first and by id among equals; and a row it leaves behind is never
  earlier than one it takes.
\<close>

theorem due_rows_ordered:
  assumes "due = due_rows now server run_id t"
  shows "set due \<subseteq> {r \<in> set (o_rows t). is_due now server run_id r} \<and> length due \<le> 500 \<and>
    sorted (map (\<lambda>r. (the (next_attempt_at r), o_id r)) due) \<and>
    (\<forall>r \<in> set due. o_run_id r = run_id) \<and>
    (\<forall>r \<in> set (o_rows t). is_due now server run_id r \<and> r \<notin> set due \<longrightarrow> length due = 500 \<and>
       (\<forall>q \<in> set due. (the (next_attempt_at q), o_id q) \<le> (the (next_attempt_at r), o_id r)))"
proof -
  let ?key = "\<lambda>r. (the (next_attempt_at r), o_id r)"
  let ?all = "sort_key ?key (filter (is_due now server run_id) (o_rows t))"
  have due: "due = take PASS_LIMIT ?all" using assms by (simp add: due_rows_def)
  have all: "set ?all = {r \<in> set (o_rows t). is_due now server run_id r}" by auto
  have split: "?all = due @ drop PASS_LIMIT ?all" by (simp add: due)
  have sorted: "sorted (map ?key (due @ drop PASS_LIMIT ?all))" by (simp flip: split)
  have sub: "set due \<subseteq> set ?all" using split by (metis Un_upper1 set_append)
  have rest: "length due = 500 \<and> (\<forall>q \<in> set due. ?key q \<le> ?key r)"
    if "r \<in> set ?all" "r \<notin> set due" for r
  proof -
    have r: "r \<in> set (drop PASS_LIMIT ?all)"
      using that split by (metis UnE set_append)
    then have "PASS_LIMIT < length ?all" by (metis drop_all empty_iff list.set(1) not_less)
    then have "length due = 500" by (simp add: due PASS_LIMIT_def)
    with r sorted show ?thesis by (auto simp: sorted_append)
  qed
  have "length due \<le> 500" by (simp add: due PASS_LIMIT_def)
  moreover have "sorted (map ?key due)" using sorted by (simp add: sorted_append)
  moreover have "\<forall>r \<in> set due. o_run_id r = run_id"
    using sub by (auto simp: is_due_def in_scope_def)
  ultimately show ?thesis using sub rest unfolding all by blast
qed

definition owed_row :: outcome_row where
  "owed_row = \<lparr>o_id = 1, o_key = 3, o_server = ''jellyfin'', o_status = S_pending,
     o_detail = None, o_attempts = 1, attempted_at = Some 4, terminal_at = None,
     next_attempt_at = Some 8, fingerprint = None, o_run_id = None, previous_status = None\<rparr>"

definition owed :: outcome_tab where
  "owed = \<lparr>o_rows = [owed_row], o_next = 2\<rparr>"

theorem due_rows_ordered_witness:
  "o_run_id ` set (due_rows 9 None (Some 5) owed) \<subseteq> {Some 5}"
  using due_rows_ordered [OF refl, of 9 None "Some 5" owed] by blast

subsection \<open>One row, one outcome\<close>

text \<open>A row body that either finished with one outcome word or raised with none.\<close>

definition one_word :: "'s \<times> Retry.word list \<times> bool \<Rightarrow> bool" where
  "one_word res \<longleftrightarrow> (case res of (_, ws, raised) \<Rightarrow>
     (if raised then ws = [] else \<exists>w. ws = [w] \<and> w \<noteq> W_due))"

named_theorems one_word_rules

lemma one_word_raised [one_word_rules]: "one_word (st, [], True)"
  by (simp add: one_word_def)

lemma one_word_done [one_word_rules]: "w \<noteq> W_due \<Longrightarrow> one_word (st, [w], False)"
  by (simp add: one_word_def)

lemma one_word_settle [one_word_rules]:
  "e_rollup_ok env \<Longrightarrow> w \<noteq> W_due \<Longrightarrow> one_word (settle_as env k w st)"
  by (simp add: settle_as_def one_word_def)

lemma one_word_put [one_word_rules]:
  "(\<And>st' n. one_word (cont st' n)) \<Longrightarrow> one_word (put_row now k s a st cont)"
  unfolding put_row_def by (auto intro: one_word_raised split: sum.split)

lemma one_word_put_meta [one_word_rules]:
  "(\<And>t' n. one_word (cont t' n)) \<Longrightarrow> one_word (put_meta now k s a t cont)"
  unfolding put_meta_def by (auto intro: one_word_raised split: sum.split)

lemma one_word_deliver [one_word_rules]:
  "e_rollup_ok env \<Longrightarrow> one_word (deliver_row now env k s b st)"
  by (auto simp: deliver_row_def intro!: one_word_rules split: sum.split option.split)

lemma one_word_identity [one_word_rules]:
  "e_rollup_ok env \<Longrightarrow> one_word (identity_phase now m env k s b st)"
  by (auto simp: identity_phase_def intro!: one_word_rules split: resolve_result.split)

lemma one_word_retry: "e_rollup_ok env \<Longrightarrow> one_word (retry_delivery now m env k s st)"
  by (auto simp: retry_delivery_def intro!: one_word_rules split: resolve_result.split option.split)

lemma one_word_meta: "one_word (retry_metadata now m env k s t)"
  by (auto simp: retry_metadata_def meta_trouble_def intro!: one_word_rules
      split: resolve_result.split apply_result.split)

subsection \<open>The counters\<close>

definition settled :: "counts \<Rightarrow> nat" where
  "settled c = c_uploaded c + c_written c + c_pending c + c_failed c + c_skipped c"

text \<open>The pass's own totals are the sums of the servers'.\<close>

definition heads_agree :: "counters \<Rightarrow> bool" where
  "heads_agree c \<longleftrightarrow> n_uploaded c = sum_list (map (c_uploaded \<circ> snd) (per_server c)) \<and>
     n_written c = sum_list (map (c_written \<circ> snd) (per_server c)) \<and>
     still_pending c = sum_list (map (c_pending \<circ> snd) (per_server c))"

lemma bump_sel:
  "c_due (bump w c) = c_due c + (if w = W_due then 1 else 0)"
  "c_uploaded (bump w c) = c_uploaded c + (if w = W_uploaded then 1 else 0)"
  "c_written (bump w c) = c_written c + (if w = W_written then 1 else 0)"
  "c_pending (bump w c) = c_pending c + (if w = W_pending then 1 else 0)"
  "c_failed (bump w c) = c_failed c + (if w = W_failed then 1 else 0)"
  "c_skipped (bump w c) = c_skipped c + (if w = W_skipped then 1 else 0)"
  by (cases w; simp)+

lemma settled_bump: "settled (bump w c) = settled c + (if w = W_due then 0 else 1)"
  by (cases w) (simp_all add: settled_def)

lemma tally_server_sum:
  assumes "\<And>x. f (bump w x) = f x + (d::nat)" and "f no_counts = 0"
  shows "sum_list (map (f \<circ> snd) (tally_server name w ps)) = sum_list (map (f \<circ> snd) ps) + d"
  by (induction ps) (auto simp: assms)

lemmas tally_sums =
  tally_server_sum [where f = c_due, OF bump_sel(1)]
  tally_server_sum [where f = c_uploaded, OF bump_sel(2)]
  tally_server_sum [where f = c_written, OF bump_sel(3)]
  tally_server_sum [where f = c_pending, OF bump_sel(4)]

lemma heads_agree_tally: "heads_agree c \<Longrightarrow> heads_agree (tally name w c)"
  by (simp add: heads_agree_def tally_def tally_sums no_counts_def)

definition balanced :: "counters \<Rightarrow> bool" where
  "balanced c \<longleftrightarrow> (\<forall>p \<in> set (per_server c). c_due (snd p) = settled (snd p))"

lemma tally_server_twice:
  assumes "w \<noteq> W_due" and "\<forall>p \<in> set ps. c_due (snd p) = settled (snd p)"
  shows "\<forall>p \<in> set (tally_server name w (tally_server name W_due ps)). c_due (snd p) = settled (snd p)"
  using assms(2)
proof (induction ps)
  case Nil
  have "settled no_counts = 0" "c_due no_counts = 0" by (simp_all add: settled_def no_counts_def)
  then show ?case using assms(1) by (simp add: bump_sel settled_bump del: bump.simps)
next
  case (Cons p ps)
  then show ?case
    using assms(1) by (cases p) (auto simp: bump_sel settled_bump simp del: bump.simps)
qed

lemma balanced_tally: "balanced c \<Longrightarrow> w \<noteq> W_due \<Longrightarrow> balanced (tally name w (tally name W_due c))"
  using tally_server_twice [of w "per_server c" name] by (simp add: balanced_def tally_def)

definition dues :: "counters \<Rightarrow> nat" where
  "dues c = sum_list (map (c_due \<circ> snd) (per_server c))"

lemma dues_tally: "dues (tally name w c) = dues c + (if w = W_due then 1 else 0)"
  by (simp add: dues_def tally_def tally_sums no_counts_def)

subsection \<open>The pass keeps its books\<close>

definition books :: "nat \<Rightarrow> counters \<Rightarrow> bool" where
  "books n c \<longleftrightarrow> balanced c \<and> heads_agree c \<and> dues c = n"

lemma books_row: "books n c \<Longrightarrow> w \<noteq> W_due \<Longrightarrow> books (Suc n) (tally name w (tally name W_due c))"
  by (simp add: books_def balanced_tally heads_agree_tally dues_tally)

lemma process_row_books:
  assumes "books n c" and "one_word (body st)"
  shows "books (Suc n) (snd (process_row body ok s (st, c)))"
proof -
  obtain st' ws raised where b: "body st = (st', ws, raised)" by (cases "body st")
  then obtain w where "ws @ (if raised then [W_pending] else []) = [w]" "w \<noteq> W_due"
    using assms(2) by (cases raised) (auto simp: one_word_def)
  then show ?thesis using books_row [OF assms(1)] by (simp add: process_row_def b)
qed

lemma process_meta_books:
  assumes "books n c" and "one_word (body t)"
  shows "books (Suc n) (snd (process_meta body ok s (t, c)))"
proof -
  obtain t' ws raised where b: "body t = (t', ws, raised)" by (cases "body t")
  then obtain w where "ws @ (if raised then [W_pending] else []) = [w]" "w \<noteq> W_due"
    using assms(2) by (cases raised) (auto simp: one_word_def)
  then show ?thesis using books_row [OF assms(1)] by (simp add: process_meta_def b)
qed

lemma artwork_pass_books:
  assumes "books n (snd acc)" and "\<forall>r \<in> set due. e_rollup_ok (envs r)"
  shows "books (n + length due) (snd (artwork_pass now m envs due acc))"
  using assms
proof (induction due arbitrary: n acc)
  case Nil
  then show ?case by (simp add: artwork_pass_def)
next
  case (Cons r due)
  obtain st c where acc: "acc = (st, c)" by (cases acc)
  let ?acc = "process_row (retry_delivery now m (envs r) (o_key r) (o_server r))
    (e_commit_ok (envs r)) (o_server r) (st, c)"
  have "books (Suc n) (snd ?acc)"
    using Cons.prems by (intro process_row_books one_word_retry) (simp_all add: acc)
  from Cons.IH [OF this] Cons.prems(2) show ?case by (simp add: artwork_pass_def acc)
qed

lemma metadata_pass_books:
  assumes "books n (snd acc)"
  shows "books (n + length due) (snd (metadata_pass now m envs due acc))"
  using assms
proof (induction due arbitrary: n acc)
  case Nil
  then show ?case by (simp add: metadata_pass_def)
next
  case (Cons r due)
  obtain t c where acc: "acc = (t, c)" by (cases acc)
  let ?acc = "process_meta (retry_metadata now m (envs r) (o_key r) (o_server r))
    (m_commit_ok (envs r)) (o_server r) (t, c)"
  have "books (Suc n) (snd ?acc)"
    using Cons.prems by (intro process_meta_books one_word_meta) (simp_all add: acc)
  from Cons.IH [OF this] show ?case by (simp add: metadata_pass_def acc)
qed

lemma books_pass:
  assumes "retry_pending_deliveries now m server run_id art meta st writes = (st', writes', c)"
    and "\<forall>r \<in> set (due_rows now server run_id (dtab st)). e_rollup_ok (art r)"
  shows "books (length (due_rows now server run_id (dtab st)) +
      length (due_rows now server run_id writes)) c"
proof -
  let ?c0 = "\<lparr>n_uploaded = 0, n_written = 0, still_pending = 0, per_server = []\<rparr> :: counters"
  obtain s1 c1 where a: "artwork_pass now m art (due_rows now server run_id (dtab st)) (st, ?c0) = (s1, c1)"
    by (cases "artwork_pass now m art (due_rows now server run_id (dtab st)) (st, ?c0)")
  have "books 0 ?c0" by (simp add: books_def balanced_def heads_agree_def dues_def)
  then have "books 0 (snd (st, ?c0))" by simp
  from artwork_pass_books [OF this assms(2), of now m] a
  have "books (length (due_rows now server run_id (dtab st))) c1" by simp
  then have "books (length (due_rows now server run_id (dtab st))) (snd (writes, c1))" by simp
  from metadata_pass_books [OF this, where now = now and m = m and envs = meta
      and due = "due_rows now server run_id writes"] assms(1) show ?thesis
    by (auto simp: retry_pending_deliveries_def a Let_def split: prod.splits)
qed

lemma sum_settled:
  "sum_list (map (settled \<circ> snd) ps) = sum_list (map (c_uploaded \<circ> snd) ps) +
     sum_list (map (c_written \<circ> snd) ps) + sum_list (map (c_pending \<circ> snd) ps) +
     sum_list (map (c_failed \<circ> snd) ps) + sum_list (map (c_skipped \<circ> snd) ps)"
  by (induction ps) (auto simp: settled_def)

text \<open>
  C5: as long as no roll-up statement fails, every row a pass looks at ends in exactly one
  outcome word: for each server the five counters add up to its due count, and over the
  whole pass the rows due are the rows done, still pending, failed and skipped; this
  holds whatever the media servers, the compositor and the rows' commits do.
\<close>

theorem retry_counts_add_up:
  assumes "retry_pending_deliveries now m server run_id art meta st writes = (st', writes', c)"
    and "\<forall>r \<in> set (due_rows now server run_id (dtab st)). e_rollup_ok (art r)"
  shows "(\<forall>(name, n) \<in> set (per_server c).
       c_due n = c_uploaded n + c_written n + c_pending n + c_failed n + c_skipped n) \<and>
    length (due_rows now server run_id (dtab st)) + length (due_rows now server run_id writes) =
      n_uploaded c + n_written c + still_pending c + sum_list (map (c_failed \<circ> snd) (per_server c)) +
      sum_list (map (c_skipped \<circ> snd) (per_server c))"
proof -
  note b = books_pass [OF assms]
  have "map (c_due \<circ> snd) (per_server c) = map (settled \<circ> snd) (per_server c)"
    using b by (auto simp: books_def balanced_def)
  with b show ?thesis
    unfolding books_def balanced_def heads_agree_def dues_def
    by (auto simp: sum_settled settled_def)
qed

definition all_down :: "outcome_row \<Rightarrow> art_env" where
  "all_down _ = \<lparr>e_server_known = True, e_upload_on = True, e_refs = Some False,
     e_resolve = Unreachable (TransportError ''ConnectError''), e_ref_saved = True,
     e_plex_known = False, e_identity = Resolved, e_compose = (\<lambda>_. Inr None), e_upload = None,
     e_rollup_ok = True, e_commit_ok = True\<rparr>"

definition meta_down :: "outcome_row \<Rightarrow> meta_env" where
  "meta_down _ = \<lparr>m_server_known = True, m_operations_on = True, m_write_on = True, m_refs_ok = True,
     m_resolve = Unreachable (TransportError ''ConnectError''), m_saved = True, m_apply = Applied,
     m_commit_ok = True\<rparr>"

definition owed_store :: store where
  "owed_store = \<lparr>dtab = owed, cols = (\<lambda>_. \<lparr>upload_status = S_pending, uploaded_at = None\<rparr>)\<rparr>"

lemma due_owed: "due_rows 9 None None owed = [owed_row]"
  by (simp add: due_rows_def owed_def owed_row_def is_due_def in_scope_def PASS_LIMIT_def)

theorem retry_counts_add_up_witness:
  "\<exists>st' writes' c. retry_pending_deliveries 9 3 None None all_down meta_down owed_store owed =
     (st', writes', c) \<and> n_uploaded c + n_written c + still_pending c +
       sum_list (map (c_failed \<circ> snd) (per_server c)) +
       sum_list (map (c_skipped \<circ> snd) (per_server c)) = 2"
proof -
  obtain st' writes' c where p: "retry_pending_deliveries 9 3 None None all_down meta_down owed_store owed =
      (st', writes', c)"
    by (cases "retry_pending_deliveries 9 3 None None all_down meta_down owed_store owed")
  have "dtab owed_store = owed" "e_rollup_ok (all_down owed_row)"
    by (simp_all add: owed_store_def all_down_def)
  then have "n_uploaded c + n_written c + still_pending c +
       sum_list (map (c_failed \<circ> snd) (per_server c)) +
       sum_list (map (c_skipped \<circ> snd) (per_server c)) = 2"
    using retry_counts_add_up [OF p] by (simp add: due_owed)
  with p show ?thesis by blast
qed

subsection \<open>A roll-up that fails\<close>


definition gone_and_failing :: "outcome_row \<Rightarrow> art_env" where
  "gone_and_failing r = (all_down r)\<lparr>e_server_known := False, e_rollup_ok := False\<rparr>"

lemma digits_01: "nat_digits 0 = ''0''" "nat_digits 1 = ''1''"
  by code_simp+


subsection \<open>What a row's body may touch\<close>

text \<open>A row body writes its own row only, and never deletes it.\<close>

definition touches_only :: "nat \<Rightarrow> string \<Rightarrow> outcome_tab \<Rightarrow> outcome_tab \<Rightarrow> bool" where
  "touches_only k s t t' \<longleftrightarrow> (\<forall>k' s'. (k', s') \<noteq> (k, s) \<longrightarrow> look t' k' s' = look t k' s') \<and>
     (look t k s \<noteq> None \<longrightarrow> look t' k s \<noteq> None)"

named_theorems touch_rules

lemma touches_refl [touch_rules]: "touches_only k s t t"
  by (simp add: touches_only_def)

lemma touches_trans: "touches_only k s t t1 \<Longrightarrow> touches_only k s t1 t2 \<Longrightarrow> touches_only k s t t2"
  by (simp add: touches_only_def)

lemma upsert_touches:
  assumes "upsert_outcome terminal now k s a t = Inr (t', n)"
  shows "touches_only k s t t'"
  by (rule upsert_look [OF assms]) (auto simp: touches_only_def split: if_splits)

lemma touches_settle [touch_rules]:
  "touches_only k s t (dtab st) \<Longrightarrow> touches_only k s t (dtab (fst (settle_as env k' w st)))"
  by (simp add: settle_as_def)

lemma touches_put [touch_rules]:
  assumes "touches_only k s t (dtab st)"
    and "\<And>st' n. touches_only k s t (dtab st') \<Longrightarrow> touches_only k s t (dtab (fst (cont st' n)))"
  shows "touches_only k s t (dtab (fst (put_row now k s a st cont)))"
  using assms upsert_touches [of S_uploaded now k s a "dtab st"] touches_trans [OF assms(1)]
  by (auto simp: put_row_def record_delivery_def split: sum.split)

lemma touches_deliver [touch_rules]:
  "touches_only k s t (dtab st) \<Longrightarrow> touches_only k s t (dtab (fst (deliver_row now env k s b st)))"
  by (auto simp: deliver_row_def intro!: touch_rules split: sum.split option.split)

lemma touches_identity [touch_rules]:
  "touches_only k s t (dtab st) \<Longrightarrow> touches_only k s t (dtab (fst (identity_phase now m env k s b st)))"
  by (auto simp: identity_phase_def intro!: touch_rules split: resolve_result.split)

lemma retry_touches: "touches_only k s (dtab st) (dtab (fst (retry_delivery now m env k s st)))"
  by (auto simp: retry_delivery_def intro!: touch_rules split: resolve_result.split option.split)

lemma retry_keeps_row:
  assumes "look (dtab st) k s = Some r"
  shows "look (dtab (fst (retry_delivery now m env k s st))) k s \<noteq> None"
  using retry_touches [of k s st] assms by (simp add: touches_only_def)

lemma process_row_touches:
  "touches_only (o_key r) (o_server r) (dtab st)
     (dtab (fst (process_row (retry_delivery now m env (o_key r) (o_server r)) ok (o_server r) (st, c))))"
  using retry_touches [of "o_key r" "o_server r" st now m env]
  by (auto simp: process_row_def Let_def touches_refl split: prod.splits)

lemma artwork_pass_frame:
  assumes "\<forall>r \<in> set due. (o_key r, o_server r) \<noteq> (k, s)"
  shows "look (dtab (fst (artwork_pass now m envs due acc))) k s = look (dtab (fst acc)) k s"
  using assms
proof (induction due arbitrary: acc)
  case Nil
  then show ?case by (simp add: artwork_pass_def)
next
  case (Cons r due)
  obtain st c where acc: "acc = (st, c)" by (cases acc)
  let ?acc = "process_row (retry_delivery now m (envs r) (o_key r) (o_server r))
    (e_commit_ok (envs r)) (o_server r) (st, c)"
  have "look (dtab (fst ?acc)) k s = look (dtab st) k s"
    using process_row_touches [of r st now m "envs r" "e_commit_ok (envs r)" c] Cons.prems
    by (auto simp: touches_only_def)
  with Cons.IH [of ?acc] Cons.prems show ?case by (simp add: artwork_pass_def acc)
qed

lemma wf_look:
  assumes "wf_outcomes terminal t" and "r \<in> set (o_rows t)"
  shows "look t (o_key r) (o_server r) = Some r"
proof -
  have d: "distinct (map (\<lambda>r. (o_key r, o_server r)) (o_rows t))"
    using assms(1) by (simp add: wf_outcomes_def)
  obtain q where q: "look t (o_key r) (o_server r) = Some q"
    using assms(2) look_None [of t "o_key r" "o_server r"] by (cases "look t (o_key r) (o_server r)") auto
  from look_mem [OF q] have "q \<in> set (o_rows t)" "o_key q = o_key r" "o_server q = o_server r" by auto
  with d assms(2) have "q = r" by (auto simp: distinct_map inj_on_def)
  with q show ?thesis by simp
qed

text \<open>
  C6: a pass changes no delivery row that is not due in its scope: not a row of another
  server than the one it was narrowed to, not a row of a catch-up when it serves none, not
  one of the ordinary rows when it serves a catch-up, and none whose time has not come.
\<close>

theorem retry_stays_in_scope:
  assumes "wf_outcomes S_uploaded (dtab st)"
    and "retry_pending_deliveries now m server run_id art meta st writes = (st', writes', c)"
    and "r \<in> set (o_rows (dtab st))" and "\<not> is_due now server run_id r"
  shows "look (dtab st') (o_key r) (o_server r) = Some r"
proof -
  let ?due = "due_rows now server run_id (dtab st)"
  have due: "\<forall>q \<in> set ?due. q \<in> set (o_rows (dtab st)) \<and> is_due now server run_id q"
    by (auto simp: due_rows_def dest!: in_set_takeD)
  have "\<forall>q \<in> set ?due. (o_key q, o_server q) \<noteq> (o_key r, o_server r)"
    using due assms(4) wf_look [OF assms(1)] wf_look [OF assms(1,3)] by (metis option.inject prod.inject)
  from artwork_pass_frame [OF this] have "\<And>c0. look (dtab (fst (artwork_pass now m art ?due (st, c0))))
      (o_key r) (o_server r) = Some r"
    using wf_look [OF assms(1,3)] by simp
  moreover have "\<exists>c0. st' = fst (artwork_pass now m art ?due (st, c0))"
    using assms(2) by (auto simp: retry_pending_deliveries_def Let_def split: prod.splits
        intro!: exI [where x = "\<lparr>n_uploaded = 0, n_written = 0, still_pending = 0, per_server = []\<rparr>"])
  ultimately show ?thesis by auto
qed

theorem retry_stays_in_scope_witness:
  "\<exists>st' writes' c. retry_pending_deliveries 9 3 (Some ''plex'') None all_down meta_down owed_store owed =
     (st', writes', c) \<and> look (dtab st') 3 ''jellyfin'' = Some owed_row"
proof -
  obtain st' writes' c where p: "retry_pending_deliveries 9 3 (Some ''plex'') None all_down meta_down
      owed_store owed = (st', writes', c)"
    by (cases "retry_pending_deliveries 9 3 (Some ''plex'') None all_down meta_down owed_store owed")
  have "wf_outcomes S_uploaded (dtab owed_store)" "owed_row \<in> set (o_rows (dtab owed_store))"
    "\<not> is_due 9 (Some ''plex'') None owed_row"
    by (simp_all add: owed_store_def owed_def wf_outcomes_def row_ok_def owed_row_def is_due_def
        in_scope_def STATUSES_def)
  from retry_stays_in_scope [OF this(1) p this(2,3)] p show ?thesis
    by (simp add: owed_row_def)
qed

subsection \<open>The budget\<close>

lemma put_row_look:
  assumes "look (dtab st) k s = Some r" and "o_status r \<noteq> S_absent" and "horizon now a = Inr hz"
    and "w_status a \<in> set STATUSES \<or> w_status a = S_uploaded"
  obtains t' where "put_row now k s a st cont =
      cont (st\<lparr>dtab := t'\<rparr>) (o_attempts (updated_row now S_uploaded a hz r))"
    and "look t' k s = Some (updated_row now S_uploaded a hz r)"
proof -
  obtain t' n where w: "record_delivery now k s a (dtab st) = Inr (t', n)"
    using assms by (auto simp: record_delivery_def upsert_outcome_def Let_def)
  obtain hz' where "horizon now a = Inr hz'" "look t' k s = Some (updated_row now S_uploaded a hz' r)"
      "n = o_attempts (updated_row now S_uploaded a hz' r)"
    using upsert_look [OF w [unfolded record_delivery_def]] assms(1,2) by metis
  then show thesis using that [of t'] assms(3) w by (simp add: put_row_def)
qed

lemma settle_as_dtab: "dtab (fst (settle_as env k w st)) = dtab st"
  by (simp add: settle_as_def)

lemma horizon_args:
  "horizon now (failed_with f) = Inr None"
  "horizon now (pending_with fo b) = Inr (Some (now + secs RETRY_SECONDS))"
  by (simp_all add: horizon_def failed_with_def pending_with_def args_def)

lemma status_args:
  "w_status (failed_with f) = S_failed" "w_status (pending_with fo b) = S_pending"
  "S_failed \<in> set STATUSES" "S_pending \<in> set STATUSES"
  by (simp_all add: failed_with_def pending_with_def args_def STATUSES_def)

lemmas arg_rules = horizon_args status_args

lemma failed_row:
  "updated_row now terminal (failed_with f) None r =
     r\<lparr>o_status := S_failed, o_detail := Some (failure_detail f), attempted_at := Some now,
       next_attempt_at := None, terminal_at := (if terminal = S_failed then Some now else terminal_at r),
       o_attempts := o_attempts r + 1\<rparr>"
  by (simp add: updated_row_def failed_with_def args_def counted_def open_status_def)

lemma pending_row:
  "updated_row now terminal (pending_with fo b) hz r =
     r\<lparr>o_status := S_pending, o_detail := map_option failure_detail fo, attempted_at := Some now,
       next_attempt_at := hz, terminal_at := (if terminal = S_pending then Some now else terminal_at r),
       o_attempts := (if b then o_attempts r + 1 else o_attempts r)\<rparr>"
  by (simp add: updated_row_def pending_with_def args_def counted_def open_status_def)

definition answers :: "art_env \<Rightarrow> resolve_result \<Rightarrow> bool" where
  "answers env res \<longleftrightarrow> e_server_known env \<and> e_upload_on env \<and> e_refs env \<noteq> None \<and> e_resolve env = res"

lemma retry_unreachable:
  assumes "answers env (Unreachable f)" and "look (dtab st) k s = Some r" and "o_status r \<noteq> S_absent"
  shows "look (dtab (fst (retry_delivery now m env k s st))) k s = Some
    (if m \<le> o_attempts r + 1
     then r\<lparr>o_status := S_failed, o_detail := Some (failure_detail f), attempted_at := Some now,
       next_attempt_at := None, o_attempts := o_attempts r + 2\<rparr>
     else r\<lparr>o_status := S_pending, o_detail := Some (failure_detail f), attempted_at := Some now,
       next_attempt_at := Some (now + secs RETRY_SECONDS), o_attempts := o_attempts r + 1\<rparr>)"
proof -
  let ?r = "r\<lparr>o_status := S_pending, o_detail := Some (failure_detail f), attempted_at := Some now,
       next_attempt_at := Some (now + secs RETRY_SECONDS), o_attempts := o_attempts r + 1\<rparr>"
  define cont where "cont = (\<lambda>st' attempts. if attempts \<ge> m
     then put_row now k s (failed_with f) st' (\<lambda>st'' _. settle_as env k W_failed st'')
     else settle_as env k W_pending st')"
  have "retry_delivery now m env k s st = put_row now k s (pending_with (Some f) True) st cont"
    using assms(1) by (auto simp: retry_delivery_def answers_def cont_def)
  moreover obtain t1 where "put_row now k s (pending_with (Some f) True) st cont = cont (st\<lparr>dtab := t1\<rparr>)
      (o_attempts (updated_row now S_uploaded (pending_with (Some f) True) (Some (now + secs RETRY_SECONDS)) r))"
    and "look t1 k s = Some (updated_row now S_uploaded (pending_with (Some f) True)
      (Some (now + secs RETRY_SECONDS)) r)"
    by (rule put_row_look [OF assms(2,3) horizon_args(2)], simp add: arg_rules, rule that)
  ultimately have eq: "retry_delivery now m env k s st = cont (st\<lparr>dtab := t1\<rparr>) (o_attempts ?r)"
    and l1: "look t1 k s = Some ?r"
    by (simp_all add: pending_row)
  show ?thesis
  proof (cases "m \<le> o_attempts r + 1")
    case True
    let ?cont = "\<lambda>st'' _. settle_as env k W_failed st''"
    have l: "look (dtab (st\<lparr>dtab := t1\<rparr>)) k s = Some ?r" "o_status ?r \<noteq> S_absent"
      by (simp_all add: l1)
    obtain t2 where "put_row now k s (failed_with f) (st\<lparr>dtab := t1\<rparr>) ?cont =
        ?cont ((st\<lparr>dtab := t1\<rparr>)\<lparr>dtab := t2\<rparr>) (o_attempts (updated_row now S_uploaded (failed_with f) None ?r))"
      and l2: "look t2 k s = Some (updated_row now S_uploaded (failed_with f) None ?r)"
      by (rule put_row_look [OF l horizon_args(1)], simp add: arg_rules, rule that)
    then show ?thesis using True eq l2 by (simp add: cont_def settle_as_dtab failed_row)
  next
    case False
    then show ?thesis using eq l1 by (simp add: cont_def settle_as_dtab)
  qed
qed

text \<open>One settled write of a row that has no second step.\<close>

lemma put_row_settle:
  assumes "look (dtab st) k s = Some r" and "o_status r \<noteq> S_absent" and "horizon now a = Inr hz"
    and "w_status a \<in> set STATUSES \<or> w_status a = S_uploaded"
  shows "look (dtab (fst (put_row now k s a st (\<lambda>st' _. settle_as env k w st')))) k s =
    Some (updated_row now S_uploaded a hz r)"
  by (rule put_row_look [OF assms, where cont = "\<lambda>st' _. settle_as env k w st'"])
    (simp add: settle_as_dtab)

lemma retry_missing:
  assumes "answers env (Missing f)" and "look (dtab st) k s = Some r" and "o_status r \<noteq> S_absent"
  shows "look (dtab (fst (retry_delivery now m env k s st))) k s = Some
    (r\<lparr>o_status := S_pending, o_detail := None, attempted_at := Some now,
       next_attempt_at := Some (now + secs RETRY_SECONDS)\<rparr>)"
proof -
  have "retry_delivery now m env k s st =
      put_row now k s (pending_with None False) st (\<lambda>st' _. settle_as env k W_pending st')"
    using assms(1) by (auto simp: retry_delivery_def answers_def)
  then show ?thesis
    using put_row_settle [OF assms(2,3) horizon_args(2), of None False] by (simp add: arg_rules pending_row)
qed

lemma retry_mismatch:
  assumes "answers env (Mismatch f)" and "look (dtab st) k s = Some r" and "o_status r \<noteq> S_absent"
  shows "look (dtab (fst (retry_delivery now m env k s st))) k s = Some
    (r\<lparr>o_status := S_failed, o_detail := Some (failure_detail f), attempted_at := Some now,
       next_attempt_at := None, o_attempts := o_attempts r + 1\<rparr>)"
proof -
  have "retry_delivery now m env k s st =
      put_row now k s (failed_with f) st (\<lambda>st' _. settle_as env k W_failed st')"
    using assms(1) by (auto simp: retry_delivery_def answers_def)
  then show ?thesis
    using put_row_settle [OF assms(2,3) horizon_args(1), of f] by (simp add: arg_rules failed_row)
qed

text \<open>
  C11: what the delivery server's answer does to the row's budget. Not having the item yet
  spends none of it and waits six hours; a path mismatch fails at once; an unreachable
  server spends one attempt and waits, and on the last of them the row fails and is never
  due again by itself. That last attempt is written twice, so the stored count ends one
  above the number of attempts.
\<close>

theorem retry_spends_budget:
  assumes "look (dtab st) k s = Some r" and "o_status r = S_pending" and "answers env res"
  shows "\<exists>r'. look (dtab (fst (retry_delivery now m env k s st))) k s = Some r' \<and>
    (case res of
       Missing f \<Rightarrow> o_status r' = S_pending \<and> o_attempts r' = o_attempts r \<and>
         next_attempt_at r' = Some (now + secs (6 * 60 * 60))
     | Mismatch f \<Rightarrow> o_status r' = S_failed \<and> o_attempts r' = o_attempts r + 1 \<and> next_attempt_at r' = None
     | Unreachable f \<Rightarrow>
         if o_attempts r + 1 < m
         then o_status r' = S_pending \<and> o_attempts r' = o_attempts r + 1 \<and>
           next_attempt_at r' = Some (now + secs (6 * 60 * 60))
         else o_status r' = S_failed \<and> o_attempts r' = o_attempts r + 2 \<and> next_attempt_at r' = None
     | Resolved \<Rightarrow> True)"
proof -
  have na: "o_status r \<noteq> S_absent" using assms(2) by simp
  show ?thesis
  proof (cases res)
    case Resolved
    have "look (dtab (fst (retry_delivery now m env k s st))) k s \<noteq> None"
      using retry_keeps_row [OF assms(1)] by blast
    with Resolved show ?thesis by auto
  next
    case (Mismatch f)
    with retry_mismatch [OF _ assms(1) na] assms(3) show ?thesis by simp
  next
    case (Missing f)
    with retry_missing [OF _ assms(1) na] assms(3) show ?thesis by (simp add: RETRY_SECONDS_def)
  next
    case (Unreachable f)
    with retry_unreachable [OF _ assms(1) na, of env f] assms(3) show ?thesis
      by (simp add: RETRY_SECONDS_def)
  qed
qed

theorem retry_spends_budget_witness:
  "\<exists>r'. look (dtab (fst (retry_delivery 9 2 (all_down owed_row) 3 ''jellyfin'' owed_store))) 3 ''jellyfin'' =
     Some r' \<and> o_status r' = S_failed \<and> o_attempts r' = 3"
proof -
  have "look (dtab owed_store) 3 ''jellyfin'' = Some owed_row"
    by (simp add: owed_store_def owed_def look_def at_key_def owed_row_def)
  moreover have "answers (all_down owed_row) (Unreachable (TransportError ''ConnectError''))"
    by (simp add: answers_def all_down_def)
  ultimately show ?thesis
    using retry_spends_budget [of owed_store 3 "''jellyfin''" owed_row] by (fastforce simp: owed_row_def)
qed

subsection \<open>Nothing retries forever\<close>

definition attempt_at ::
  "nat \<Rightarrow> art_env \<Rightarrow> nat \<Rightarrow> string \<Rightarrow> instant \<Rightarrow> store \<Rightarrow> store" where
  "attempt_at m env k s now st = fst (retry_delivery now m env k s st)"

lemma attempts_climb:
  assumes "answers env (Unreachable f)" and "look (dtab st) k s = Some r" and "o_status r = S_pending"
    and "o_attempts r + length nows < m"
  shows "\<exists>r'. look (dtab (fold (attempt_at m env k s) nows st)) k s = Some r' \<and>
    o_status r' = S_pending \<and> o_attempts r' = o_attempts r + length nows"
  using assms(2-4)
proof (induction nows arbitrary: st r)
  case Nil
  then show ?case by simp
next
  case (Cons now nows)
  have "\<not> m \<le> o_attempts r + 1" "o_status r \<noteq> S_absent" using Cons.prems by simp_all
  with retry_unreachable [OF assms(1) Cons.prems(1), of now m]
  obtain r1 where r1: "look (dtab (attempt_at m env k s now st)) k s = Some r1"
      "o_status r1 = S_pending" "o_attempts r1 = o_attempts r + 1"
    by (simp add: attempt_at_def)
  have "o_attempts r1 + length nows < m" using r1(3) Cons.prems(3) by simp
  from Cons.IH [OF r1(1,2) this] r1(3) show ?case by simp
qed

text \<open>
  C7: a server that stays unreachable is tried exactly as often as the budget says: a fresh
  pending row is still pending after fewer attempts than the budget, whenever they happen,
  and failed, with no next attempt, after exactly that many.
\<close>

theorem unreachable_exhausts_budget:
  assumes "answers env (Unreachable f)" and "look (dtab st) k s = Some r" and "o_status r = S_pending"
    and "o_attempts r = 0" and "0 < m"
  shows "(length nows < m \<longrightarrow> (\<exists>r'. look (dtab (fold (attempt_at m env k s) nows st)) k s = Some r' \<and>
       o_status r' = S_pending \<and> o_attempts r' = length nows)) \<and>
    (length nows = m \<longrightarrow> (\<exists>r'. look (dtab (fold (attempt_at m env k s) nows st)) k s = Some r' \<and>
       o_status r' = S_failed \<and> next_attempt_at r' = None))"
proof (intro conjI impI)
  assume "length nows < m"
  with attempts_climb [OF assms(1-3)] assms(4) show "\<exists>r'. look (dtab (fold (attempt_at m env k s) nows st)) k s =
      Some r' \<and> o_status r' = S_pending \<and> o_attempts r' = length nows" by simp
next
  assume len: "length nows = m"
  then obtain ys y where nows: "nows = ys @ [y]" using assms(5) by (cases nows rule: rev_cases) auto
  then obtain r1 where r1: "look (dtab (fold (attempt_at m env k s) ys st)) k s = Some r1"
      "o_status r1 = S_pending" "o_attempts r1 = length ys"
    using attempts_climb [OF assms(1-3), of ys m] assms(4) len by auto
  have "o_status r1 \<noteq> S_absent" using r1(2) by simp
  from retry_unreachable [OF assms(1) r1(1) this, of y m] r1(3) len nows
  show "\<exists>r'. look (dtab (fold (attempt_at m env k s) nows st)) k s = Some r' \<and>
      o_status r' = S_failed \<and> next_attempt_at r' = None"
    by (simp add: attempt_at_def)
qed

theorem unreachable_exhausts_budget_witness:
  "\<exists>r'. look (dtab (fold (attempt_at 2 (all_down owed_row) 3 ''jellyfin'') [9, 99]
     \<lparr>dtab = \<lparr>o_rows = [owed_row\<lparr>o_attempts := 0\<rparr>], o_next = 2\<rparr>, cols = cols owed_store\<rparr>)) 3 ''jellyfin'' =
     Some r' \<and> o_status r' = S_failed"
proof -
  let ?r = "owed_row\<lparr>o_attempts := 0\<rparr>"
  let ?st = "\<lparr>dtab = \<lparr>o_rows = [?r], o_next = 2\<rparr>, cols = cols owed_store\<rparr>"
  have l: "look (dtab ?st) 3 ''jellyfin'' = Some ?r" "o_status ?r = S_pending" "o_attempts ?r = 0"
    by (simp_all add: look_def at_key_def owed_row_def)
  have a: "answers (all_down owed_row) (Unreachable (TransportError ''ConnectError''))"
    by (simp add: answers_def all_down_def)
  have "(0::nat) < 2" "length [9, 99::int] = 2" by simp_all
  with unreachable_exhausts_budget [OF a l, of 2 "[9, 99]"] show ?thesis by blast
qed

end
