(* ===== verification/Runs.thy ===== *)
theory Runs
  imports Jobs
begin

text \<open>
  The history of runs (\<open>scheduler/run_history.py\<close>, the \<open>Run\<close> table of \<open>db/models.py\<close>):
  opening and closing a run, the watcher that closes drained full passes, what a window
  of time counts, and the trim that keeps the newest rows per name. \<open>now\<close> is the database
  clock of the caller's transaction.
\<close>

subsection \<open>The table\<close>

record run =
  r_id :: nat
  r_kind :: string
  r_name :: string
  r_started :: instant
  r_finished :: "instant option"
  r_status :: string
  r_detail :: "string option"
  r_poster :: "nat option"
  r_season_poster :: "nat option"
  r_background :: "nat option"
  r_title_card :: "nat option"
  r_processed :: "nat option"
  r_failed :: "nat option"
  r_deferred :: "nat option"
  r_server :: "string option"
  r_cadence :: "int option"
  r_drained :: "instant option"
  r_idle :: nat

record run_tab =
  runs :: "run list"
  run_next :: nat

definition RUN_HISTORY_KEEP :: nat where
  "RUN_HISTORY_KEEP = 500"

definition DETAIL_WIDTH :: nat where
  "DETAIL_WIDTH = 2000"

definition UNRECORDED :: "string list" where
  "UNRECORDED = [''stale_job_reclaim'', ''catch_up_drain'']"

definition FULL_PASS_CEILING_SECONDS :: int where
  "FULL_PASS_CEILING_SECONDS = 24 * 60 * 60"

definition is_open :: "run \<Rightarrow> bool" where
  "is_open r \<longleftrightarrow> r_finished r = None"

definition fresh_run :: "nat \<Rightarrow> instant \<Rightarrow> string \<Rightarrow> string \<Rightarrow> run" where
  "fresh_run i now kind name =
     \<lparr>r_id = i, r_kind = kind, r_name = name, r_started = now, r_finished = None,
      r_status = ''running'', r_detail = None, r_poster = None, r_season_poster = None,
      r_background = None, r_title_card = None, r_processed = None, r_failed = None,
      r_deferred = None, r_server = None, r_cadence = None, r_drained = None, r_idle = 0\<rparr>"

subsection \<open>open\_run, close\_run\<close>

text \<open>A still open row of the same scheduled name is closed as interrupted first.\<close>

definition open_run :: "instant \<Rightarrow> string \<Rightarrow> string \<Rightarrow> run_tab \<Rightarrow> run_tab \<times> nat" where
  "open_run now kind name t =
     (let rs = update_where (\<lambda>r. r_kind r = ''scheduled'' \<and> r_name r = name \<and> is_open r)
            (\<lambda>r. r\<lparr>r_finished := Some now, r_status := ''interrupted''\<rparr>) (runs t)
      in (\<lparr>runs = rs @ [fresh_run (run_next t) now kind name], run_next = Suc (run_next t)\<rparr>, run_next t))"

definition close_run :: "instant \<Rightarrow> nat \<Rightarrow> string \<Rightarrow> string \<Rightarrow> run_tab \<Rightarrow> run_tab" where
  "close_run now i st detail t = t\<lparr>runs := update_where (\<lambda>r. r_id r = i)
     (\<lambda>r. r\<lparr>r_finished := Some now, r_status := st, r_detail := Some (take DETAIL_WIDTH detail)\<rparr>) (runs t)\<rparr>"

subsection \<open>trim\_run\_history\<close>

text \<open>\<open>ORDER BY started_at DESC, id DESC\<close>: a row's rank is one more than the newer rows of its name.\<close>

definition newer :: "run \<Rightarrow> run \<Rightarrow> bool" where
  "newer q r \<longleftrightarrow> (r_started r, r_id r) < (r_started q, r_id q)"

definition run_rank :: "run list \<Rightarrow> run \<Rightarrow> nat" where
  "run_rank rs r = 1 + length (filter (\<lambda>q. r_name q = r_name r \<and> newer q r) rs)"

definition trim_scope :: "string option \<Rightarrow> string option \<Rightarrow> run \<Rightarrow> bool" where
  "trim_scope kind name r \<longleftrightarrow> (kind = None \<or> kind = Some (r_kind r)) \<and> (name = None \<or> name = Some (r_name r))"

definition trim_run_history ::
  "nat \<Rightarrow> string option \<Rightarrow> string option \<Rightarrow> run_tab \<Rightarrow> run_tab \<times> nat" where
  "trim_run_history keep kind name t =
     (let ranked = filter (trim_scope kind name) (runs t);
          doomed = map r_id (filter (\<lambda>r. keep < run_rank ranked r) ranked)
      in (t\<lparr>runs := filter (\<lambda>r. r_id r \<notin> set doomed) (runs t)\<rparr>,
          length (filter (\<lambda>r. r_id r \<in> set doomed) (runs t))))"

subsection \<open>window\_counts\<close>

text \<open>What the counts read of a render: its art kind and when it was last composited.\<close>

record rendered =
  rd_art_kind :: string
  rd_rendered_at :: "instant option"

record window =
  n_poster :: nat
  n_season_poster :: nat
  n_background :: nat
  n_title_card :: nat
  n_processed :: nat
  n_failed :: nat
  n_deferred :: nat

definition in_window :: "instant \<Rightarrow> instant \<Rightarrow> instant \<Rightarrow> bool" where
  "in_window from_t to_t t \<longleftrightarrow> from_t \<le> t \<and> t < to_t"

definition rendered_of :: "string \<Rightarrow> instant \<Rightarrow> instant \<Rightarrow> rendered list \<Rightarrow> nat" where
  "rendered_of kind from_t to_t ds = length (filter (\<lambda>d. rd_art_kind d = kind \<and>
     (case rd_rendered_at d of None \<Rightarrow> False | Some t \<Rightarrow> in_window from_t to_t t)) ds)"

definition jobs_in :: "job_state list \<Rightarrow> instant \<Rightarrow> instant \<Rightarrow> job list \<Rightarrow> nat" where
  "jobs_in states from_t to_t js = length (filter (\<lambda>j. job_kind j = ''process_item'' \<and>
     job_state j \<in> set states \<and> in_window from_t to_t (updated_at j)) js)"

definition window_counts :: "instant \<Rightarrow> instant \<Rightarrow> rendered list \<Rightarrow> job list \<Rightarrow> window" where
  "window_counts from_t to_t ds js =
     \<lparr>n_poster = rendered_of ''poster'' from_t to_t ds,
      n_season_poster = rendered_of ''season_poster'' from_t to_t ds,
      n_background = rendered_of ''background'' from_t to_t ds,
      n_title_card = rendered_of ''title_card'' from_t to_t ds,
      n_processed = jobs_in [Done, Done_with_warnings] from_t to_t js,
      n_failed = jobs_in [Failed] from_t to_t js,
      n_deferred = jobs_in [Deferred] from_t to_t js\<rparr>"

subsection \<open>close\_drained\_full\_passes\<close>

definition outstanding :: "instant \<Rightarrow> job list \<Rightarrow> nat" where
  "outstanding started js = length (filter (\<lambda>j. job_kind j = ''process_item'' \<and>
     (job_state j = Pending \<or> job_state j = Running) \<and> started \<le> created_at j) js)"

definition expired :: "instant \<Rightarrow> run \<Rightarrow> bool" where
  "expired now r \<longleftrightarrow> secs FULL_PASS_CEILING_SECONDS \<le> now - r_started r"

definition holds_open :: "instant \<Rightarrow> job list \<Rightarrow> run \<Rightarrow> bool" where
  "holds_open now js r \<longleftrightarrow> outstanding (r_started r) js \<noteq> 0 \<and> \<not> expired now r"

definition closed_detail :: "bool \<Rightarrow> window \<Rightarrow> string" where
  "closed_detail timed_out w = take DETAIL_WIDTH
     ((if timed_out then ''timed out: '' else ''drained: '') @
      nat_digits (n_processed w) @ '' processed, '' @ nat_digits (n_failed w) @ '' failed, '' @
      nat_digits (n_deferred w) @ '' deferred'')"

definition stamp_closed :: "instant \<Rightarrow> rendered list \<Rightarrow> job list \<Rightarrow> run \<Rightarrow> run" where
  "stamp_closed now ds js r =
     (let w = window_counts (r_started r) now ds js;
          timed_out = outstanding (r_started r) js \<noteq> 0
      in r\<lparr>r_finished := Some now, r_status := (if timed_out then ''timed_out'' else ''ok''),
           r_detail := Some (closed_detail timed_out w),
           r_poster := Some (n_poster w), r_season_poster := Some (n_season_poster w),
           r_background := Some (n_background w), r_title_card := Some (n_title_card w),
           r_processed := Some (n_processed w), r_failed := Some (n_failed w),
           r_deferred := Some (n_deferred w)\<rparr>)"

fun close_loop :: "instant \<Rightarrow> rendered list \<Rightarrow> job list \<Rightarrow> run list \<Rightarrow> run list \<times> (instant \<times> instant) list \<Rightarrow>
    run list \<times> (instant \<times> instant) list" where
  "close_loop now ds js [] acc = acc"
| "close_loop now ds js (q # qs) (rs, windows) =
     (if holds_open now js q then (rs, windows)
      else close_loop now ds js qs
        (update_where (\<lambda>r. r_id r = r_id q \<and> is_open r) (stamp_closed now ds js) rs,
         windows @ [(r_started q, now)]))"

definition open_passes :: "run list \<Rightarrow> run list" where
  "open_passes rs = sort_key r_id (filter (\<lambda>r. r_kind r = ''full_pass'' \<and> is_open r) rs)"

definition close_drained_full_passes ::
  "instant \<Rightarrow> rendered list \<Rightarrow> job list \<Rightarrow> run_tab \<Rightarrow> run_tab \<times> nat \<times> (instant \<times> instant) list" where
  "close_drained_full_passes now ds js t =
     (let (rs, windows) = close_loop now ds js (open_passes (runs t)) (runs t, []);
          t' = t\<lparr>runs := rs\<rparr>
      in if windows = [] then (t', 0, windows)
         else (fst (trim_run_history RUN_HISTORY_KEEP (Some ''full_pass'') (Some ''full_pass'') t'),
               length windows, windows))"

subsection \<open>Lemmas\<close>

definition wf_runs :: "run_tab \<Rightarrow> bool" where
  "wf_runs t \<longleftrightarrow> distinct (map r_id (runs t)) \<and> (\<forall>r \<in> set (runs t). r_id r < run_next t)"

lemma map_id_update: "(\<And>r. r_id (f r) = r_id r) \<Longrightarrow> map r_id (update_where P f rs) = map r_id rs"
  by (induction rs) auto

lemma stamp_closed_sel [simp]:
  "r_id (stamp_closed now ds js r) = r_id r" "r_name (stamp_closed now ds js r) = r_name r"
  "r_kind (stamp_closed now ds js r) = r_kind r" "r_started (stamp_closed now ds js r) = r_started r"
  by (simp_all add: stamp_closed_def Let_def)

lemma update_where_other:
  "(\<And>r. r \<in> set rs \<Longrightarrow> \<not> P r) \<Longrightarrow> update_where P f rs = rs"
  by (induction rs) auto

text \<open>The loop closes the open passes up to the first that still holds, and stamps just those.\<close>

lemma close_loop_spec:
  "close_loop now ds js qs (rs, ws) =
     (fold (\<lambda>q. update_where (\<lambda>r. r_id r = r_id q \<and> is_open r) (stamp_closed now ds js))
        (takeWhile (\<lambda>q. \<not> holds_open now js q) qs) rs,
      ws @ map (\<lambda>q. (r_started q, now)) (takeWhile (\<lambda>q. \<not> holds_open now js q) qs))"
  by (induction qs arbitrary: rs ws) auto

lemma stamp_closed_closed: "\<not> is_open (stamp_closed now ds js r)"
  by (simp add: is_open_def stamp_closed_def Let_def)

lemma update_update:
  "(\<And>r. P r \<Longrightarrow> \<not> Q (f r)) \<Longrightarrow>
     update_where Q f (update_where P f rs) = update_where (\<lambda>r. P r \<or> Q r) f rs"
  by (induction rs) auto

lemma fold_update:
  "fold (\<lambda>q. update_where (\<lambda>r. r_id r = r_id q \<and> is_open r) (stamp_closed now ds js)) qs rs =
     update_where (\<lambda>r. r_id r \<in> r_id ` set qs \<and> is_open r) (stamp_closed now ds js) rs"
proof (induction qs arbitrary: rs)
  case Nil
  then show ?case by (simp add: update_where_def)
next
  case (Cons q qs)
  have "update_where (\<lambda>r. r_id r \<in> r_id ` set qs \<and> is_open r) (stamp_closed now ds js)
      (update_where (\<lambda>r. r_id r = r_id q \<and> is_open r) (stamp_closed now ds js) rs) =
    update_where (\<lambda>r. r_id r = r_id q \<and> is_open r \<or> r_id r \<in> r_id ` set qs \<and> is_open r)
      (stamp_closed now ds js) rs"
    by (rule update_update) (simp add: stamp_closed_closed)
  moreover have "(\<lambda>r. r_id r = r_id q \<and> is_open r \<or> r_id r \<in> r_id ` set qs \<and> is_open r) =
      (\<lambda>r. r_id r \<in> r_id ` set (q # qs) \<and> is_open r)"
    by (rule ext) (simp; blast)
  ultimately show ?case using Cons.IH by simp
qed

lemma close_drained_before_trim:
  assumes "close_drained_full_passes now ds js t = (t', n, ws)"
  defines "closing \<equiv> takeWhile (\<lambda>q. \<not> holds_open now js q) (open_passes (runs t))"
  defines "stamped \<equiv> t\<lparr>runs := update_where (\<lambda>r. r_id r \<in> r_id ` set closing \<and> is_open r)
     (stamp_closed now ds js) (runs t)\<rparr>"
  shows "ws = map (\<lambda>q. (r_started q, now)) closing" and "n = length closing"
    and "t' = (if closing = [] then stamped
      else fst (trim_run_history RUN_HISTORY_KEEP (Some ''full_pass'') (Some ''full_pass'') stamped))"
  using assms(1)
  by (auto simp: close_drained_full_passes_def close_loop_spec fold_update closing_def stamped_def Let_def
      split: if_splits)

text \<open>Ranks: the trim keeps the newest rows of each name.\<close>

lemma newer_trans: "newer a b \<Longrightarrow> newer b c \<Longrightarrow> newer a c"
  by (auto simp: newer_def less_prod_def)

lemma newer_irrefl [simp]: "\<not> newer r r"
  by (simp add: newer_def)

lemma newer_linear: "r_id a \<noteq> r_id b \<Longrightarrow> newer a b \<or> newer b a"
  by (auto simp: newer_def less_prod_def)

lemma filter_grows:
  assumes "\<And>p. A p \<Longrightarrow> B p" and "\<not> A q" and "B q"
  shows "length (filter A xs) + (if q \<in> set xs then 1 else 0) \<le> length (filter B xs)"
proof (induction xs)
  case Nil
  then show ?case by simp
next
  case (Cons x xs)
  then show ?case using assms(2,3) assms(1) [of x] by (cases "x = q") auto
qed

lemma newer_rank:
  assumes "q \<in> set rs" and "r_name q = r_name r" and "newer q r"
  shows "run_rank rs q < run_rank rs r"
proof -
  have "length (filter (\<lambda>p. r_name p = r_name q \<and> newer p q) rs) + (if q \<in> set rs then 1 else 0) \<le>
      length (filter (\<lambda>p. r_name p = r_name r \<and> newer p r) rs)"
    by (rule filter_grows) (use assms(2,3) newer_trans in auto)
  with assms(1) show ?thesis by (simp add: run_rank_def)
qed

end
