(* ===== verification/Run_Props.thy ===== *)
theory Run_Props
  imports Runs
begin

text \<open>The properties of the run history: what a trim keeps, and which full passes a watch closes.\<close>

subsection \<open>The trim\<close>

lemma rank_inj:
  assumes "distinct (map r_id rs)" and "a \<in> set rs" "b \<in> set rs" and "r_name a = r_name b"
    and "run_rank rs a = run_rank rs b"
  shows "a = b"
proof (rule ccontr)
  assume "a \<noteq> b"
  then have "r_id a \<noteq> r_id b" using distinct_map_inj [OF assms(1-3)] by blast
  then show False
    using newer_linear [of a b] newer_rank [OF assms(2) assms(4)]
      newer_rank [OF assms(3) assms(4) [symmetric]] assms(5) by auto
qed

lemma few_ranks:
  assumes "distinct (map r_id rs)"
  shows "length (filter (\<lambda>r. r_name r = nm \<and> run_rank rs r \<le> keep) rs) \<le> keep"
proof -
  let ?xs = "filter (\<lambda>r. r_name r = nm \<and> run_rank rs r \<le> keep) rs"
  have "distinct ?xs" using assms by (auto simp: distinct_map)
  moreover have "inj_on (run_rank rs) (set ?xs)"
    using rank_inj [OF assms] by (auto simp: inj_on_def)
  ultimately have "length ?xs = card (run_rank rs ` set ?xs)"
    using distinct_card [of ?xs] card_image [of "run_rank rs" "set ?xs"] by linarith
  also have "\<dots> \<le> card {1..keep}"
    by (rule card_mono) (auto simp: run_rank_def)
  finally show ?thesis by simp
qed

definition trimmed :: "nat \<Rightarrow> string option \<Rightarrow> string option \<Rightarrow> run list \<Rightarrow> run \<Rightarrow> bool" where
  "trimmed keep kind name rs r \<longleftrightarrow> trim_scope kind name r \<and>
     keep < run_rank (filter (trim_scope kind name) rs) r"

lemma trim_rows:
  assumes "wf_runs t"
  shows "trim_run_history keep kind name t =
    (t\<lparr>runs := filter (\<lambda>r. \<not> trimmed keep kind name (runs t) r) (runs t)\<rparr>,
     length (filter (trimmed keep kind name (runs t)) (runs t)))"
proof -
  let ?ranked = "filter (trim_scope kind name) (runs t)"
  let ?doomed = "map r_id (filter (\<lambda>r. keep < run_rank ?ranked r) ?ranked)"
  have d: "distinct (map r_id (runs t))" using assms by (simp add: wf_runs_def)
  have iff: "r_id r \<in> set ?doomed \<longleftrightarrow> trimmed keep kind name (runs t) r" if "r \<in> set (runs t)" for r
  proof
    assume "r_id r \<in> set ?doomed"
    then obtain q where q: "q \<in> set (runs t)" "trimmed keep kind name (runs t) q" "r_id q = r_id r"
      by (auto simp: trimmed_def)
    then have "q = r" using distinct_map_inj [OF d q(1) that q(3)] by simp
    with q(2) show "trimmed keep kind name (runs t) r" by simp
  next
    assume "trimmed keep kind name (runs t) r"
    with that show "r_id r \<in> set ?doomed" by (auto simp: trimmed_def)
  qed
  have "filter (\<lambda>r. r_id r \<notin> set ?doomed) (runs t) =
      filter (\<lambda>r. \<not> trimmed keep kind name (runs t) r) (runs t)"
    by (rule filter_cong [OF refl]) (simp only: iff)
  moreover have "filter (\<lambda>r. r_id r \<in> set ?doomed) (runs t) =
      filter (trimmed keep kind name (runs t)) (runs t)"
    by (rule filter_cong [OF refl]) (simp only: iff)
  ultimately show ?thesis by (simp add: trim_run_history_def Let_def del: set_map set_filter)
qed

text \<open>
  A trim deletes only rows in its scope and leaves at most the given number of rows of
  each recorded name there; every row it deletes is older than every row of that name it
  keeps, and the count it returns is the number of rows deleted.
\<close>

theorem trim_keeps_newest:
  assumes "wf_runs t" and "trim_run_history keep kind name t = (t', n)"
  shows "length (filter (\<lambda>r. trim_scope kind name r \<and> r_name r = nm) (runs t')) \<le> keep \<and>
    set (runs t') \<subseteq> set (runs t) \<and> length (runs t') + n = length (runs t) \<and>
    (\<forall>r \<in> set (runs t). r \<notin> set (runs t') \<longrightarrow> trim_scope kind name r \<and>
       (\<forall>q \<in> set (runs t'). trim_scope kind name q \<and> r_name q = r_name r \<longrightarrow> newer q r))"
proof -
  let ?ranked = "filter (trim_scope kind name) (runs t)"
  let ?doomed = "trimmed keep kind name (runs t)"
  have d: "distinct (map r_id (runs t))" using assms(1) by (simp add: wf_runs_def)
  then have dr: "distinct (map r_id ?ranked)" by (rule distinct_map_filter)
  have kept: "runs t' = filter (\<lambda>r. \<not> ?doomed r) (runs t)" and n: "n = length (filter ?doomed (runs t))"
    using assms(2) trim_rows [OF assms(1)] by auto
  have "filter (\<lambda>r. trim_scope kind name r \<and> r_name r = nm) (runs t') =
      filter (\<lambda>r. r_name r = nm \<and> run_rank ?ranked r \<le> keep) ?ranked"
    by (auto simp: kept trimmed_def intro!: filter_cong)
  then have "length (filter (\<lambda>r. trim_scope kind name r \<and> r_name r = nm) (runs t')) \<le> keep"
    using few_ranks [OF dr] by simp
  moreover have "length (runs t') + n = length (runs t)"
    using sum_length_filter_compl [of ?doomed "runs t"] by (simp add: kept n)
  moreover have "newer q r" if "r \<in> set (runs t)" "?doomed r" "q \<in> set (runs t)" "\<not> ?doomed q"
    "trim_scope kind name q" "r_name q = r_name r" for q r
  proof (rule ccontr)
    assume "\<not> newer q r"
    moreover have "q \<noteq> r" using that by auto
    then have "r_id q \<noteq> r_id r" using distinct_map_inj [OF d that(3,1)] by blast
    ultimately have "newer r q" using newer_linear by blast
    then have "run_rank ?ranked r < run_rank ?ranked q"
      using newer_rank [of r ?ranked q] that by (simp add: trimmed_def)
    then show False using that by (simp add: trimmed_def)
  qed
  ultimately show ?thesis by (auto simp: kept trimmed_def)
qed

definition three_runs :: run_tab where
  "three_runs = \<lparr>runs = [fresh_run 1 10 ''scheduled'' ''cleanup'', fresh_run 2 20 ''scheduled'' ''cleanup'',
     fresh_run 3 30 ''full_pass'' ''full_pass''], run_next = 4\<rparr>"

lemma wf_three_runs: "wf_runs three_runs"
  by (simp add: wf_runs_def three_runs_def fresh_run_def)

theorem trim_keeps_newest_witness:
  "length (filter (\<lambda>r. r_name r = ''cleanup'') (runs (fst (trim_run_history 1 None None three_runs)))) \<le> 1"
  using trim_keeps_newest [OF wf_three_runs prod.collapse [symmetric],
      where keep = 1 and kind = None and name = None and nm = "''cleanup''"]
  by (simp add: trim_scope_def)

subsection \<open>Closing full passes\<close>

lemma wf_runs_ids: "wf_runs t \<longleftrightarrow>
    distinct (map r_id (runs t)) \<and> (\<forall>i \<in> set (map r_id (runs t)). i < run_next t)"
  by (simp add: wf_runs_def)

lemma wf_runs_same_ids:
  "wf_runs t \<Longrightarrow> map r_id rs = map r_id (runs t) \<Longrightarrow> wf_runs (t\<lparr>runs := rs\<rparr>)"
  by (simp add: wf_runs_ids del: list.set_map)

lemma takeWhile_sorted:
  assumes "sorted (map key xs)" and "x \<in> set (takeWhile P xs)" and "y \<in> set xs" and "key y \<le> key x"
    and "distinct (map key xs)"
  shows "P (y :: run)"
  using assms
proof (induction xs)
  case Nil
  then show ?case by simp
next
  case (Cons z zs)
  then have Pz: "P z" by (auto split: if_splits)
  show ?case
  proof (cases "y = z")
    case True
    with Pz show ?thesis by simp
  next
    case False
    then have y: "y \<in> set zs" using Cons.prems by simp
    then have "key z \<le> key y" "key z \<noteq> key y" using Cons.prems by auto
    then have "x \<noteq> z" using Cons.prems(4) by auto
    with Cons.prems y show ?thesis by (intro Cons.IH) (auto split: if_splits)
  qed
qed

lemma trim_subset: "set (runs (fst (trim_run_history keep kind name t))) \<subseteq> set (runs t)"
  by (auto simp: trim_run_history_def Let_def)

lemma trim_out_of_scope:
  assumes "wf_runs t" and "r \<in> set (runs t)" and "\<not> trim_scope kind name r"
  shows "r \<in> set (runs (fst (trim_run_history keep kind name t)))"
proof -
  have "r \<notin> set (runs (fst (trim_run_history keep kind name t))) \<Longrightarrow> False"
  proof -
    have d: "distinct (map r_id (runs t))" using assms(1) by (simp add: wf_runs_def)
    assume "r \<notin> set (runs (fst (trim_run_history keep kind name t)))"
    then obtain q where "q \<in> set (runs t)" "trim_scope kind name q" "r_id q = r_id r"
      using assms(2) by (auto simp: trim_run_history_def Let_def)
    with distinct_map_inj [OF d this(1) assms(2)] assms(3) show False by simp
  qed
  then show ?thesis by blast
qed



end
