(* ===== verification/Presence.thy ===== *)
theory Presence
  imports Outcome_Props
begin

text \<open>
  Which libraries a server carries (\<open>servers/presence.py\<close>): the set-shaped statements that
  stamp \<open>absent\<close> where a library is not carried and re-arm where one is, the set-shaped
  roll-up, and the reading of the servers' answers.
\<close>

subsection \<open>The catalogue the statements join with\<close>

record item =
  it_id :: nat
  it_library :: string

record render =
  rn_id :: nat
  rn_item :: nat
  rn_kind :: string
  rn_status :: string
  rn_badge :: "string option"

record catalog =
  cat_items :: "item list"
  cat_renders :: "render list"
  cat_facts :: "nat list"
  cat_overrides :: "nat list"

definition ABSENT_DETAIL :: string where
  "ABSENT_DETAIL = ''library: not carried by this server''"

definition item_of :: "catalog \<Rightarrow> nat \<Rightarrow> item option" where
  "item_of cat i = List.find (\<lambda>x. it_id x = i) (cat_items cat)"

definition item_ids :: "(string \<Rightarrow> bool) \<Rightarrow> catalog \<Rightarrow> nat list" where
  "item_ids P cat = map it_id (filter (\<lambda>x. P (it_library x)) (cat_items cat))"

text \<open>The renders of such items that any server may be owed: never a background.\<close>

definition in_library :: "(string \<Rightarrow> bool) \<Rightarrow> catalog \<Rightarrow> render \<Rightarrow> bool" where
  "in_library P cat r = (case item_of cat (rn_item r) of None \<Rightarrow> False | Some x \<Rightarrow> P (it_library x))"

definition art_ids :: "(string \<Rightarrow> bool) \<Rightarrow> catalog \<Rightarrow> nat list" where
  "art_ids P cat = map rn_id (filter (\<lambda>r. in_library P cat r \<and> rn_kind r \<noteq> ''background'') (cat_renders cat))"

subsection \<open>Set-shaped statements on an outcome table\<close>

text \<open>
  \<open>INSERT ... SELECT ... ON CONFLICT DO UPDATE SET ... WHERE\<close>, one selected key after the
  other, and its row count; \<open>DO NOTHING\<close> is the condition that never holds.
\<close>

fun insert_select ::
  "string \<Rightarrow> (nat \<Rightarrow> nat \<Rightarrow> outcome_row) \<Rightarrow> (outcome_row \<Rightarrow> bool) \<Rightarrow> (outcome_row \<Rightarrow> outcome_row) \<Rightarrow>
   nat list \<Rightarrow> outcome_tab \<Rightarrow> outcome_tab \<times> nat" where
  "insert_select s mk cond upd [] t = (t, 0)"
| "insert_select s mk cond upd (k # ks) t =
     (let t' = t\<lparr>o_next := Suc (o_next t)\<rparr>;
          (t1, n) = (case look t k s of
             None \<Rightarrow> (t'\<lparr>o_rows := o_rows t @ [mk (o_next t) k]\<rparr>, 1)
           | Some r \<Rightarrow>
               if cond r then (t'\<lparr>o_rows := update_where (at_key k s) (\<lambda>_. upd r) (o_rows t)\<rparr>, 1)
               else (t', 0));
          (t2, m) = insert_select s mk cond upd ks t1
      in (t2, n + m))"

declare insert_select.simps(2) [simp del]

definition update_rows ::
  "(outcome_row \<Rightarrow> bool) \<Rightarrow> (outcome_row \<Rightarrow> outcome_row) \<Rightarrow> outcome_tab \<Rightarrow> outcome_tab \<times> nat" where
  "update_rows P f t = (t\<lparr>o_rows := update_where P f (o_rows t)\<rparr>, length (filter P (o_rows t)))"

definition delete_rows :: "(outcome_row \<Rightarrow> bool) \<Rightarrow> outcome_tab \<Rightarrow> outcome_tab \<times> nat" where
  "delete_rows P t = (t\<lparr>o_rows := filter (\<lambda>r. \<not> P r) (o_rows t)\<rparr>, length (filter P (o_rows t)))"

subsection \<open>apply\_presence\<close>

definition blank_row :: "instant \<Rightarrow> string \<Rightarrow> status \<Rightarrow> string option \<Rightarrow> instant option \<Rightarrow> nat option \<Rightarrow>
    nat \<Rightarrow> nat \<Rightarrow> outcome_row" where
  "blank_row now s st detail hz run i k =
     \<lparr>o_id = i, o_key = k, o_server = s, o_status = st, o_detail = detail, o_attempts = 0,
      attempted_at = Some now, terminal_at = None, next_attempt_at = hz, fingerprint = None,
      o_run_id = run, previous_status = None\<rparr>"

definition absent_update :: "instant \<Rightarrow> outcome_row \<Rightarrow> outcome_row" where
  "absent_update now r = r\<lparr>o_status := S_absent, o_detail := Some ABSENT_DETAIL,
     attempted_at := Some now, next_attempt_at := None, o_attempts := 0\<rparr>"

text \<open>\<open>_KEEP_METADATA\<close> and \<open>_KEEP_ARTWORK\<close>: the terminal word of the table, and \<open>absent\<close>.\<close>

definition reclassified :: "status \<Rightarrow> outcome_row \<Rightarrow> bool" where
  "reclassified terminal r \<longleftrightarrow> o_status r \<noteq> terminal \<and> o_status r \<noteq> S_absent"

definition stamp_absent ::
  "instant \<Rightarrow> string \<Rightarrow> status \<Rightarrow> nat list \<Rightarrow> outcome_tab \<Rightarrow> outcome_tab \<times> nat" where
  "stamp_absent now s terminal keys t = insert_select s
     (blank_row now s S_absent (Some ABSENT_DETAIL) None None)
     (reclassified terminal) (absent_update now) keys t"

definition rearm_update :: "instant \<Rightarrow> outcome_row \<Rightarrow> outcome_row" where
  "rearm_update now r = r\<lparr>o_status := S_pending, o_detail := None, next_attempt_at := Some now,
     o_attempts := 0\<rparr>"

definition rearm_absent :: "instant \<Rightarrow> string \<Rightarrow> nat list \<Rightarrow> outcome_tab \<Rightarrow> outcome_tab \<times> nat" where
  "rearm_absent now s keys t = update_rows
     (\<lambda>r. o_server r = s \<and> o_status r = S_absent \<and> o_key r \<in> set keys) (rearm_update now) t"

type_synonym cols = "nat \<Rightarrow> render_cols"

text \<open>
  The set-shaped ladder over the chosen renders that have any row, and how many it changed;
  a render with no row keeps the status it carries.
\<close>

definition rollup_renders :: "(nat \<Rightarrow> bool) \<Rightarrow> outcome_tab \<Rightarrow> cols \<Rightarrow> cols \<times> nat" where
  "rollup_renders chosen t c =
     (let keys = remdups (map o_key (filter (\<lambda>r. chosen (o_key r)) (o_rows t)));
          changed = filter (\<lambda>k. upload_status (c k) \<noteq> rollup_status (o_rows t) k) keys
      in (\<lambda>k. if k \<in> set changed then (c k)\<lparr>upload_status := rollup_status (o_rows t) k\<rparr> else c k,
          length changed))"

definition stamped_at :: "string \<Rightarrow> instant \<Rightarrow> outcome_row \<Rightarrow> bool" where
  "stamped_at s now r \<longleftrightarrow> o_server r = s \<and>
     (o_status r = S_absent \<and> attempted_at r = Some now \<or>
      o_status r = S_pending \<and> next_attempt_at r = Some now)"

definition rollup_stamped_renders :: "string \<Rightarrow> instant \<Rightarrow> outcome_tab \<Rightarrow> cols \<Rightarrow> cols \<times> nat" where
  "rollup_stamped_renders s now t c =
     rollup_renders (\<lambda>k. k \<in> o_key ` set (filter (stamped_at s now) (o_rows t))) t c"

text \<open>The rows presence and the catch-up write: both tables and the renders' roll-up.\<close>

record outcomes =
  arts :: outcome_tab
  metas :: outcome_tab
  ups :: cols

record presence_counts =
  meta_absent :: nat
  meta_rearmed :: nat
  art_absent :: nat
  art_rearmed :: nat

definition apply_presence ::
  "instant \<Rightarrow> string \<Rightarrow> string list \<Rightarrow> catalog \<Rightarrow> outcomes \<Rightarrow> outcomes \<times> presence_counts" where
  "apply_presence now s carried cat o0 =
     (let away = (\<lambda>lib. lib \<notin> set carried);
          here = (\<lambda>lib. lib \<in> set carried);
          (w1, ma) = stamp_absent now s S_written (item_ids away cat) (metas o0);
          (d1, aa) = stamp_absent now s S_uploaded (art_ids away cat) (arts o0);
          (w2, mr) = (if carried = [] then (w1, 0) else rearm_absent now s (item_ids here cat) w1);
          (d2, ar) = (if carried = [] then (d1, 0) else rearm_absent now s (art_ids here cat) d1);
          c = (if aa \<noteq> 0 \<or> ar \<noteq> 0 then fst (rollup_stamped_renders s now d2 (ups o0)) else ups o0)
      in (\<lparr>arts = d2, metas = w2, ups = c\<rparr>,
          \<lparr>meta_absent = ma, meta_rearmed = mr, art_absent = aa, art_rearmed = ar\<rparr>))"

text \<open>
  \<open>read_presence\<close>: a server that cannot answer, or answers with no library, has no entry.
  An answer is \<open>None\<close> when the listing raised.
\<close>

fun read_presence :: "(string \<times> string list option) list \<Rightarrow> (string \<times> string list) list" where
  "read_presence [] = []"
| "read_presence ((name, ans) # rest) = (case ans of
     None \<Rightarrow> read_presence rest
   | Some libs \<Rightarrow> if libs = [] then read_presence rest else (name, libs) # read_presence rest)"

fun refresh_presence ::
  "instant \<Rightarrow> catalog \<Rightarrow> (string \<times> string list) list \<Rightarrow> outcomes \<Rightarrow>
   outcomes \<times> (string \<times> presence_counts) list" where
  "refresh_presence now cat [] o0 = (o0, [])"
| "refresh_presence now cat ((name, libs) # rest) o0 =
     (let (o1, n) = apply_presence now name libs cat o0;
          (o2, ns) = refresh_presence now cat rest o1
      in (o2, (name, n) # ns))"

text \<open>One row per key and server: all a set-shaped statement relies on.\<close>

definition keyed :: "outcome_tab \<Rightarrow> bool" where
  "keyed t \<longleftrightarrow> distinct (map (\<lambda>r. (o_key r, o_server r)) (o_rows t))"

subsection \<open>The set-shaped insert as an update of the table's map\<close>

locale set_insert =
  fixes s :: string and mk :: "nat \<Rightarrow> nat \<Rightarrow> outcome_row" and cond :: "outcome_row \<Rightarrow> bool"
    and upd :: "outcome_row \<Rightarrow> outcome_row"
  assumes mk_key: "o_key (mk i k) = k" "o_server (mk i k) = s"
    and upd_key: "o_key (upd r) = o_key r" "o_server (upd r) = o_server r"
begin

definition wanted :: "outcome_tab \<Rightarrow> nat \<Rightarrow> bool" where
  "wanted t k \<longleftrightarrow> (case look t k s of None \<Rightarrow> True | Some r \<Rightarrow> cond r)"

lemma insert_step:
  obtains t1 where "insert_select s mk cond upd (k # ks) t =
      (fst (insert_select s mk cond upd ks t1),
       (if wanted t k then 1 else 0) + snd (insert_select s mk cond upd ks t1))"
    and "\<forall>k' s'. (k', s') \<noteq> (k, s) \<longrightarrow> look t1 k' s' = look t k' s'"
    and "look t1 k s = (case look t k s of None \<Rightarrow> Some (mk (o_next t) k)
      | Some r \<Rightarrow> Some (if cond r then upd r else r))"
    and "keyed t \<longrightarrow> keyed t1"
proof -
  let ?t' = "t\<lparr>o_next := Suc (o_next t)\<rparr>"
  define t1 where "t1 = (case look t k s of
       None \<Rightarrow> ?t'\<lparr>o_rows := o_rows t @ [mk (o_next t) k]\<rparr>
     | Some r \<Rightarrow>
         if cond r then ?t'\<lparr>o_rows := update_where (at_key k s) (\<lambda>_. upd r) (o_rows t)\<rparr> else ?t')"
  have "(\<forall>k' s'. (k', s') \<noteq> (k, s) \<longrightarrow> look t1 k' s' = look t k' s') \<and>
      look t1 k s = (case look t k s of None \<Rightarrow> Some (mk (o_next t) k)
      | Some r \<Rightarrow> Some (if cond r then upd r else r))"
  proof (cases "look t k s")
    case None
    then show ?thesis
      by (auto simp: t1_def look_def find_append at_key_def mk_key split: option.split)
  next
    case (Some r)
    have "at_key k s (upd r)" using look_mem [OF Some] by (simp add: at_key_def upd_key)
    from find_update_where [OF this] Some show ?thesis
      by (auto simp: t1_def look_def)
  qed
  moreover have "keyed t \<longrightarrow> keyed t1"
  proof (cases "look t k s")
    case None
    then have "(k, s) \<notin> (\<lambda>r. (o_key r, o_server r)) ` set (o_rows t)" by (simp add: look_None)
    then show ?thesis using None by (auto simp: t1_def keyed_def mk_key)
  next
    case (Some r)
    have "map (\<lambda>r. (o_key r, o_server r)) (update_where (at_key k s) (\<lambda>_. upd r) rs) =
        map (\<lambda>r. (o_key r, o_server r)) rs" for rs
      using look_mem [OF Some] by (induction rs) (auto simp: at_key_def upd_key)
    then show ?thesis using Some by (simp add: t1_def keyed_def)
  qed
  moreover have "insert_select s mk cond upd (k # ks) t =
      (fst (insert_select s mk cond upd ks t1),
       (if wanted t k then 1 else 0) + snd (insert_select s mk cond upd ks t1))"
    by (simp add: insert_select.simps(2) t1_def wanted_def Let_def split: option.split prod.split)
  ultimately show thesis using that by blast
qed

lemma keyed_insert: "keyed t \<Longrightarrow> keyed (fst (insert_select s mk cond upd ks t))"
proof (induction ks arbitrary: t)
  case Nil
  then show ?case by simp
next
  case (Cons k ks)
  obtain t1 where "insert_select s mk cond upd (k # ks) t =
      (fst (insert_select s mk cond upd ks t1),
       (if wanted t k then 1 else 0) + snd (insert_select s mk cond upd ks t1))"
    "keyed t \<longrightarrow> keyed t1"
    by (rule insert_step)
  with Cons show ?case by simp
qed

lemma look_other:
  "(s' \<noteq> s \<or> k' \<notin> set ks) \<Longrightarrow> look (fst (insert_select s mk cond upd ks t)) k' s' = look t k' s'"
proof (induction ks arbitrary: t)
  case Nil
  then show ?case by simp
next
  case (Cons k ks)
  obtain t1 where t1: "insert_select s mk cond upd (k # ks) t =
      (fst (insert_select s mk cond upd ks t1),
       (if wanted t k then 1 else 0) + snd (insert_select s mk cond upd ks t1))"
    "\<forall>k' s'. (k', s') \<noteq> (k, s) \<longrightarrow> look t1 k' s' = look t k' s'"
    by (rule insert_step)
  show ?case using Cons.IH [of t1] Cons.prems t1(2) by (auto simp: t1(1))
qed

lemma look_inserted:
  assumes "distinct ks" and "k' \<in> set ks"
  shows "\<exists>i. look (fst (insert_select s mk cond upd ks t)) k' s =
    (case look t k' s of None \<Rightarrow> Some (mk i k') | Some r \<Rightarrow> Some (if cond r then upd r else r))"
  using assms
proof (induction ks arbitrary: t)
  case Nil
  then show ?case by simp
next
  case (Cons k ks)
  obtain t1 where t1: "insert_select s mk cond upd (k # ks) t =
      (fst (insert_select s mk cond upd ks t1),
       (if wanted t k then 1 else 0) + snd (insert_select s mk cond upd ks t1))"
    "\<forall>k' s'. (k', s') \<noteq> (k, s) \<longrightarrow> look t1 k' s' = look t k' s'"
    "look t1 k s = (case look t k s of None \<Rightarrow> Some (mk (o_next t) k)
      | Some r \<Rightarrow> Some (if cond r then upd r else r))"
    by (rule insert_step)
  show ?case
  proof (cases "k' = k")
    case True
    then have "look (fst (insert_select s mk cond upd (k # ks) t)) k' s = look t1 k s"
      using look_other [of s k ks t1] Cons.prems(1) by (simp add: t1(1))
    with t1(3) True show ?thesis by auto
  next
    case False
    then show ?thesis using Cons.IH [of t1] Cons.prems t1(2) by (simp add: t1(1))
  qed
qed

lemma insert_count:
  "distinct ks \<Longrightarrow> snd (insert_select s mk cond upd ks t) = length (filter (wanted t) ks)"
proof (induction ks arbitrary: t)
  case Nil
  then show ?case by simp
next
  case (Cons k ks)
  obtain t1 where t1: "insert_select s mk cond upd (k # ks) t =
      (fst (insert_select s mk cond upd ks t1),
       (if wanted t k then 1 else 0) + snd (insert_select s mk cond upd ks t1))"
    "\<forall>k' s'. (k', s') \<noteq> (k, s) \<longrightarrow> look t1 k' s' = look t k' s'"
    by (rule insert_step)
  have "filter (wanted t1) ks = filter (wanted t) ks"
  proof (rule filter_cong [OF refl])
    fix x assume "x \<in> set ks"
    then have "x \<noteq> k" using Cons.prems by auto
    then have "look t1 x s = look t x s" using t1(2) by simp
    then show "wanted t1 x = wanted t x" by (simp add: wanted_def)
  qed
  then show ?case using Cons.IH [of t1] Cons.prems by (simp add: t1(1))
qed

end

interpretation absent_insert: set_insert s "blank_row now s S_absent (Some ABSENT_DETAIL) None None"
    "reclassified terminal" "absent_update now" for s now terminal
  by unfold_locales (simp_all add: blank_row_def absent_update_def)

lemma look_update_rows:
  assumes "\<And>r. o_key (f r) = o_key r" and "\<And>r. o_server (f r) = o_server r"
  shows "look (fst (update_rows P f t)) k s = map_option (\<lambda>r. if P r then f r else r) (look t k s)"
proof -
  have "List.find (at_key k s) (update_where P f rs) =
      map_option (\<lambda>r. if P r then f r else r) (List.find (at_key k s) rs)" for rs
    using assms by (induction rs) (auto simp: at_key_def)
  then show ?thesis by (simp add: look_def update_rows_def)
qed

subsection \<open>Set-shaped updates and deletions\<close>

lemma keyed_look: "keyed t \<Longrightarrow> r \<in> set (o_rows t) \<longleftrightarrow> look t (o_key r) (o_server r) = Some r"
proof
  assume k: "keyed t" and r: "r \<in> set (o_rows t)"
  obtain q where q: "look t (o_key r) (o_server r) = Some q"
    using r look_None [of t "o_key r" "o_server r"] by (cases "look t (o_key r) (o_server r)") auto
  from look_mem [OF q] have "q \<in> set (o_rows t)" "o_key q = o_key r" "o_server q = o_server r" by auto
  with k r have "q = r" by (auto simp: keyed_def distinct_map inj_on_def)
  with q show "look t (o_key r) (o_server r) = Some r" by simp
qed (use look_mem in blast)

lemma keyed_update_rows:
  assumes "keyed t" and "\<And>r. o_key (f r) = o_key r" and "\<And>r. o_server (f r) = o_server r"
  shows "keyed (fst (update_rows P f t))"
proof -
  have "map (\<lambda>r. (o_key r, o_server r)) (update_where P f rs) = map (\<lambda>r. (o_key r, o_server r)) rs" for rs
    using assms(2,3) by (induction rs) auto
  with assms(1) show ?thesis by (simp add: keyed_def update_rows_def)
qed

lemma keyed_delete_rows: "keyed t \<Longrightarrow> keyed (fst (delete_rows P t))"
  by (simp add: keyed_def delete_rows_def distinct_map_filter)

lemma look_delete_rows:
  assumes "keyed t"
  shows "look (fst (delete_rows P t)) k s = (case look t k s of None \<Rightarrow> None
    | Some r \<Rightarrow> if P r then None else Some r)"
proof (cases "look t k s")
  case None
  then have "look (fst (delete_rows P t)) k s = None"
    by (auto simp: look_None delete_rows_def)
  with None show ?thesis by simp
next
  case (Some r)
  note m = look_mem [OF Some]
  show ?thesis
  proof (cases "P r")
    case True
    have "look (fst (delete_rows P t)) k s = None"
    proof (rule ccontr)
      assume "look (fst (delete_rows P t)) k s \<noteq> None"
      then obtain q where "look (fst (delete_rows P t)) k s = Some q" by blast
      from look_mem [OF this] have q: "q \<in> set (o_rows t)" "\<not> P q" "o_key q = k" "o_server q = s"
        by (auto simp: delete_rows_def)
      then have "look t k s = Some q" using keyed_look [OF assms, of q] by simp
      with Some True q(2) show False by simp
    qed
    with Some True show ?thesis by simp
  next
    case False
    then have "r \<in> set (o_rows (fst (delete_rows P t)))" using m by (simp add: delete_rows_def)
    then show ?thesis
      using keyed_look [OF keyed_delete_rows [OF assms, of P], of r] m Some False by simp
  qed
qed

end
