(* ===== verification/Presence_Props.thy ===== *)
theory Presence_Props
  imports Presence
begin

text \<open>The properties of presence: reclassification, roll-up and idempotence.\<close>

subsection \<open>One table\<close>

text \<open>What both tables get: the stamp on the keys away, then the re-arm of those here.\<close>

definition presence_tab ::
  "instant \<Rightarrow> string \<Rightarrow> status \<Rightarrow> nat list \<Rightarrow> nat list \<Rightarrow> outcome_tab \<Rightarrow> outcome_tab \<times> nat \<times> nat" where
  "presence_tab now s terminal away here t =
     (let (t1, n) = stamp_absent now s terminal away t; (t2, m) = rearm_absent now s here t1
      in (t2, n, m))"

lemma presence_tab_look:
  assumes "presence_tab now s terminal away here t = (t2, n, m)" and "distinct away"
    and "set away \<inter> set here = {}"
  shows "s' \<noteq> s \<Longrightarrow> look t2 k s' = look t k s'"
    and "k \<notin> set away \<Longrightarrow> k \<notin> set here \<Longrightarrow> look t2 k s = look t k s"
    and "k \<in> set here \<Longrightarrow> look t2 k s =
      map_option (\<lambda>q. if o_status q = S_absent then rearm_update now q else q) (look t k s)"
    and "k \<in> set away \<Longrightarrow> \<exists>i. look t2 k s = Some (case look t k s of
        None \<Rightarrow> blank_row now s S_absent (Some ABSENT_DETAIL) None None i k
      | Some q \<Rightarrow> if reclassified terminal q then absent_update now q else q)"
proof -
  let ?t1 = "fst (stamp_absent now s terminal away t)"
  have t2: "t2 = fst (rearm_absent now s here ?t1)"
    using assms(1) by (auto simp: presence_tab_def Let_def split: prod.splits)
  have re: "look t2 k s' = map_option (\<lambda>r. if o_server r = s \<and> o_status r = S_absent \<and> o_key r \<in> set here
      then rearm_update now r else r) (look ?t1 k s')" for k s'
    unfolding t2 rearm_absent_def by (rule look_update_rows) (simp_all add: rearm_update_def)
  have key: "look ?t1 k s' = Some r \<Longrightarrow> o_key r = k \<and> o_server r = s'" for k s' r
    using look_mem by blast
  have off: "look t2 k s' = look ?t1 k s'" if "k \<notin> set here \<or> s' \<noteq> s" for k s'
    using that key [of k s'] by (cases "look ?t1 k s'") (auto simp: re)
  have out: "look ?t1 k s' = look t k s'" if "s' \<noteq> s \<or> k \<notin> set away" for k s'
    using absent_insert.look_other [OF that] by (simp add: stamp_absent_def)
  show "s' \<noteq> s \<Longrightarrow> look t2 k s' = look t k s'" using off out by simp
  show "k \<notin> set away \<Longrightarrow> k \<notin> set here \<Longrightarrow> look t2 k s = look t k s" using off out by simp
  show "k \<in> set here \<Longrightarrow> look t2 k s =
      map_option (\<lambda>q. if o_status q = S_absent then rearm_update now q else q) (look t k s)"
  proof -
    assume k: "k \<in> set here"
    then have "look ?t1 k s = look t k s" using out assms(3) by blast
    with k key [of k s] show ?thesis by (cases "look t k s") (auto simp: re)
  qed
  show "k \<in> set away \<Longrightarrow> \<exists>i. look t2 k s = Some (case look t k s of
        None \<Rightarrow> blank_row now s S_absent (Some ABSENT_DETAIL) None None i k
      | Some q \<Rightarrow> if reclassified terminal q then absent_update now q else q)"
  proof -
    assume k: "k \<in> set away"
    then have "look t2 k s = look ?t1 k s" using off assms(3) by blast
    moreover obtain i where "look ?t1 k s = (case look t k s of
        None \<Rightarrow> Some (blank_row now s S_absent (Some ABSENT_DETAIL) None None i k)
      | Some r \<Rightarrow> Some (if reclassified terminal r then absent_update now r else r))"
      using absent_insert.look_inserted [OF assms(2) k, of s now terminal t]
      unfolding stamp_absent_def by blast
    ultimately show ?thesis by (auto split: option.split)
  qed
qed

lemma presence_tab_keyed:
  "keyed t \<Longrightarrow> presence_tab now s terminal away here t = (t2, n, m) \<Longrightarrow> keyed t2"
  unfolding presence_tab_def stamp_absent_def rearm_absent_def
  using absent_insert.keyed_insert [of t s now terminal away]
    keyed_update_rows [where f = "rearm_update now"]
  by (auto simp: Let_def rearm_update_def split: prod.splits) (metis fst_conv)

subsection \<open>The catalogue\<close>

definition wf_catalog :: "catalog \<Rightarrow> bool" where
  "wf_catalog cat \<longleftrightarrow> distinct (map it_id (cat_items cat)) \<and> distinct (map rn_id (cat_renders cat)) \<and>
     (\<forall>r \<in> set (cat_renders cat). item_of cat (rn_item r) \<noteq> None)"

lemma item_ids_disjoint:
  assumes "wf_catalog cat"
  shows "set (item_ids (\<lambda>l. l \<notin> S) cat) \<inter> set (item_ids (\<lambda>l. l \<in> S) cat) = {}"
    and "distinct (item_ids P cat)"
  using assms distinct_map_inj [of it_id "cat_items cat"]
  by (auto simp: item_ids_def wf_catalog_def distinct_map_filter)

lemma art_ids_disjoint:
  assumes "wf_catalog cat"
  shows "set (art_ids (\<lambda>l. l \<notin> S) cat) \<inter> set (art_ids (\<lambda>l. l \<in> S) cat) = {}"
    and "distinct (art_ids P cat)"
proof -
  have d: "distinct (map rn_id (cat_renders cat))" using assms by (simp add: wf_catalog_def)
  have "False" if "a \<in> set (cat_renders cat)" "b \<in> set (cat_renders cat)" "rn_id a = rn_id b"
    "in_library (\<lambda>l. l \<notin> S) cat a" "in_library (\<lambda>l. l \<in> S) cat b" for a b
    using distinct_map_inj [OF d that(1-3)] that(4,5) by (simp add: in_library_def split: option.splits)
  then show "set (art_ids (\<lambda>l. l \<notin> S) cat) \<inter> set (art_ids (\<lambda>l. l \<in> S) cat) = {}"
    by (fastforce simp: art_ids_def)
  show "distinct (art_ids P cat)" using d by (simp add: art_ids_def distinct_map_filter)
qed

lemma apply_presence_tabs:
  assumes "apply_presence now s carried cat o0 = (o1, n)" and "carried \<noteq> []"
  shows "presence_tab now s S_written (item_ids (\<lambda>l. l \<notin> set carried) cat)
      (item_ids (\<lambda>l. l \<in> set carried) cat) (metas o0) = (metas o1, meta_absent n, meta_rearmed n)"
    and "presence_tab now s S_uploaded (art_ids (\<lambda>l. l \<notin> set carried) cat)
      (art_ids (\<lambda>l. l \<in> set carried) cat) (arts o0) = (arts o1, art_absent n, art_rearmed n)"
    and "ups o1 = (if art_absent n \<noteq> 0 \<or> art_rearmed n \<noteq> 0
      then fst (rollup_stamped_renders s now (arts o1) (ups o0)) else ups o0)"
  using assms by (auto simp: apply_presence_def presence_tab_def Let_def split: prod.splits)

subsection \<open>The roll-up\<close>

lemma rollup_renders_chosen:
  assumes "chosen k" and "k \<in> o_key ` set (o_rows t)"
  shows "upload_status (fst (rollup_renders chosen t c) k) = rollup_status (o_rows t) k"
  using assms by (auto simp: rollup_renders_def Let_def)

lemma stamped_rolled_up:
  assumes "look t k s = Some r" and "stamped_at s now r"
  shows "upload_status (fst (rollup_stamped_renders s now t c) k) = rollup_status (o_rows t) k"
  unfolding rollup_stamped_renders_def
  using look_mem [OF assms(1)] assms(2) by (intro rollup_renders_chosen) auto

lemma length_filter_pos: "x \<in> set xs \<Longrightarrow> P x \<Longrightarrow> length (filter P xs) \<noteq> 0"
  by (auto simp: filter_empty_conv)

lemma presence_rolls_up:
  assumes "wf_catalog cat" and "apply_presence now s carried cat o0 = (o1, n)" and "carried \<noteq> []"
    and "look (arts o1) k s \<noteq> look (arts o0) k s"
  shows "upload_status (ups o1 k) = rollup_status (o_rows (arts o1)) k"
proof -
  let ?away = "art_ids (\<lambda>l. l \<notin> set carried) cat" and ?here = "art_ids (\<lambda>l. l \<in> set carried) cat"
  let ?t1 = "fst (stamp_absent now s S_uploaded ?away (arts o0))"
  note tabs = apply_presence_tabs [OF assms(2,3)]
  note ad = tabs(2) art_ids_disjoint(2) [OF assms(1)] art_ids_disjoint(1) [OF assms(1)]
  note eff = presence_tab_look [OF ad]
  have n: "art_absent n = snd (stamp_absent now s S_uploaded ?away (arts o0))"
    "art_rearmed n = snd (rearm_absent now s ?here ?t1)"
    using tabs(2) by (auto simp: presence_tab_def Let_def split: prod.splits)
  have "k \<in> set ?away \<or> k \<in> set ?here" using eff(2) assms(4) by blast
  then obtain r where r: "look (arts o1) k s = Some r" "stamped_at s now r"
    and pos: "art_absent n \<noteq> 0 \<or> art_rearmed n \<noteq> 0"
  proof
    assume k: "k \<in> set ?away"
    then obtain i where i: "look (arts o1) k s = Some (case look (arts o0) k s of
        None \<Rightarrow> blank_row now s S_absent (Some ABSENT_DETAIL) None None i k
      | Some q \<Rightarrow> if reclassified S_uploaded q then absent_update now q else q)"
      using eff(4) by blast
    have "absent_insert.wanted s S_uploaded (arts o0) k"
      using i assms(4) by (cases "look (arts o0) k s") (auto simp: absent_insert.wanted_def split: if_splits)
    then have "art_absent n \<noteq> 0"
      using absent_insert.insert_count [OF ad(2)] length_filter_pos [OF k] unfolding n stamp_absent_def by simp
    moreover have "stamped_at s now (the (look (arts o1) k s))"
    proof (cases "look (arts o0) k s")
      case None
      with i show ?thesis by (simp add: stamped_at_def blank_row_def)
    next
      case (Some q)
      then have "reclassified S_uploaded q" using i assms(4) by (cases "reclassified S_uploaded q") simp_all
      with i Some look_mem [OF Some] show ?thesis by (simp add: stamped_at_def absent_update_def)
    qed
    ultimately show thesis using that i by simp
  next
    assume k: "k \<in> set ?here"
    then obtain q where q: "look (arts o0) k s = Some q" "o_status q = S_absent"
      "look (arts o1) k s = Some (rearm_update now q)"
      using eff(3) [OF k] assms(4) by (cases "look (arts o0) k s") (auto split: if_splits)
    have "k \<notin> set ?away" using k ad(3) by blast
    then have "look ?t1 k s = Some q"
      using absent_insert.look_other [of s s k ?away] q(1) by (simp add: stamp_absent_def)
    then have "art_rearmed n \<noteq> 0"
      using look_mem [of ?t1 k s q] q(2) k unfolding n rearm_absent_def update_rows_def
      by (auto simp: filter_empty_conv)
    moreover have "stamped_at s now (rearm_update now q)"
      using look_mem [OF q(1)] by (simp add: stamped_at_def rearm_update_def)
    ultimately show thesis using that q(3) by simp
  qed
  then show ?thesis using stamped_rolled_up [OF r] tabs(3) by simp
qed

subsection \<open>Reclassification\<close>

text \<open>What presence leaves of one row, given whether its library is carried.\<close>

definition presence_ok :: "instant \<Rightarrow> status \<Rightarrow> bool \<Rightarrow> outcome_row option \<Rightarrow> outcome_row option \<Rightarrow> bool" where
  "presence_ok now terminal carried before after \<longleftrightarrow>
     (if carried
      then (case before of None \<Rightarrow> after = None
        | Some q \<Rightarrow> after = Some (if o_status q = S_absent
            then q\<lparr>o_status := S_pending, o_detail := None, next_attempt_at := Some now, o_attempts := 0\<rparr>
            else q))
      else (\<exists>r. after = Some r \<and> (case before of
          None \<Rightarrow> o_status r = S_absent
        | Some q \<Rightarrow> if o_status q = terminal \<or> o_status q = S_absent then r = q
            else o_status r = S_absent \<and> next_attempt_at r = None \<and> o_attempts r = 0 \<and>
              terminal_at r = terminal_at q \<and> fingerprint r = fingerprint q)))"

lemma presence_tab_ok:
  assumes "presence_tab now s terminal away here t = (t2, n, m)" and "distinct away"
    and "set away \<inter> set here = {}"
  shows "k \<in> set here \<Longrightarrow> presence_ok now terminal True (look t k s) (look t2 k s)"
    and "k \<in> set away \<Longrightarrow> presence_ok now terminal False (look t k s) (look t2 k s)"
  using presence_tab_look(3,4) [OF assms, of k]
  by (auto simp: presence_ok_def rearm_update_def absent_update_def reclassified_def blank_row_def
      split: option.splits)

text \<open>
  C14: after a server has named its libraries, an item or a deliverable render in a library it
  carries keeps its row, except that an absent one is pending again, due at once with a fresh
  budget; one in a library it does not carry is absent, unless the server was already
  serving it, and then its row is untouched. No row of another server changes, and every
  render whose deliveries changed carries the roll-up of its rows.
\<close>

theorem presence_reclassifies:
  assumes "wf_catalog cat" and "apply_presence now s carried cat o0 = (o1, n)" and "carried \<noteq> []"
  shows "(\<forall>x \<in> set (cat_items cat). presence_ok now S_written (it_library x \<in> set carried)
       (look (metas o0) (it_id x) s) (look (metas o1) (it_id x) s)) \<and>
    (\<forall>y \<in> set (cat_renders cat). rn_kind y \<noteq> ''background'' \<longrightarrow>
       presence_ok now S_uploaded (in_library (\<lambda>l. l \<in> set carried) cat y)
         (look (arts o0) (rn_id y) s) (look (arts o1) (rn_id y) s)) \<and>
    (\<forall>k s'. s' \<noteq> s \<longrightarrow> look (metas o1) k s' = look (metas o0) k s' \<and> look (arts o1) k s' = look (arts o0) k s') \<and>
    (\<forall>k. look (arts o1) k s \<noteq> look (arts o0) k s \<longrightarrow>
       upload_status (ups o1 k) = rollup_status (o_rows (arts o1)) k)"
proof -
  let ?away = "\<lambda>l. l \<notin> set carried" and ?here = "\<lambda>l. l \<in> set carried"
  note tabs = apply_presence_tabs [OF assms(2,3)]
  note md = tabs(1) item_ids_disjoint(2) [OF assms(1)] item_ids_disjoint(1) [OF assms(1)]
  note ad = tabs(2) art_ids_disjoint(2) [OF assms(1)] art_ids_disjoint(1) [OF assms(1)]
  have "presence_ok now S_written (it_library x \<in> set carried)
       (look (metas o0) (it_id x) s) (look (metas o1) (it_id x) s)" if "x \<in> set (cat_items cat)" for x
    using that presence_tab_ok [OF md, of "it_id x"]
    by (cases "it_library x \<in> set carried") (auto simp: item_ids_def)
  moreover have "presence_ok now S_uploaded (in_library ?here cat y)
       (look (arts o0) (rn_id y) s) (look (arts o1) (rn_id y) s)"
    if "y \<in> set (cat_renders cat)" "rn_kind y \<noteq> ''background''" for y
  proof -
    have "in_library ?here cat y \<or> in_library ?away cat y"
      using that(1) assms(1) by (auto simp: wf_catalog_def in_library_def)
    moreover have "\<not> (in_library ?here cat y \<and> in_library ?away cat y)"
      by (auto simp: in_library_def split: option.splits)
    ultimately show ?thesis
      using that presence_tab_ok [OF ad, of "rn_id y"]
      by (cases "in_library ?here cat y") (auto simp: art_ids_def)
  qed
  moreover have "look (metas o1) k s' = look (metas o0) k s' \<and> look (arts o1) k s' = look (arts o0) k s'"
    if "s' \<noteq> s" for k s'
    using presence_tab_look(1) [OF md that] presence_tab_look(1) [OF ad that] by simp
  moreover have "upload_status (ups o1 k) = rollup_status (o_rows (arts o1)) k"
    if "look (arts o1) k s \<noteq> look (arts o0) k s" for k
    using presence_rolls_up [OF assms that] .
  ultimately show ?thesis by blast
qed

definition small_catalog :: catalog where
  "small_catalog = \<lparr>cat_items = [\<lparr>it_id = 1, it_library = ''Movies''\<rparr>, \<lparr>it_id = 2, it_library = ''Shows''\<rparr>],
     cat_renders = [\<lparr>rn_id = 5, rn_item = 2, rn_kind = ''poster'', rn_status = ''rendered'', rn_badge = None\<rparr>],
     cat_facts = [1, 2], cat_overrides = []\<rparr>"

definition no_outcomes :: outcomes where
  "no_outcomes = \<lparr>arts = \<lparr>o_rows = [], o_next = 1\<rparr>, metas = \<lparr>o_rows = [], o_next = 1\<rparr>,
     ups = (\<lambda>_. \<lparr>upload_status = S_skipped, uploaded_at = None\<rparr>)\<rparr>"

lemma wf_small_catalog: "wf_catalog small_catalog"
  by (simp add: wf_catalog_def small_catalog_def item_of_def)

theorem presence_reclassifies_witness:
  "\<exists>o1 n r. apply_presence 9 ''plex'' [''Movies''] small_catalog no_outcomes = (o1, n) \<and>
     look (metas o1) 2 ''plex'' = Some r \<and> o_status r = S_absent"
proof -
  obtain o1 n where a: "apply_presence 9 ''plex'' [''Movies''] small_catalog no_outcomes = (o1, n)"
    by (cases "apply_presence 9 ''plex'' [''Movies''] small_catalog no_outcomes")
  let ?x = "\<lparr>it_id = 2, it_library = ''Shows''\<rparr> :: item"
  have "?x \<in> set (cat_items small_catalog)" by (simp add: small_catalog_def)
  with presence_reclassifies [OF wf_small_catalog a]
  have "presence_ok 9 S_written False (look (metas no_outcomes) 2 ''plex'') (look (metas o1) 2 ''plex'')"
    by fastforce
  moreover have "look (metas no_outcomes) 2 ''plex'' = None" by (simp add: no_outcomes_def look_def)
  ultimately show ?thesis using a by (auto simp: presence_ok_def)
qed

subsection \<open>Idempotence\<close>

lemma stamp_nothing:
  assumes "distinct away" and "\<forall>k \<in> set away. \<exists>r. look t k s = Some r \<and> \<not> reclassified terminal r"
  shows "snd (stamp_absent now s terminal away t) = 0"
    and "look (fst (stamp_absent now s terminal away t)) k s' = look t k s'"
proof -
  have "filter (absent_insert.wanted s terminal t) away = []"
    using assms(2) by (auto simp: filter_empty_conv absent_insert.wanted_def)
  then show "snd (stamp_absent now s terminal away t) = 0"
    using absent_insert.insert_count [OF assms(1)] by (simp add: stamp_absent_def)
  show "look (fst (stamp_absent now s terminal away t)) k s' = look t k s'"
  proof (cases "s' = s \<and> k \<in> set away")
    case True
    then obtain r where "look t k s = Some r" "\<not> reclassified terminal r" using assms(2) by blast
    with True absent_insert.look_inserted [OF assms(1), of k s now terminal t] show ?thesis
      by (auto simp: stamp_absent_def)
  next
    case False
    then show ?thesis using absent_insert.look_other [of s' s k away] by (auto simp: stamp_absent_def)
  qed
qed

lemma rearm_nothing:
  assumes "keyed t" and "\<forall>k \<in> set here. \<forall>r. look t k s = Some r \<longrightarrow> o_status r \<noteq> S_absent"
  shows "rearm_absent now s here t = (t, 0)"
proof -
  have none: "\<not> (o_server r = s \<and> o_status r = S_absent \<and> o_key r \<in> set here)" if "r \<in> set (o_rows t)" for r
    using that keyed_look [OF assms(1), of r] assms(2) by auto
  have "update_where P f rs = rs" if "\<forall>r \<in> set rs. \<not> P r" for P and f :: "outcome_row \<Rightarrow> outcome_row" and rs
    using that by (induction rs) auto
  with none show ?thesis by (simp add: rearm_absent_def update_rows_def filter_empty_conv)
qed

lemma presence_tab_again:
  assumes "presence_tab now s terminal away here t = (t1, n, m)" and "distinct away"
    and "set away \<inter> set here = {}" and "keyed t"
    and "presence_tab now' s terminal away here t1 = (t2, n', m')"
  shows "n' = 0 \<and> m' = 0 \<and> (\<forall>k s'. look t2 k s' = look t1 k s')"
proof -
  note eff = presence_tab_look [OF assms(1-3)]
  have k1: "keyed t1" using presence_tab_keyed [OF assms(4,1)] .
  have away: "\<forall>k \<in> set away. \<exists>r. look t1 k s = Some r \<and> \<not> reclassified terminal r"
  proof
    fix k assume "k \<in> set away"
    then obtain i where "look t1 k s = Some (case look t k s of
        None \<Rightarrow> blank_row now s S_absent (Some ABSENT_DETAIL) None None i k
      | Some q \<Rightarrow> if reclassified terminal q then absent_update now q else q)"
      using eff(4) by blast
    then show "\<exists>r. look t1 k s = Some r \<and> \<not> reclassified terminal r"
      by (auto simp: reclassified_def blank_row_def absent_update_def split: option.split)
  qed
  note st = stamp_nothing [OF assms(2) away]
  let ?s = "fst (stamp_absent now' s terminal away t1)"
  have "keyed ?s" using absent_insert.keyed_insert [OF k1] by (simp add: stamp_absent_def)
  moreover have "\<forall>k \<in> set here. \<forall>r. look ?s k s = Some r \<longrightarrow> o_status r \<noteq> S_absent"
  proof (intro ballI allI impI)
    fix k r assume k: "k \<in> set here" and "look ?s k s = Some r"
    then have "look t1 k s = Some r" by (simp only: st(2))
    with eff(3) [OF k] obtain q where "r = (if o_status q = S_absent then rearm_update now q else q)"
      by (cases "look t k s") auto
    then show "o_status r \<noteq> S_absent" by (simp add: rearm_update_def)
  qed
  ultimately have "rearm_absent now' s here ?s = (?s, 0)" by (rule rearm_nothing)
  moreover obtain u where u: "stamp_absent now' s terminal away t1 = (u, 0)"
    using st(1) [of now'] by (cases "stamp_absent now' s terminal away t1") simp
  ultimately have "presence_tab now' s terminal away here t1 = (u, 0, 0)"
    by (simp add: presence_tab_def)
  with assms(5) st(2) [of now'] u show ?thesis by simp
qed

text \<open>
  Presence is idempotent: hearing the same libraries again, whenever that is, reports no
  change in any of its four counts, changes no outcome row and no render's roll-up.
\<close>

theorem presence_idempotent:
  assumes "wf_catalog cat" and "keyed (metas o0)" and "keyed (arts o0)" and "carried \<noteq> []"
    and "apply_presence now s carried cat o0 = (o1, n)" and "apply_presence now' s carried cat o1 = (o2, n')"
  shows "n' = \<lparr>meta_absent = 0, meta_rearmed = 0, art_absent = 0, art_rearmed = 0\<rparr> \<and> ups o2 = ups o1 \<and>
    (\<forall>k s'. look (metas o2) k s' = look (metas o1) k s' \<and> look (arts o2) k s' = look (arts o1) k s')"
proof -
  note t1 = apply_presence_tabs [OF assms(5,4)] and t2 = apply_presence_tabs [OF assms(6,4)]
  have "meta_absent n' = 0 \<and> meta_rearmed n' = 0 \<and> (\<forall>k s'. look (metas o2) k s' = look (metas o1) k s')"
    by (rule presence_tab_again [OF t1(1) item_ids_disjoint(2,1) [OF assms(1)] assms(2) t2(1)])
  moreover have "art_absent n' = 0 \<and> art_rearmed n' = 0 \<and> (\<forall>k s'. look (arts o2) k s' = look (arts o1) k s')"
    by (rule presence_tab_again [OF t1(2) art_ids_disjoint(2,1) [OF assms(1)] assms(3) t2(2)])
  ultimately show ?thesis using t2(3) by simp
qed

theorem presence_idempotent_witness:
  "\<exists>o1 n o2 n'. apply_presence 9 ''plex'' [''Movies''] small_catalog no_outcomes = (o1, n) \<and>
     apply_presence 12 ''plex'' [''Movies''] small_catalog o1 = (o2, n') \<and> meta_absent n' = 0"
proof -
  obtain o1 n where a: "apply_presence 9 ''plex'' [''Movies''] small_catalog no_outcomes = (o1, n)"
    by (cases "apply_presence 9 ''plex'' [''Movies''] small_catalog no_outcomes")
  obtain o2 n' where b: "apply_presence 12 ''plex'' [''Movies''] small_catalog o1 = (o2, n')"
    by (cases "apply_presence 12 ''plex'' [''Movies''] small_catalog o1")
  have k: "keyed (metas no_outcomes)" "keyed (arts no_outcomes)"
    by (simp_all add: keyed_def no_outcomes_def)
  from presence_idempotent [OF wf_small_catalog k _ a b] a b show ?thesis by auto
qed

end
