(* ===== verification/Catchup.thy ===== *)
theory Catchup
  imports Presence Runs Retry
begin

text \<open>
  The catch-up run (\<open>catchup.py\<close>): opening one for a server and marking its backlog, draining
  it in batches through the retry pass, finishing, cancelling and counting it, and the
  predicates that decide which servers are owed one. \<open>clock\<close> is the database clock that stamps
  the run row, \<open>now\<close> the instant the rows are stamped with.
\<close>

definition CATCH_UP_KIND :: string where
  "CATCH_UP_KIND = ''catch_up''"

definition MIN_CADENCE_SECONDS :: int where
  "MIN_CADENCE_SECONDS = 60"

definition MAX_IDLE_DRAINS :: nat where
  "MAX_IDLE_DRAINS = 2"

definition run_name :: "string \<Rightarrow> string" where
  "run_name server = CATCH_UP_KIND @ '':'' @ server"

text \<open>The refusal: its sentence, and whether the reason can pass by itself.\<close>

datatype refused = Catch_up_refused string bool

subsection \<open>What a start reads of the configuration\<close>

record catch_config =
  configured :: bool
  scheduler_on :: bool
  poller_healthy :: "bool option"
  listing :: "string + string list"
  pending_minutes :: int
  ops_on :: bool
  ops_write_to :: bool
  field_verbs :: bool
  parental_labels :: bool
  badges_on :: bool
  badges_upload_to :: bool

record db =
  outs :: outcomes
  rtab :: run_tab

definition open_catch_up :: "string \<Rightarrow> run_tab \<Rightarrow> run option" where
  "open_catch_up name t = List.find
     (\<lambda>r. r_kind r = CATCH_UP_KIND \<and> r_server r = Some name \<and> is_open r) (runs t)"

subsection \<open>Marking\<close>

text \<open>
  The \<open>SET\<close> of both marking updates. Every expression reads the row as it was; a row that a
  run has armed and that is still pending keeps what that run recorded.
\<close>

definition arm_row :: "instant \<Rightarrow> nat \<Rightarrow> outcome_row \<Rightarrow> outcome_row" where
  "arm_row now run r = r\<lparr>o_status := S_pending,
     previous_status := (if o_run_id r \<noteq> None \<and> o_status r = S_pending then previous_status r
       else Some (o_status r)),
     o_detail := None, attempted_at := Some now, next_attempt_at := Some now, o_attempts := 0,
     o_run_id := Some run\<rparr>"

definition mark_new :: "instant \<Rightarrow> string \<Rightarrow> nat \<Rightarrow> nat list \<Rightarrow> outcome_tab \<Rightarrow> outcome_tab" where
  "mark_new now s run keys t = fst (insert_select s
     (blank_row now s S_pending None (Some now) (Some run)) (\<lambda>_. False) id keys t)"

definition writable_ids :: "catch_config \<Rightarrow> string list \<Rightarrow> catalog \<Rightarrow> nat list" where
  "writable_ids cfg carried cat = filter
     (\<lambda>i. field_verbs cfg \<or> parental_labels cfg \<or> i \<in> set (cat_facts cat) \<or> i \<in> set (cat_overrides cat))
     (item_ids (\<lambda>l. l \<in> set carried) cat)"

definition mark_metadata ::
  "instant \<Rightarrow> string \<Rightarrow> nat \<Rightarrow> nat list \<Rightarrow> outcome_tab \<Rightarrow> outcome_tab" where
  "mark_metadata now s run keys t = mark_new now s run keys (fst (update_rows
     (\<lambda>r. o_server r = s \<and> o_status r \<noteq> S_absent \<and> o_status r \<noteq> S_skipped \<and> o_key r \<in> set keys)
     (arm_row now run) t))"

definition rendered_here :: "string list \<Rightarrow> catalog \<Rightarrow> render list" where
  "rendered_here carried cat = filter (\<lambda>y. in_library (\<lambda>l. l \<in> set carried) cat y \<and>
     rn_status y = ''rendered'' \<and> rn_kind y \<noteq> ''background'') (cat_renders cat)"

text \<open>Behind: open, or uploaded with a fingerprint distinct from the render's.\<close>

definition behind :: "string \<Rightarrow> render list \<Rightarrow> outcome_row \<Rightarrow> bool" where
  "behind s ys r \<longleftrightarrow> o_server r = s \<and> (\<exists>y \<in> set ys. rn_id y = o_key r \<and>
     (o_status r = S_pending \<or> o_status r = S_failed \<or>
      o_status r = S_uploaded \<and> fingerprint r \<noteq> rn_badge y))"

definition mark_artwork ::
  "instant \<Rightarrow> string \<Rightarrow> nat \<Rightarrow> render list \<Rightarrow> outcome_tab \<Rightarrow> outcome_tab" where
  "mark_artwork now s run ys t = mark_new now s run (map rn_id ys)
     (fst (update_rows (behind s ys) (arm_row now run) t))"

subsection \<open>start\_catch\_up\<close>

definition set_run :: "nat \<Rightarrow> (run \<Rightarrow> run) \<Rightarrow> run_tab \<Rightarrow> run_tab" where
  "set_run i f t = t\<lparr>runs := update_where (\<lambda>r. r_id r = i) f (runs t)\<rparr>"

definition start_catch_up ::
  "instant \<Rightarrow> instant \<Rightarrow> string \<Rightarrow> int option \<Rightarrow> catch_config \<Rightarrow> catalog \<Rightarrow> db \<Rightarrow> refused + (db \<times> nat)" where
  "start_catch_up clock now name cadence_seconds cfg cat d =
     (if \<not> configured cfg
      then Inl (Catch_up_refused (''no media server named '' @ py_repr name @ '' is configured'') False)
      else if \<not> scheduler_on cfg
      then Inl (Catch_up_refused ''the scheduler is off; a catch-up needs it to drain'' False)
      else if poller_healthy cfg = Some False
      then Inl (Catch_up_refused (name @ '' is not reachable right now; try again once it is back'') True)
      else case listing cfg of
        Inl cls \<Rightarrow> Inl (Catch_up_refused (name @ '' could not list its libraries ('' @ cls @ '')'') True)
      | Inr carried \<Rightarrow>
          if open_catch_up name (rtab d) \<noteq> None
          then Inl (Catch_up_refused (''a catch-up for '' @ name @ '' is already in flight'') False)
          else
            let o1 = (if carried = [] then outs d else fst (apply_presence now name carried cat (outs d)));
                cadence = (case cadence_seconds of None \<Rightarrow> pending_minutes cfg * 60 | Some c \<Rightarrow> c);
                (t1, run) = open_run clock CATCH_UP_KIND (run_name name) (rtab d);
                t2 = set_run run (\<lambda>r. r\<lparr>r_server := Some name,
                  r_cadence := Some (max MIN_CADENCE_SECONDS cadence)\<rparr>) t1
            in if carried = [] then Inr (\<lparr>outs = o1, rtab = t2\<rparr>, run)
               else
                 let o2 = (if ops_on cfg \<and> ops_write_to cfg
                       then o1\<lparr>metas := mark_metadata now name run (writable_ids cfg carried cat) (metas o1)\<rparr>
                       else o1)
                 in if \<not> (badges_on cfg \<and> badges_upload_to cfg) then Inr (\<lparr>outs = o2, rtab = t2\<rparr>, run)
                    else
                      let a = mark_artwork now name run (rendered_here carried cat) (arts o2)
                      in Inr (\<lparr>outs = o2\<lparr>arts := a,
                                ups := fst (rollup_stamped_renders name now a (ups o2))\<rparr>,
                               rtab = t2\<rparr>, run))"

subsection \<open>Tallies\<close>

record tallies =
  t_due :: nat
  t_done :: nat
  t_failed :: nat

definition t_total :: "tallies \<Rightarrow> nat" where
  "t_total n = t_due n + t_done n + t_failed n"

text \<open>\<open>_DONE_STATUSES\<close>: the terminal word of the table, skipped and absent.\<close>

definition done_statuses :: "status \<Rightarrow> status set" where
  "done_statuses terminal = {terminal, S_skipped, S_absent}"

definition count_rows :: "nat \<Rightarrow> (status \<Rightarrow> bool) \<Rightarrow> outcome_tab \<Rightarrow> nat" where
  "count_rows run P t = length (filter (\<lambda>r. o_run_id r = Some run \<and> P (o_status r)) (o_rows t))"

definition run_tallies :: "nat \<Rightarrow> outcomes \<Rightarrow> tallies" where
  "run_tallies run o0 =
     \<lparr>t_due = count_rows run (\<lambda>s. s = S_pending) (arts o0) + count_rows run (\<lambda>s. s = S_pending) (metas o0),
      t_done = count_rows run (\<lambda>s. s \<in> done_statuses S_uploaded) (arts o0) +
        count_rows run (\<lambda>s. s \<in> done_statuses S_written) (metas o0),
      t_failed = count_rows run (\<lambda>s. s = S_failed) (arts o0) + count_rows run (\<lambda>s. s = S_failed) (metas o0)\<rparr>"

definition attempts_of :: "nat \<Rightarrow> outcome_tab \<Rightarrow> nat" where
  "attempts_of run t = sum_list (map o_attempts (filter (\<lambda>r. o_run_id r = Some run) (o_rows t)))"

definition attempts_spent :: "nat \<Rightarrow> outcomes \<Rightarrow> nat" where
  "attempts_spent run o0 = attempts_of run (arts o0) + attempts_of run (metas o0)"

subsection \<open>finish\_catch\_up\<close>

text \<open>A run that is over owns nothing: its rows lose the two scope columns.\<close>

definition release_row :: "outcome_row \<Rightarrow> outcome_row" where
  "release_row r = r\<lparr>previous_status := None, o_run_id := None\<rparr>"

definition release_run :: "nat \<Rightarrow> outcome_tab \<Rightarrow> outcome_tab" where
  "release_run run t = fst (update_rows (\<lambda>r. o_run_id r = Some run) release_row t)"

definition finish_catch_up ::
  "instant \<Rightarrow> nat \<Rightarrow> string \<Rightarrow> string \<Rightarrow> tallies option \<Rightarrow> db \<Rightarrow> db \<times> tallies" where
  "finish_catch_up clock run st detail given d =
     (let n = (case given of None \<Rightarrow> run_tallies run (outs d) | Some n \<Rightarrow> n)
      in if \<not> (\<exists>r \<in> set (runs (rtab d)). r_id r = run \<and> is_open r) then (d, n)
         else
           (\<lparr>outs = (outs d)\<lparr>arts := release_run run (arts (outs d)), metas := release_run run (metas (outs d))\<rparr>,
             rtab = close_run clock run st detail ((rtab d)\<lparr>runs := update_where
               (\<lambda>r. r_id r = run \<and> is_open r)
               (\<lambda>r. r\<lparr>r_processed := Some (t_total n), r_failed := Some (t_failed n),
                     r_deferred := Some (t_due n)\<rparr>) (runs (rtab d))\<rparr>)\<rparr>, n))"

subsection \<open>catch\_up\_progress\<close>

text \<open>The newest run for the server, \<open>ORDER BY started_at DESC, id DESC LIMIT 1\<close>.\<close>

definition latest_run :: "string \<Rightarrow> run_tab \<Rightarrow> run option" where
  "latest_run name t = first_by (\<lambda>r. (- r_started r, - int (r_id r)))
     (filter (\<lambda>r. r_kind r = CATCH_UP_KIND \<and> r_server r = Some name) (runs t))"

definition catch_up_progress :: "string \<Rightarrow> db \<Rightarrow> (run \<times> int \<times> int \<times> int \<times> int) option" where
  "catch_up_progress name d = (case latest_run name (rtab d) of
       None \<Rightarrow> None
     | Some r \<Rightarrow> (case (r_finished r, r_processed r) of
          (Some _, Some processed) \<Rightarrow>
            let due = (case r_deferred r of None \<Rightarrow> 0 | Some n \<Rightarrow> int n);
                failed = (case r_failed r of None \<Rightarrow> 0 | Some n \<Rightarrow> int n)
            in Some (r, due, int processed - due - failed, failed, int processed)
        | _ \<Rightarrow>
            let n = run_tallies (r_id r) (outs d)
            in Some (r, int (t_due n), int (t_done n), int (t_failed n), int (t_total n))))"

subsection \<open>drain\_catch\_ups\<close>

text \<open>
  What one run's batch meets: the answers to each row of both tables, what other processes
  commit while it is in flight, and an exception outside a row, by its class name, before the
  batch or after it (the retry pass commits per row, so a later rollback leaves its rows).
\<close>

datatype drain_fault = Before string | After string

record drain_env =
  art_answers :: "outcome_row \<Rightarrow> art_env"
  meta_answers :: "outcome_row \<Rightarrow> meta_env"
  meanwhile :: "db \<Rightarrow> db"
  fault :: "drain_fault option"

definition batch :: "instant \<Rightarrow> nat \<Rightarrow> drain_env \<Rightarrow> run \<Rightarrow> db \<Rightarrow> db" where
  "batch now max_attempts env q d =
     (let (st, w, _) = retry_pending_deliveries now max_attempts (r_server q) (Some (r_id q))
            (art_answers env) (meta_answers env)
            \<lparr>dtab = arts (outs d), cols = ups (outs d)\<rparr> (metas (outs d))
      in d\<lparr>outs := \<lparr>arts = dtab st, metas = w, ups = cols st\<rparr>\<rparr>)"

definition cadence_of :: "run \<Rightarrow> int" where
  "cadence_of q = (case r_cadence q of None \<Rightarrow> MIN_CADENCE_SECONDS | Some c \<Rightarrow> c)"

definition mid_cadence :: "instant \<Rightarrow> run \<Rightarrow> bool" where
  "mid_cadence now q \<longleftrightarrow> (case r_drained q of None \<Rightarrow> False | Some t \<Rightarrow> now - t < secs (cadence_of q))"

definition shown :: "string option \<Rightarrow> string" where
  "shown s = (case s of None \<Rightarrow> ''None'' | Some x \<Rightarrow> x)"

definition done_failed :: "tallies \<Rightarrow> string" where
  "done_failed n = nat_digits (t_done n) @ '' done, '' @ nat_digits (t_failed n) @ '' failed''"

text \<open>The verdict on a batch: finished, stopped as idle, or still draining.\<close>

definition after_batch ::
  "instant \<Rightarrow> instant \<Rightarrow> run \<Rightarrow> tallies \<times> nat \<Rightarrow> db \<Rightarrow> db \<times> string" where
  "after_batch clock now q before d =
     (let n = run_tallies (r_id q) (outs d);
          spent = attempts_spent (r_id q) (outs d);
          idle = (if (n, spent) \<noteq> before then 0 else r_idle q + 1);
          d2 = d\<lparr>rtab := set_run (r_id q) (\<lambda>r. r\<lparr>r_drained := Some now, r_idle := idle\<rparr>) (rtab d)\<rparr>;
          left_over = nat_digits (t_due n) @ '' still due, '' @ done_failed n
      in if t_due n = 0
         then (fst (finish_catch_up clock (r_id q) ''ok'' (''catch-up: '' @ done_failed n) (Some n) d2),
               shown (r_server q) @ '' finished, '' @ done_failed n)
         else if MAX_IDLE_DRAINS \<le> idle
         then (fst (finish_catch_up clock (r_id q) ''ok'' (''catch-up: stopped with '' @ left_over) (Some n) d2),
               shown (r_server q) @ '' stopped with '' @ left_over)
         else (d2, shown (r_server q) @ '' '' @ left_over))"

definition drain_run ::
  "instant \<Rightarrow> instant \<Rightarrow> nat \<Rightarrow> drain_env \<Rightarrow> run \<Rightarrow> db \<Rightarrow> db \<times> string" where
  "drain_run clock now max_attempts env q d =
     (if mid_cadence now q
      then (d, shown (r_server q) @ '' waiting '' @ int_digits (cadence_of q) @ ''s between batches'')
      else case fault env of
        Some (Before cls) \<Rightarrow> (d, shown (r_server q) @ '' failed ('' @ cls @ '')'')
      | f \<Rightarrow>
          let before = (run_tallies (r_id q) (outs d), attempts_spent (r_id q) (outs d));
              d1 = meanwhile env (batch now max_attempts env q d)
          in (case f of
                Some (After cls) \<Rightarrow> (d1, shown (r_server q) @ '' failed ('' @ cls @ '')'')
              | _ \<Rightarrow> after_batch clock now q before d1))"

fun drain_runs ::
  "instant \<Rightarrow> instant \<Rightarrow> nat \<Rightarrow> (nat \<Rightarrow> drain_env) \<Rightarrow> run list \<Rightarrow> db \<Rightarrow> db \<times> string list" where
  "drain_runs clock now max_attempts envs [] d = (d, [])"
| "drain_runs clock now max_attempts envs (q # qs) d =
     (let (d1, clause) = drain_run clock now max_attempts (envs (r_id q)) q d;
          (d2, clauses) = drain_runs clock now max_attempts envs qs d1
      in (d2, clause # clauses))"

definition open_catch_ups :: "run_tab \<Rightarrow> run list" where
  "open_catch_ups t = sort_key r_id (filter (\<lambda>r. r_kind r = CATCH_UP_KIND \<and> is_open r) (runs t))"

definition drain_catch_ups ::
  "instant \<Rightarrow> instant \<Rightarrow> nat \<Rightarrow> (nat \<Rightarrow> drain_env) \<Rightarrow> db \<Rightarrow> db \<times> string" where
  "drain_catch_ups clock now max_attempts envs d =
     (case open_catch_ups (rtab d) of
        [] \<Rightarrow> (d, ''catch-up: nothing in flight'')
      | qs \<Rightarrow> let (d1, clauses) = drain_runs clock now max_attempts envs qs d
          in (d1, ''catch-up: '' @ join ''; '' clauses))"

subsection \<open>cancel\_catch\_up\<close>

definition restore_row :: "instant \<Rightarrow> outcome_row \<Rightarrow> outcome_row" where
  "restore_row now r = r\<lparr>o_status := (case previous_status r of None \<Rightarrow> o_status r | Some st \<Rightarrow> st),
     next_attempt_at := (if previous_status r = Some S_pending then Some (now + secs RETRY_SECONDS) else None),
     previous_status := None, o_run_id := None\<rparr>"

text \<open>One table: delete what the run created, restore what it marked, release the rest.\<close>

definition cancel_rows :: "instant \<Rightarrow> nat \<Rightarrow> outcome_tab \<Rightarrow> outcome_tab \<times> nat \<times> nat" where
  "cancel_rows now run t =
     (let (t1, removed) = delete_rows (\<lambda>r. o_run_id r = Some run \<and> o_status r = S_pending \<and>
            previous_status r = None) t;
          (t2, restored) = update_rows (\<lambda>r. o_run_id r = Some run \<and> o_status r = S_pending \<and>
            previous_status r \<noteq> None) (restore_row now) t1
      in (release_run run t2, restored, removed))"

record cancelled =
  x_run :: nat
  x_restored :: nat
  x_removed :: nat
  x_detail :: string

definition cancel_catch_up ::
  "instant \<Rightarrow> instant \<Rightarrow> string \<Rightarrow> db \<Rightarrow> refused + (db \<times> cancelled)" where
  "cancel_catch_up clock now name d = (case open_catch_up name (rtab d) of
       None \<Rightarrow> Inl (Catch_up_refused (''no catch-up for '' @ name @ '' is in flight'') False)
     | Some q \<Rightarrow>
         let run = r_id q; n = run_tallies run (outs d);
             render_ids = map o_key (filter (\<lambda>r. o_run_id r = Some run) (o_rows (arts (outs d))));
             (a, ra, da) = cancel_rows now run (arts (outs d));
             (m, rm, dm) = cancel_rows now run (metas (outs d));
             c = (if render_ids = [] then ups (outs d)
                  else fst (rollup_renders (\<lambda>k. k \<in> set render_ids) a (ups (outs d))));
             detail = ''cancelled: '' @ nat_digits (t_total n) @ '' marked, '' @ done_failed n @ ''; '' @
               nat_digits (ra + rm) @ '' restored, '' @ nat_digits (da + dm) @ '' removed'';
             (d', _) = finish_catch_up clock run ''cancelled'' detail (Some n)
               (d\<lparr>outs := \<lparr>arts = a, metas = m, ups = c\<rparr>\<rparr>)
         in Inr (d', \<lparr>x_run = run, x_restored = ra + rm, x_removed = da + dm, x_detail = detail\<rparr>))"

subsection \<open>retry\_failed\<close>

definition rearm_failed :: "instant \<Rightarrow> string \<Rightarrow> outcome_tab \<Rightarrow> outcome_tab \<times> nat" where
  "rearm_failed now name t = update_rows (\<lambda>r. o_server r = name \<and> o_status r = S_failed)
     (\<lambda>r. r\<lparr>o_status := S_pending, o_detail := None, attempted_at := Some now,
        next_attempt_at := Some now, o_attempts := 0, previous_status := None, o_run_id := None\<rparr>) t"

definition retry_failed :: "instant \<Rightarrow> string \<Rightarrow> outcomes \<Rightarrow> outcomes \<times> nat \<times> nat" where
  "retry_failed now name o0 =
     (let (a, na) = rearm_failed now name (arts o0); (m, nm) = rearm_failed now name (metas o0)
      in (\<lparr>arts = a, metas = m, ups = fst (rollup_stamped_renders name now a (ups o0))\<rparr>, na, nm))"

subsection \<open>Which servers are owed one\<close>

text \<open>
  A configuration as these predicates read it: the value of a section's toggle, \<open>None\<close> where
  the section or the field is not there; each library's own values; each server's block, a mapping
  in it by its entries in key order (Python compares mappings without their order).
\<close>

type_synonym toggles = "string \<Rightarrow> string \<Rightarrow> bool option"

record config =
  cfg_global :: toggles
  cfg_libraries :: "(string \<times> toggles) list"
  cfg_block :: "string \<Rightarrow> (string \<Rightarrow> json option) option"

definition LIBRARY_SHAPE_FIELDS :: "string list" where
  "LIBRARY_SHAPE_FIELDS = [''library_map'', ''excluded_libraries'']"

definition DELIVERY_TOGGLES :: "(string \<times> (string \<times> string) list) list" where
  "DELIVERY_TOGGLES =
     [(''plex'', [(''operations'', ''write_to_plex''), (''badges'', ''upload_to_plex'')]),
      (''jellyfin'', [(''operations'', ''write_to_jellyfin''), (''badges'', ''upload_to_jellyfin'')])]"

definition toggle_states :: "config \<Rightarrow> string \<Rightarrow> string \<Rightarrow> string \<rightharpoonup> bool option" where
  "toggle_states c section field =
     (let g = cfg_global c section field
      in foldl (\<lambda>m (library, override). m(library \<mapsto>
             (case override section field of None \<Rightarrow> g | Some v \<Rightarrow> Some v)))
           [[] \<mapsto> g] (cfg_libraries c))"

definition state_at :: "(string \<rightharpoonup> bool option) \<Rightarrow> string \<Rightarrow> bool option" where
  "state_at m scope = (case m scope of Some v \<Rightarrow> v | None \<Rightarrow> the (m []))"

definition scopes :: "config \<Rightarrow> string list" where
  "scopes c = [] # map fst (cfg_libraries c)"

definition toggle_turned_on :: "config \<Rightarrow> config \<Rightarrow> string \<Rightarrow> string \<Rightarrow> bool" where
  "toggle_turned_on old new section field \<longleftrightarrow>
     (\<exists>scope \<in> set (scopes old @ scopes new).
        state_at (toggle_states new section field) scope = Some True \<and>
        state_at (toggle_states old section field) scope = Some False)"

definition toggle_ever_on :: "config \<Rightarrow> string \<Rightarrow> string \<Rightarrow> bool" where
  "toggle_ever_on c section field \<longleftrightarrow>
     (\<exists>scope \<in> set (scopes c).
        state_at (toggle_states c section field) scope = Some True \<and>
        state_at (toggle_states c section ''enabled'') scope \<noteq> Some False)"

definition servers_with_delivery_enabled :: "config \<Rightarrow> string list \<Rightarrow> string list" where
  "servers_with_delivery_enabled c names = filter
     (\<lambda>name. case map_of DELIVERY_TOGGLES name of None \<Rightarrow> True
      | Some ts \<Rightarrow> list_ex (\<lambda>(section, field). toggle_ever_on c section field) ts) names"

definition shape_changed :: "(string \<Rightarrow> json option) \<Rightarrow> (string \<Rightarrow> json option) \<Rightarrow> bool" where
  "shape_changed old new \<longleftrightarrow> list_ex (\<lambda>field. old field \<noteq> new field) LIBRARY_SHAPE_FIELDS"

definition servers_with_changed_libraries :: "config \<Rightarrow> config \<Rightarrow> string list" where
  "servers_with_changed_libraries old new = map fst (filter
     (\<lambda>(name, ts). case (cfg_block old name, cfg_block new name) of
        (Some b, Some b') \<Rightarrow> shape_changed b b' \<or>
          list_ex (\<lambda>(section, field). toggle_turned_on old new section field) ts
      | _ \<Rightarrow> False) DELIVERY_TOGGLES)"

definition servers_never_seen :: "catalog \<Rightarrow> outcomes \<Rightarrow> string list \<Rightarrow> string list" where
  "servers_never_seen cat o0 names =
     (if cat_items cat = [] then []
      else filter (\<lambda>n. n \<notin> o_server ` set (o_rows (arts o0)) \<union> o_server ` set (o_rows (metas o0))) names)"

end
