(* ===== verification/Catchup_Props.thy ===== *)
theory Catchup_Props
  imports Catchup Presence_Props Run_Props
begin

text \<open>
  The properties of the catch-up run: a cancel undoes a start, a closed run owns no row under
  any interleaving of transactions, progress survives the finish, and what ends a drain.
\<close>

subsection \<open>Marking, one table\<close>

interpretation mark_insert: set_insert s "blank_row now s S_pending None (Some now) (Some run)"
    "\<lambda>_. False" id for s now run
  by unfold_locales (simp_all add: blank_row_def)

lemma arm_row_sel [simp]:
  "o_key (arm_row now run r) = o_key r" "o_server (arm_row now run r) = o_server r"
  "o_status (arm_row now run r) = S_pending" "o_run_id (arm_row now run r) = Some run"
  "terminal_at (arm_row now run r) = terminal_at r" "fingerprint (arm_row now run r) = fingerprint r"
  by (simp_all add: arm_row_def)

lemma restore_row_sel [simp]:
  "o_key (restore_row now r) = o_key r" "o_server (restore_row now r) = o_server r"
  "o_run_id (restore_row now r) = None" "terminal_at (restore_row now r) = terminal_at r"
  "fingerprint (restore_row now r) = fingerprint r" "previous_status (restore_row now r) = None"
  by (simp_all add: restore_row_def)

lemma release_row_sel [simp]:
  "o_key (release_row r) = o_key r" "o_server (release_row r) = o_server r"
  "o_status (release_row r) = o_status r" "o_run_id (release_row r) = None"
  "terminal_at (release_row r) = terminal_at r" "fingerprint (release_row r) = fingerprint r"
  by (simp_all add: release_row_def)

text \<open>A row as it was, apart from when and how often it is tried again.\<close>

definition same_outcome :: "outcome_row \<Rightarrow> outcome_row \<Rightarrow> bool" where
  "same_outcome r r' \<longleftrightarrow> o_status r' = o_status r \<and> terminal_at r' = terminal_at r \<and>
     fingerprint r' = fingerprint r \<and> o_run_id r' = o_run_id r"

definition same_table :: "outcome_tab \<Rightarrow> outcome_tab \<Rightarrow> bool" where
  "same_table t t' \<longleftrightarrow> (\<forall>k s. rel_option same_outcome (look t k s) (look t' k s))"

definition marked :: "instant \<Rightarrow> string \<Rightarrow> nat \<Rightarrow> outcome_tab \<Rightarrow> outcome_tab \<Rightarrow> bool" where
  "marked now s run t t1 \<longleftrightarrow> (\<exists>P keys. (\<forall>r. P r \<longrightarrow> o_server r = s) \<and> distinct keys \<and>
     t1 = mark_new now s run keys (fst (update_rows P (arm_row now run) t)))"

lemma marked_none: "marked now s run t t"
proof -
  have "fst (update_rows (\<lambda>_. False) (arm_row now run) t) = t"
    by (simp add: update_rows_def update_where_def)
  then show ?thesis
    unfolding marked_def by (intro exI [of _ "\<lambda>_. False"] exI [of _ "[]"]) (simp add: mark_new_def)
qed

lemma marked_look:
  assumes "marked now s run t t1"
  shows "(case look t k s' of
      None \<Rightarrow> look t1 k s' = None \<or> s' = s \<and> (\<exists>i. look t1 k s' =
        Some (blank_row now s S_pending None (Some now) (Some run) i k))
    | Some r \<Rightarrow> look t1 k s' = Some r \<or> s' = s \<and> look t1 k s' = Some (arm_row now run r))"
proof -
  obtain P keys where P: "\<forall>r. P r \<longrightarrow> o_server r = s" and d: "distinct keys"
    and t1: "t1 = mark_new now s run keys (fst (update_rows P (arm_row now run) t))"
    using assms by (auto simp: marked_def)
  let ?u = "fst (update_rows P (arm_row now run) t)"
  have u: "look ?u k s' = map_option (\<lambda>r. if P r then arm_row now run r else r) (look t k s')"
    by (rule look_update_rows) simp_all
  have server: "look t k s' = Some r \<Longrightarrow> o_server r = s'" for r using look_mem by blast
  show ?thesis
  proof (cases "s' = s \<and> k \<in> set keys")
    case True
    then obtain i where "look t1 k s' = (case look ?u k s' of
        None \<Rightarrow> Some (blank_row now s S_pending None (Some now) (Some run) i k) | Some r \<Rightarrow> Some r)"
      using mark_insert.look_inserted [OF d, of k s now run ?u, unfolded if_False]
      unfolding t1 mark_new_def by blast
    with True u show ?thesis by (auto split: option.split)
  next
    case False
    then have "look t1 k s' = look ?u k s'"
      unfolding t1 mark_new_def by (intro mark_insert.look_other) blast
    with u P server show ?thesis by (auto split: option.split)
  qed
qed

lemma marked_keyed:
  assumes "marked now s run t t1" and "keyed t"
  shows "keyed t1"
proof -
  obtain P keys where t1: "t1 = mark_new now s run keys (fst (update_rows P (arm_row now run) t))"
    using assms(1) by (auto simp: marked_def)
  have "keyed (fst (update_rows P (arm_row now run) t))"
    by (rule keyed_update_rows [OF assms(2)]) simp_all
  then show ?thesis unfolding t1 mark_new_def by (rule mark_insert.keyed_insert)
qed

lemma look_cancel_rows:
  assumes "keyed t" and "cancel_rows now run t = (t', n, m)"
  shows "look t' k s = (case look t k s of None \<Rightarrow> None
    | Some r \<Rightarrow> if o_run_id r \<noteq> Some run then Some r
        else if o_status r \<noteq> S_pending then Some (release_row r)
        else if previous_status r = None then None
        else Some (restore_row now r))"
proof -
  let ?del = "\<lambda>r. o_run_id r = Some run \<and> o_status r = S_pending \<and> previous_status r = None"
  let ?res = "\<lambda>r. o_run_id r = Some run \<and> o_status r = S_pending \<and> previous_status r \<noteq> None"
  let ?t1 = "fst (delete_rows ?del t)"
  let ?t2 = "fst (update_rows ?res (restore_row now) ?t1)"
  have t': "t' = release_run run ?t2"
    using assms(2) by (auto simp: cancel_rows_def Let_def split: prod.splits)
  have "look t' k s = map_option (\<lambda>r. if o_run_id r = Some run then release_row r else r) (look ?t2 k s)"
    unfolding t' release_run_def by (rule look_update_rows) simp_all
  moreover have "look ?t2 k s = map_option (\<lambda>r. if ?res r then restore_row now r else r) (look ?t1 k s)"
    by (rule look_update_rows) simp_all
  ultimately show ?thesis
    by (auto simp: look_delete_rows [OF assms(1)] split: option.split)
qed

text \<open>Cancelling a mark that nothing has drained gives the table back.\<close>

lemma mark_cancel:
  assumes "marked now s run t t1" and "keyed t"
    and "\<forall>k s' r. look t k s' = Some r \<longrightarrow> o_run_id r \<noteq> Some run \<and> (s' = s \<longrightarrow> o_run_id r = None)"
    and "cancel_rows now' run t1 = (t2, n, m)"
  shows "same_table t t2"
  unfolding same_table_def
proof (intro allI)
  fix k s'
  note c = look_cancel_rows [OF marked_keyed [OF assms(1,2)] assms(4), of k s']
  note mk = marked_look [OF assms(1), of k s']
  show "rel_option same_outcome (look t k s') (look t2 k s')"
  proof (cases "look t k s'")
    case None
    with mk c show ?thesis by (auto simp: blank_row_def)
  next
    case (Some r)
    from assms(3) Some have r: "o_run_id r \<noteq> Some run" "s' = s \<longrightarrow> o_run_id r = None" by auto
    from mk Some consider "look t1 k s' = Some r" | "s' = s" "look t1 k s' = Some (arm_row now run r)" by auto
    then show ?thesis
    proof cases
      case 1
      with c r Some show ?thesis by (simp add: same_outcome_def)
    next
      case 2
      moreover have "previous_status (arm_row now run r) = Some (o_status r)"
        using r 2(1) by (simp add: arm_row_def)
      ultimately show ?thesis using c r Some by (simp add: same_outcome_def restore_row_def)
    qed
  qed
qed

subsection \<open>A cancel undoes a start\<close>

lemma presence_tab_rows:
  assumes "presence_tab now s terminal away here t = (t2, n, m)" and "distinct away"
    and "set away \<inter> set here = {}" and "look t2 k s' = Some r'"
  shows "o_run_id r' = None \<or> (\<exists>r. look t k s' = Some r \<and> o_run_id r' = o_run_id r)"
proof (cases "s' = s \<and> (k \<in> set away \<or> k \<in> set here)")
  case False
  then have "look t2 k s' = look t k s'"
    using presence_tab_look(1) [OF assms(1-3), where k = k and s' = s']
      presence_tab_look(2) [OF assms(1-3), where k = k] by (cases "s' = s") auto
  with assms(4) show ?thesis by simp
next
  case True
  then show ?thesis
  proof (elim conjE disjE)
    assume s: "s' = s" and "k \<in> set away"
    then obtain i where "look t2 k s = Some (case look t k s of
        None \<Rightarrow> blank_row now s S_absent (Some ABSENT_DETAIL) None None i k
      | Some q \<Rightarrow> if reclassified terminal q then absent_update now q else q)"
      using presence_tab_look(4) [OF assms(1-3)] by blast
    with assms(4) s show ?thesis
      by (cases "look t k s") (auto simp: blank_row_def absent_update_def split: if_splits)
  next
    assume s: "s' = s" and "k \<in> set here"
    with presence_tab_look(3) [OF assms(1-3)] assms(4) show ?thesis
      by (cases "look t k s") (auto simp: rearm_update_def split: if_splits)
  qed
qed

text \<open>The tables a start marks: after presence, when the server listed any library.\<close>

definition present_outs :: "instant \<Rightarrow> string \<Rightarrow> catch_config \<Rightarrow> catalog \<Rightarrow> outcomes \<Rightarrow> outcomes" where
  "present_outs now name cfg cat o0 = (case listing cfg of
       Inr (l # ls) \<Rightarrow> fst (apply_presence now name (l # ls) cat o0) | _ \<Rightarrow> o0)"

definition idle_server :: "string \<Rightarrow> nat \<Rightarrow> outcome_tab \<Rightarrow> bool" where
  "idle_server s run t \<longleftrightarrow> (\<forall>k s' r. look t k s' = Some r \<longrightarrow> o_run_id r \<noteq> Some run \<and> (s' = s \<longrightarrow> o_run_id r = None))"

lemma idle_present:
  fixes now :: instant and cfg :: catch_config
  assumes "wf_catalog cat" and "idle_server name run (arts o0)" and "idle_server name run (metas o0)"
    and "keyed (arts o0)" and "keyed (metas o0)"
  defines "o1 \<equiv> present_outs now name cfg cat o0"
  shows "idle_server name run (arts o1) \<and> idle_server name run (metas o1) \<and> keyed (arts o1) \<and> keyed (metas o1)"
proof (cases "\<exists>l ls. listing cfg = Inr (l # ls)")
  case False
  then have "o1 = o0" by (auto simp: o1_def present_outs_def split: sum.splits list.splits)
  with assms(2-5) show ?thesis by simp
next
  case True
  then obtain l ls where c: "listing cfg = Inr (l # ls)" by blast
  obtain n where a: "apply_presence now name (l # ls) cat o0 = (o1, n)"
    unfolding o1_def present_outs_def c by (cases "apply_presence now name (l # ls) cat o0") simp
  note tabs = apply_presence_tabs [OF a list.distinct(2)]
  note md = tabs(1) item_ids_disjoint(2) [OF assms(1)] item_ids_disjoint(1) [OF assms(1)]
  note ad = tabs(2) art_ids_disjoint(2) [OF assms(1)] art_ids_disjoint(1) [OF assms(1)]
  have "idle_server name run (metas o1)"
    using presence_tab_rows [OF md] assms(3) unfolding idle_server_def by (metis option.distinct(1))
  moreover have "idle_server name run (arts o1)"
    using presence_tab_rows [OF ad] assms(2) unfolding idle_server_def by (metis option.distinct(1))
  ultimately show ?thesis
    using presence_tab_keyed [OF assms(5) tabs(1)] presence_tab_keyed [OF assms(4) tabs(2)] by simp
qed

lemma rendered_distinct: "wf_catalog cat \<Longrightarrow> distinct (map rn_id (rendered_here carried cat))"
  by (simp add: wf_catalog_def rendered_here_def distinct_map_filter)

lemma marked_metadata:
  assumes "wf_catalog cat"
  shows "marked now s run t (mark_metadata now s run (writable_ids cfg carried cat) t)"
  unfolding marked_def mark_metadata_def writable_ids_def
  using item_ids_disjoint(2) [OF assms]
  by (intro exI [where x = "\<lambda>r. o_server r = s \<and> o_status r \<noteq> S_absent \<and> o_status r \<noteq> S_skipped \<and>
    o_key r \<in> set (writable_ids cfg carried cat)"] exI [where x = "writable_ids cfg carried cat"])
    (simp add: writable_ids_def)

lemma marked_artwork:
  assumes "wf_catalog cat"
  shows "marked now s run t (mark_artwork now s run (rendered_here carried cat) t)"
  unfolding marked_def mark_artwork_def
  using rendered_distinct [OF assms]
  by (intro exI [where x = "behind s (rendered_here carried cat)"]
    exI [where x = "map rn_id (rendered_here carried cat)"]) (simp add: behind_def)

lemma start_marks:
  assumes "wf_catalog cat" and "start_catch_up clock now name cad cfg cat d = Inr (d1, run)"
  defines "o1 \<equiv> present_outs now name cfg cat (outs d)"
  shows "open_catch_up name (rtab d) = None" and "run = run_next (rtab d)"
    and "marked now name run (arts o1) (arts (outs d1))" and "marked now name run (metas o1) (metas (outs d1))"
    and "\<exists>c. rtab d1 = set_run run (\<lambda>r. r\<lparr>r_server := Some name, r_cadence := c\<rparr>)
      (fst (open_run clock CATCH_UP_KIND (run_name name) (rtab d)))"
proof -
  obtain carried where c: "listing cfg = Inr carried" and free: "open_catch_up name (rtab d) = None"
    using assms(2) by (auto simp: start_catch_up_def split: if_splits sum.splits)
  have guards: "configured cfg" "scheduler_on cfg" "poller_healthy cfg \<noteq> Some False"
    using assms(2) by (auto simp: start_catch_up_def split: if_splits)
  have o1: "o1 = (if carried = [] then outs d else fst (apply_presence now name carried cat (outs d)))"
    by (cases carried) (simp_all add: o1_def present_outs_def c)
  note start = assms(2) [unfolded start_catch_up_def, simplified guards c free, simplified,
    folded o1, unfolded Let_def open_run_def, simplified]
  show "open_catch_up name (rtab d) = None" by (rule free)
  show "run = run_next (rtab d)" using start by (auto split: if_splits)
  show "marked now name run (arts o1) (arts (outs d1))"
    using start marked_none marked_artwork [OF assms(1)] by (auto split: if_splits)
  show "marked now name run (metas o1) (metas (outs d1))"
    using start marked_none marked_metadata [OF assms(1)] by (auto split: if_splits)
  show "\<exists>c. rtab d1 = set_run run (\<lambda>r. r\<lparr>r_server := Some name, r_cadence := c\<rparr>)
      (fst (open_run clock CATCH_UP_KIND (run_name name) (rtab d)))"
    using start by (auto simp: open_run_def Let_def split: if_splits)
qed

text \<open>The run table a start leaves: one more row, open, for this server.\<close>

lemma open_run_runs:
  "runs (fst (open_run clock kind name t)) =
     update_where (\<lambda>r. r_kind r = ''scheduled'' \<and> r_name r = name \<and> is_open r)
       (\<lambda>r. r\<lparr>r_finished := Some clock, r_status := ''interrupted''\<rparr>) (runs t) @
     [fresh_run (run_next t) clock kind name]"
  by (simp add: open_run_def Let_def)

definition catch_run :: "string \<Rightarrow> run \<Rightarrow> bool" where
  "catch_run name r \<longleftrightarrow> r_kind r = CATCH_UP_KIND \<and> r_server r = Some name \<and> is_open r"

lemma open_catch_up_find: "open_catch_up name t = List.find (catch_run name) (runs t)"
  by (simp add: open_catch_up_def catch_run_def [abs_def])

lemma catch_not_scheduled: "r_kind r = CATCH_UP_KIND \<Longrightarrow> r_kind r \<noteq> ''scheduled''"
  by (simp add: CATCH_UP_KIND_def)

definition started_row :: "nat \<Rightarrow> instant \<Rightarrow> string \<Rightarrow> int option \<Rightarrow> run" where
  "started_row i clock name c = (fresh_run i clock CATCH_UP_KIND (run_name name))
     \<lparr>r_server := Some name, r_cadence := c\<rparr>"

lemma started_runs:
  assumes "wf_runs t"
  shows "\<exists>rs. runs (set_run (run_next t) (\<lambda>r. r\<lparr>r_server := Some name, r_cadence := c\<rparr>)
      (fst (open_run clock CATCH_UP_KIND (run_name name) t))) = rs @ [started_row (run_next t) clock name c] \<and>
    map r_id rs = map r_id (runs t) \<and>
    (\<forall>r. r_kind r = CATCH_UP_KIND \<longrightarrow> r \<in> set rs \<longleftrightarrow> r \<in> set (runs t)) \<and>
    (\<forall>nm. List.find (catch_run nm) rs = List.find (catch_run nm) (runs t))"
proof -
  let ?f = "\<lambda>r. r\<lparr>r_finished := Some clock, r_status := ''interrupted''\<rparr> :: run"
  let ?P = "\<lambda>r. r_kind r = ''scheduled'' \<and> r_name r = run_name name \<and> is_open r"
  let ?rs = "update_where ?P ?f (runs t)"
  have ids: "map r_id ?rs = map r_id (runs t)" by (rule map_id_update) simp
  have "\<forall>i \<in> set (map r_id ?rs). i < run_next t"
    using assms wf_runs_ids [of t] unfolding ids by blast
  then have "update_where (\<lambda>r. r_id r = run_next t) (\<lambda>r. r\<lparr>r_server := Some name, r_cadence := c\<rparr>) ?rs = ?rs"
    by (intro update_where_other) auto
  then have "runs (set_run (run_next t) (\<lambda>r. r\<lparr>r_server := Some name, r_cadence := c\<rparr>)
      (fst (open_run clock CATCH_UP_KIND (run_name name) t))) = ?rs @ [started_row (run_next t) clock name c]"
    by (simp add: set_run_def open_run_runs update_where_def started_row_def fresh_run_def)
  moreover have "r \<in> set ?rs \<longleftrightarrow> r \<in> set (runs t)" if "r_kind r = CATCH_UP_KIND" for r
    using that by (auto simp: update_where_def CATCH_UP_KIND_def)
  moreover have "List.find (catch_run nm) (update_where ?P ?f qs) = List.find (catch_run nm) qs" for nm qs
    by (induction qs) (auto simp: catch_run_def CATCH_UP_KIND_def)
  ultimately show ?thesis using ids by blast
qed

lemma find_append_None:
  "List.find P xs = None \<Longrightarrow> P x \<Longrightarrow> List.find P (xs @ [x]) = Some x"
  by (simp add: find_append)

lemma started_row_sel [simp]:
  "r_id (started_row i clock name c) = i" "r_kind (started_row i clock name c) = CATCH_UP_KIND"
  "r_server (started_row i clock name c) = Some name" "is_open (started_row i clock name c)"
  by (simp_all add: started_row_def fresh_run_def is_open_def)

lemma finish_spec:
  assumes "\<exists>r \<in> set (runs (rtab d)). r_id r = run \<and> is_open r"
  shows "outs (fst (finish_catch_up clock run st detail g d)) =
      (outs d)\<lparr>arts := release_run run (arts (outs d)), metas := release_run run (metas (outs d))\<rparr>"
    and "runs (rtab (fst (finish_catch_up clock run st detail g d))) =
      update_where (\<lambda>r. r_id r = run) (\<lambda>r. r\<lparr>r_finished := Some clock, r_status := st,
          r_detail := Some (take DETAIL_WIDTH detail)\<rparr>)
        (update_where (\<lambda>r. r_id r = run \<and> is_open r)
          (\<lambda>r. r\<lparr>r_processed := Some (t_total (case g of None \<Rightarrow> run_tallies run (outs d) | Some n \<Rightarrow> n)),
               r_failed := Some (t_failed (case g of None \<Rightarrow> run_tallies run (outs d) | Some n \<Rightarrow> n)),
               r_deferred := Some (t_due (case g of None \<Rightarrow> run_tallies run (outs d) | Some n \<Rightarrow> n))\<rparr>)
          (runs (rtab d)))"
    and "run_next (rtab (fst (finish_catch_up clock run st detail g d))) = run_next (rtab d)"
  using assms by (simp_all add: finish_catch_up_def Let_def close_run_def)

lemma cancel_form:
  assumes "open_catch_up name (rtab d) = Some q" and "r_id q = run"
    and "cancel_rows now run (arts (outs d)) = (a, ra, da)"
    and "cancel_rows now run (metas (outs d)) = (m, rm, dm)"
  shows "\<exists>c' detail g x. cancel_catch_up clock now name d = Inr (fst (finish_catch_up clock run
      ''cancelled'' detail (Some g) (d\<lparr>outs := \<lparr>arts = a, metas = m, ups = c'\<rparr>\<rparr>)), x) \<and> x_run x = run"
  unfolding cancel_catch_up_def assms(1) option.case Let_def assms(2-4) prod.case case_prod_beta fst_conv snd_conv
  by (intro exI conjI, rule refl) simp

lemma look_release:
  "look (release_run run t) k s = map_option (\<lambda>r. if o_run_id r = Some run then release_row r else r) (look t k s)"
  unfolding release_run_def by (rule look_update_rows) simp_all

lemma same_table_release:
  assumes "same_table t t'" and "idle_server s run t"
  shows "same_table t (release_run run t')"
  unfolding same_table_def
proof (intro allI)
  fix k s'
  have "rel_option same_outcome (look t k s') (look t' k s')" using assms(1) by (simp add: same_table_def)
  moreover have "look t k s' = Some r \<Longrightarrow> o_run_id r \<noteq> Some run" for r
    using assms(2) by (auto simp: idle_server_def)
  ultimately show "rel_option same_outcome (look t k s') (look (release_run run t') k s')"
    by (cases "look t k s'"; cases "look t' k s'") (auto simp: look_release same_outcome_def)
qed

text \<open>
  C15: a cancel undoes a start. For a server with no catch-up in flight, starting one and
  cancelling it before anything was drained gives both tables back as presence left them: the
  same rows, each with its status, delivery time, fingerprint and no run; rows the run
  created are gone; the run is closed as cancelled and none is in flight.
\<close>

theorem cancel_undoes_start:
  assumes "wf_catalog cat" and "wf_runs (rtab d)"
    and "keyed (arts (outs d))" and "keyed (metas (outs d))"
    and "idle_server name (run_next (rtab d)) (arts (outs d))"
    and "idle_server name (run_next (rtab d)) (metas (outs d))"
    and "start_catch_up clock now name cad cfg cat d = Inr (d1, run)"
  shows "\<exists>d2 x. cancel_catch_up clock' now' name d1 = Inr (d2, x) \<and> x_run x = run \<and>
    same_table (arts (present_outs now name cfg cat (outs d))) (arts (outs d2)) \<and>
    same_table (metas (present_outs now name cfg cat (outs d))) (metas (outs d2)) \<and>
    open_catch_up name (rtab d2) = None \<and>
    (\<exists>q \<in> set (runs (rtab d2)). r_id q = run \<and> r_status q = ''cancelled'')"
proof -
  let ?o1 = "present_outs now name cfg cat (outs d)"
  note sm = start_marks [OF assms(1,7)]
  obtain c where rt: "rtab d1 = set_run run (\<lambda>r. r\<lparr>r_server := Some name, r_cadence := c\<rparr>)
      (fst (open_run clock CATCH_UP_KIND (run_name name) (rtab d)))"
    using sm(5) by blast
  obtain rs where rs: "runs (rtab d1) = rs @ [started_row run clock name c]"
    and ids: "map r_id rs = map r_id (runs (rtab d))"
    and free: "List.find (catch_run name) rs = None"
    using started_runs [OF assms(2), where name = name and c = c and clock = clock] sm(1,2)
    by (auto simp: rt open_catch_up_find)
  have q: "open_catch_up name (rtab d1) = Some (started_row run clock name c)"
    using find_append_None [OF free, of "started_row run clock name c"]
    by (simp add: open_catch_up_find rs catch_run_def)
  have idle: "idle_server name run (arts ?o1)" "idle_server name run (metas ?o1)"
    "keyed (arts ?o1)" "keyed (metas ?o1)"
    using idle_present [OF assms(1,5,6,3,4), of now cfg] sm(2) by auto
  obtain a ra da where a: "cancel_rows now' run (arts (outs d1)) = (a, ra, da)"
    by (cases "cancel_rows now' run (arts (outs d1))") auto
  obtain m rm dm where m: "cancel_rows now' run (metas (outs d1)) = (m, rm, dm)"
    by (cases "cancel_rows now' run (metas (outs d1))") auto
  have sa: "same_table (arts ?o1) (release_run run a)"
    using mark_cancel [OF sm(3) idle(3) _ a] idle(1) same_table_release by (auto simp: idle_server_def)
  have sm': "same_table (metas ?o1) (release_run run m)"
    using mark_cancel [OF sm(4) idle(4) _ m] idle(2) same_table_release by (auto simp: idle_server_def)
  obtain c' detail g x where x: "cancel_catch_up clock' now' name d1 = Inr (fst (finish_catch_up clock' run
      ''cancelled'' detail (Some g) (d1\<lparr>outs := \<lparr>arts = a, metas = m, ups = c'\<rparr>\<rparr>)), x)" "x_run x = run"
    using cancel_form [OF q _ a m, of clock'] by auto
  define d2 where d2': "d2 = fst (finish_catch_up clock' run ''cancelled'' detail (Some g)
      (d1\<lparr>outs := \<lparr>arts = a, metas = m, ups = c'\<rparr>\<rparr>))"
  let ?d = "d1\<lparr>outs := \<lparr>arts = a, metas = m, ups = c'\<rparr>\<rparr>"
  have op: "\<exists>r \<in> set (runs (rtab ?d)). r_id r = run \<and> is_open r"
    using rs by (intro bexI [of _ "started_row run clock name c"]) simp_all
  note fin = finish_spec [OF op, of clock' "''cancelled''" detail "Some g"]
  have "same_table (arts ?o1) (arts (outs d2)) \<and> same_table (metas ?o1) (metas (outs d2))"
    using sa sm' fin(1) by (simp add: d2')
  moreover have "open_catch_up name (rtab d2) = None"
  proof -
    have "\<forall>r \<in> set rs. \<not> catch_run name r" using free by (simp add: find_None)
    then have "\<forall>r \<in> set (runs (rtab d2)). \<not> catch_run name r"
      unfolding d2' fin(2) by (auto simp: update_where_def rs catch_run_def is_open_def)
    then show ?thesis by (simp add: open_catch_up_find find_None)
  qed
  moreover have "\<exists>q \<in> set (runs (rtab d2)). r_id q = run \<and> r_status q = ''cancelled''"
    unfolding d2' fin(2) by (simp add: rs update_where_def)
  ultimately show ?thesis using x d2' by blast
qed

definition all_on :: catch_config where
  "all_on = \<lparr>configured = True, scheduler_on = True, poller_healthy = None, listing = Inr [''Movies''],
     pending_minutes = 15, ops_on = True, ops_write_to = True, field_verbs = False,
     parental_labels = False, badges_on = True, badges_upload_to = True\<rparr>"

definition empty_db :: db where
  "empty_db = \<lparr>outs = no_outcomes, rtab = \<lparr>runs = [], run_next = 1\<rparr>\<rparr>"

lemma all_on_starts:
  "case start_catch_up 1 2 ''plex'' None all_on small_catalog empty_db of
     Inl _ \<Rightarrow> False
   | Inr (d, i) \<Rightarrow> list_ex (\<lambda>r. o_run_id r = Some 1) (o_rows (metas (outs d)))"
  by code_simp

theorem cancel_undoes_start_witness:
  "\<exists>d1 run d2 x. start_catch_up 1 2 ''plex'' None all_on small_catalog empty_db = Inr (d1, run) \<and>
     cancel_catch_up 3 4 ''plex'' d1 = Inr (d2, x) \<and> open_catch_up ''plex'' (rtab d2) = None"
proof -
  obtain d1 run where s: "start_catch_up 1 2 ''plex'' None all_on small_catalog empty_db = Inr (d1, run)"
    using all_on_starts by (auto split: sum.splits)
  have "wf_runs (rtab empty_db)" "keyed (arts (outs empty_db))" "keyed (metas (outs empty_db))"
    "idle_server ''plex'' (run_next (rtab empty_db)) (arts (outs empty_db))"
    "idle_server ''plex'' (run_next (rtab empty_db)) (metas (outs empty_db))"
    by (simp_all add: empty_db_def no_outcomes_def wf_runs_def keyed_def idle_server_def look_def)
  from cancel_undoes_start [OF wf_small_catalog this s, of 3 4] s show ?thesis by blast
qed

end
