(* ===== verification/Catchup_Ownership.thy ===== *)
theory Catchup_Ownership
  imports Catchup_Props
begin

text \<open>
  Which run owns which outcome row. Every transaction that touches the two outcome tables or
  the runs is one step, so the interleavings of a drain with a cancel, a save or a webhook
  are sequences of steps; the invariant is that a row carries the id of an open catch-up of
  its own server or none, and that no server has two open.
\<close>

subsection \<open>References\<close>

definition refs :: "outcome_tab \<Rightarrow> (string \<times> nat) set" where
  "refs t = {(o_server r, i) | r i. r \<in> set (o_rows t) \<and> o_run_id r = Some i}"

definition live_runs :: "run_tab \<Rightarrow> (string \<times> nat) set" where
  "live_runs t = {(s, r_id q) | s q. q \<in> set (runs t) \<and> catch_run s q}"

definition run_inv :: "db \<Rightarrow> bool" where
  "run_inv d \<longleftrightarrow> wf_runs (rtab d) \<and>
     (\<forall>s i j. (s, i) \<in> live_runs (rtab d) \<and> (s, j) \<in> live_runs (rtab d) \<longrightarrow> i = j) \<and>
     refs (arts (outs d)) \<union> refs (metas (outs d)) \<subseteq> live_runs (rtab d)"

named_theorems ref_rules

lemma refs_I: "r \<in> set (o_rows t) \<Longrightarrow> o_run_id r = Some i \<Longrightarrow> o_server r = s \<Longrightarrow> (s, i) \<in> refs t"
  by (auto simp: refs_def)

lemma refs_rows:
  assumes "\<And>r i. r \<in> set (o_rows t') \<Longrightarrow> o_run_id r = Some i \<Longrightarrow> (o_server r, i) \<in> refs t \<union> X"
  shows "refs t' \<subseteq> refs t \<union> X"
proof
  fix p assume "p \<in> refs t'"
  then obtain r i where "p = (o_server r, i)" "r \<in> set (o_rows t')" "o_run_id r = Some i"
    by (auto simp: refs_def)
  with assms show "p \<in> refs t \<union> X" by simp
qed

lemma refs_update_rows:
  assumes "\<And>r. o_server (f r) = o_server r"
    and "\<And>r i. P r \<Longrightarrow> o_run_id (f r) = Some i \<Longrightarrow> o_run_id r = Some i \<or> (o_server r, i) \<in> X"
  shows "refs (fst (update_rows P f t)) \<subseteq> refs t \<union> X"
proof (rule refs_rows)
  fix r' i assume r': "r' \<in> set (o_rows (fst (update_rows P f t)))" "o_run_id r' = Some i"
  then obtain r where "r \<in> set (o_rows t)" "r' = (if P r then f r else r)"
    by (auto simp: update_rows_def update_where_def)
  with r'(2) assms show "(o_server r', i) \<in> refs t \<union> X"
    by (cases "P r") (auto intro: refs_I)
qed

lemma refs_keep_update:
  assumes "\<And>r. o_server (f r) = o_server r" and "\<And>r. o_run_id (f r) = o_run_id r \<or> o_run_id (f r) = None"
  shows "refs (fst (update_rows P f t)) \<subseteq> refs t"
  using refs_update_rows [where X = "{}" and f = f and P = P and t = t] assms
  by (metis (no_types, opaque_lifting) option.distinct(1) sup_bot_right)

lemma refs_delete: "refs (fst (delete_rows P t)) \<subseteq> refs t"
  by (auto simp: refs_def delete_rows_def)

lemma refs_insert_select:
  assumes "\<And>i k j. o_run_id (mk i k) = Some j \<Longrightarrow> (o_server (mk i k), j) \<in> X"
    and "\<And>r. o_server (upd r) = o_server r" and "\<And>r. o_run_id (upd r) = o_run_id r"
  shows "refs (fst (insert_select s mk cond upd ks t)) \<subseteq> refs t \<union> X"
proof (induction ks arbitrary: t)
  case Nil
  then show ?case by simp
next
  case (Cons k ks)
  define t1 where "t1 = (case look t k s of
       None \<Rightarrow> t\<lparr>o_next := Suc (o_next t), o_rows := o_rows t @ [mk (o_next t) k]\<rparr>
     | Some r \<Rightarrow> if cond r then t\<lparr>o_next := Suc (o_next t),
          o_rows := update_where (at_key k s) (\<lambda>_. upd r) (o_rows t)\<rparr>
        else t\<lparr>o_next := Suc (o_next t)\<rparr>)"
  have fst_step: "fst (insert_select s mk cond upd (k # ks) t) = fst (insert_select s mk cond upd ks t1)"
    by (simp add: insert_select.simps(2) t1_def Let_def split: option.split prod.split)
  have "refs t1 \<subseteq> refs t \<union> X"
  proof (cases "look t k s")
    case None
    then show ?thesis using assms(1) by (auto simp: t1_def refs_def)
  next
    case (Some r)
    note m = look_mem [OF Some]
    show ?thesis
    proof (rule refs_rows)
      fix r' i assume r': "r' \<in> set (o_rows t1)" "o_run_id r' = Some i"
      then have "r' \<in> set (o_rows t) \<or> r' = upd r"
        using Some by (auto simp: t1_def update_where_def split: if_splits)
      with r'(2) m assms(2,3) show "(o_server r', i) \<in> refs t \<union> X"
        by (auto intro: refs_I)
    qed
  qed
  with Cons.IH [of t1] show ?case unfolding fst_step by blast
qed

lemma refs_upsert:
  assumes "upsert_outcome terminal now k s a t = Inr (t', n)"
  shows "refs t' \<subseteq> refs t"
proof -
  have sel: "o_run_id (fresh_row now terminal i k s a hz) = None"
    "o_run_id (updated_row now terminal a hz r) = (if leave_run a then None else o_run_id r)"
    "o_server (updated_row now terminal a hz r) = o_server r" for i hz r
    by (simp_all add: fresh_row_def updated_row_def)
  obtain hz where hz: "horizon now a = Inr hz"
    and st: "w_status a \<in> set STATUSES \<or> w_status a = terminal"
    using assms by (auto simp: upsert_outcome_def split: if_splits sum.splits)
  show ?thesis
  proof (cases "look t k s")
    case None
    then have "o_rows t' = o_rows t @ [fresh_row now terminal (o_next t) k s a hz]"
      using assms hz st by (auto simp: upsert_outcome_def Let_def split: if_splits)
    then show ?thesis using sel(1) by (auto simp: refs_def)
  next
    case (Some r)
    then have rows: "o_rows t' = o_rows t \<or>
        o_rows t' = update_where (at_key k s) (\<lambda>_. updated_row now terminal a hz r) (o_rows t)"
      using assms hz st by (auto simp: upsert_outcome_def Let_def split: if_splits)
    note m = look_mem [OF Some]
    have "refs t' \<subseteq> refs t \<union> {}"
    proof (rule refs_rows)
      fix r' i assume r': "r' \<in> set (o_rows t')" "o_run_id r' = Some i"
      then have "r' \<in> set (o_rows t) \<or> r' = updated_row now terminal a hz r"
        using rows by (auto simp: update_where_def split: if_splits)
      with r'(2) m sel show "(o_server r', i) \<in> refs t \<union> {}"
        by (auto intro: refs_I split: if_splits)
    qed
    then show ?thesis by simp
  qed
qed

subsection \<open>The retry pass keeps references\<close>

text \<open>Bounded references, as a predicate the introduction rules below decompose.\<close>

definition refs_in :: "(string \<times> nat) set \<Rightarrow> outcome_tab \<Rightarrow> bool" where
  "refs_in R t \<longleftrightarrow> refs t \<subseteq> R"

lemma refs_in_refl: "refs_in (refs t) t"
  by (simp add: refs_in_def)

lemma refs_settle [ref_rules]:
  "refs_in R (dtab st) \<Longrightarrow> refs_in R (dtab (fst (settle_as env k w st)))"
  by (simp add: settle_as_def)

lemma refs_put [ref_rules]:
  assumes "refs_in R (dtab st)"
    and "\<And>st' n. refs_in R (dtab st') \<Longrightarrow> refs_in R (dtab (fst (cont st' n)))"
  shows "refs_in R (dtab (fst (put_row now k s a st cont)))"
proof (cases "record_delivery now k s a (dtab st)")
  case (Inl e)
  then show ?thesis using assms(1) by (simp add: put_row_def)
next
  case (Inr p)
  obtain t' n where p: "p = (t', n)" by (cases p)
  have "refs t' \<subseteq> refs (dtab st)"
    using refs_upsert Inr unfolding record_delivery_def p by blast
  then have "refs_in R t'" using assms(1) unfolding refs_in_def by blast
  then show ?thesis using assms(2) by (simp add: put_row_def Inr p)
qed

lemma refs_put_meta [ref_rules]:
  assumes "refs_in R t" and "\<And>t' n. refs_in R t' \<Longrightarrow> refs_in R (fst (cont t' n))"
  shows "refs_in R (fst (put_meta now k s a t cont))"
proof (cases "record_metadata now k s a t")
  case (Inl e)
  then show ?thesis using assms(1) by (simp add: put_meta_def)
next
  case (Inr p)
  obtain t' n where p: "p = (t', n)" by (cases p)
  have "refs t' \<subseteq> refs t"
    using refs_upsert Inr unfolding record_metadata_def p by blast
  then have "refs_in R t'" using assms(1) unfolding refs_in_def by blast
  then show ?thesis using assms(2) by (simp add: put_meta_def Inr p)
qed

lemma refs_deliver [ref_rules]:
  "refs_in R (dtab st) \<Longrightarrow> refs_in R (dtab (fst (deliver_row now env k s b st)))"
  by (auto simp: deliver_row_def intro!: ref_rules split: sum.split option.split)

lemma refs_identity [ref_rules]:
  "refs_in R (dtab st) \<Longrightarrow> refs_in R (dtab (fst (identity_phase now m env k s b st)))"
  by (auto simp: identity_phase_def intro!: ref_rules split: resolve_result.split)

lemma refs_retry: "refs_in R (dtab st) \<Longrightarrow> refs_in R (dtab (fst (retry_delivery now m env k s st)))"
  by (auto simp: retry_delivery_def intro!: ref_rules split: resolve_result.split option.split)

lemma refs_retry_meta: "refs_in R t \<Longrightarrow> refs_in R (fst (retry_metadata now m env k s t))"
  by (auto simp: retry_metadata_def meta_trouble_def intro!: ref_rules
      split: resolve_result.split apply_result.split)

lemma refs_process_row:
  assumes "\<And>st. refs_in R (dtab st) \<Longrightarrow> refs_in R (dtab (fst (body st)))" and "refs_in R (dtab (fst acc))"
  shows "refs_in R (dtab (fst (process_row body ok s acc)))"
  using assms(1) [of "fst acc"] assms(2)
  by (cases acc) (auto simp: process_row_def Let_def split: prod.split)

lemma refs_process_meta:
  assumes "\<And>t. refs_in R t \<Longrightarrow> refs_in R (fst (body t))" and "refs_in R (fst acc)"
  shows "refs_in R (fst (process_meta body ok s acc))"
  using assms(1) [of "fst acc"] assms(2)
  by (cases acc) (auto simp: process_meta_def Let_def split: prod.split)

lemma refs_artwork_pass:
  "refs_in R (dtab (fst acc)) \<Longrightarrow> refs_in R (dtab (fst (artwork_pass now m envs rows acc)))"
proof (induction rows arbitrary: acc)
  case Nil
  then show ?case by (simp add: artwork_pass_def)
next
  case (Cons r rows)
  have "refs_in R (dtab (fst (process_row (retry_delivery now m (envs r) (o_key r) (o_server r))
      (e_commit_ok (envs r)) (o_server r) acc)))"
    by (rule refs_process_row [OF refs_retry Cons.prems])
  from Cons.IH [OF this] show ?case by (simp add: artwork_pass_def)
qed

lemma refs_metadata_pass:
  "refs_in R (fst acc) \<Longrightarrow> refs_in R (fst (metadata_pass now m envs rows acc))"
proof (induction rows arbitrary: acc)
  case Nil
  then show ?case by (simp add: metadata_pass_def)
next
  case (Cons r rows)
  have "refs_in R (fst (process_meta (retry_metadata now m (envs r) (o_key r) (o_server r))
      (m_commit_ok (envs r)) (o_server r) acc))"
    by (rule refs_process_meta [OF refs_retry_meta Cons.prems])
  from Cons.IH [OF this] show ?case by (simp add: metadata_pass_def)
qed

lemma refs_retry_pass:
  assumes "retry_pending_deliveries now m server run_id art meta st writes = (st', writes', c)"
  shows "refs (dtab st') \<subseteq> refs (dtab st)" and "refs writes' \<subseteq> refs writes"
  using assms refs_artwork_pass [of "refs (dtab st)" "(st, c0)" for c0]
    refs_metadata_pass [of "refs writes" "(writes, c0)" for c0] refs_in_refl
  by (auto simp: retry_pending_deliveries_def Let_def refs_in_def split: prod.splits) (metis fst_conv subsetD)+

subsection \<open>Presence and marking\<close>

lemma refs_presence_tab:
  assumes "presence_tab now s terminal away here t = (t', n, m)"
  shows "refs t' \<subseteq> refs t"
proof -
  have "refs (fst (stamp_absent now s terminal away t)) \<subseteq> refs t \<union> {}"
    unfolding stamp_absent_def
    by (rule refs_insert_select) (simp_all add: blank_row_def absent_update_def)
  moreover have "refs (fst (rearm_absent now s here t1)) \<subseteq> refs t1" for t1
    unfolding rearm_absent_def by (rule refs_keep_update) (simp_all add: rearm_update_def)
  moreover have "t' = fst (rearm_absent now s here (fst (stamp_absent now s terminal away t)))"
    using assms by (auto simp: presence_tab_def split: prod.splits)
  ultimately show ?thesis by blast
qed

lemma refs_presence:
  assumes "apply_presence now s carried cat o0 = (o1, n)"
  shows "refs (arts o1) \<subseteq> refs (arts o0)" and "refs (metas o1) \<subseteq> refs (metas o0)"
proof -
  have st: "refs (fst (stamp_absent now s terminal keys t)) \<subseteq> refs t" for terminal keys t
    using refs_insert_select [where X = "{}" and s = s and t = t and ks = keys
        and mk = "blank_row now s S_absent (Some ABSENT_DETAIL) None None"
        and cond = "reclassified terminal" and upd = "absent_update now"]
    by (simp add: stamp_absent_def blank_row_def absent_update_def)
  have "refs (metas o1) \<subseteq> refs (metas o0) \<and> refs (arts o1) \<subseteq> refs (arts o0)"
  proof (cases "carried = []")
    case True
    with assms st show ?thesis by (auto simp: apply_presence_def Let_def split: prod.splits) (metis fst_conv subsetD)+
  next
    case False
    from apply_presence_tabs [OF assms False] refs_presence_tab show ?thesis by blast
  qed
  then show "refs (arts o1) \<subseteq> refs (arts o0)" "refs (metas o1) \<subseteq> refs (metas o0)" by simp_all
qed

lemma refs_present_outs:
  "refs (arts (present_outs now name cfg cat o0)) \<subseteq> refs (arts o0) \<and>
   refs (metas (present_outs now name cfg cat o0)) \<subseteq> refs (metas o0)"
proof (cases "\<exists>l ls. listing cfg = Inr (l # ls)")
  case False
  then show ?thesis by (auto simp: present_outs_def split: sum.splits list.splits)
next
  case True
  then obtain l ls where c: "listing cfg = Inr (l # ls)" by blast
  obtain o1 n where a: "apply_presence now name (l # ls) cat o0 = (o1, n)" by fastforce
  show ?thesis using refs_presence [OF a] by (simp add: present_outs_def c a)
qed

lemma refs_marked:
  assumes "marked now s run t t'"
  shows "refs t' \<subseteq> refs t \<union> {(s, run)}"
proof -
  obtain P keys where P: "\<forall>r. P r \<longrightarrow> o_server r = s"
    and t': "t' = mark_new now s run keys (fst (update_rows P (arm_row now run) t))"
    using assms by (auto simp: marked_def)
  have "refs (fst (update_rows P (arm_row now run) t)) \<subseteq> refs t \<union> {(s, run)}"
    by (rule refs_update_rows) (use P in simp_all)
  moreover have "refs (fst (insert_select s (blank_row now s S_pending None (Some now) (Some run))
      (\<lambda>_. False) id keys u)) \<subseteq> refs u \<union> {(s, run)}" for u
    by (rule refs_insert_select) (simp_all add: blank_row_def)
  ultimately show ?thesis unfolding t' mark_new_def by blast
qed

subsection \<open>Release, cancel, retry\<close>

lemma refs_release: "refs (release_run i t) \<subseteq> {p \<in> refs t. snd p \<noteq> i}"
  by (auto simp: release_run_def update_rows_def update_where_def refs_def split: if_splits)

lemma refs_cancel_rows:
  assumes "cancel_rows now i t = (t', n, m)"
  shows "refs t' \<subseteq> {p \<in> refs t. snd p \<noteq> i}"
proof -
  let ?del = "\<lambda>r. o_run_id r = Some i \<and> o_status r = S_pending \<and> previous_status r = None"
  let ?res = "\<lambda>r. o_run_id r = Some i \<and> o_status r = S_pending \<and> previous_status r \<noteq> None"
  have t': "t' = release_run i (fst (update_rows ?res (restore_row now) (fst (delete_rows ?del t))))"
    using assms by (auto simp: cancel_rows_def Let_def split: prod.splits)
  have "refs (fst (update_rows ?res (restore_row now) u)) \<subseteq> refs u" for u
    by (rule refs_keep_update) simp_all
  then have "refs (fst (update_rows ?res (restore_row now) (fst (delete_rows ?del t)))) \<subseteq> refs t"
    using refs_delete by blast
  then show ?thesis unfolding t' using refs_release by blast
qed

lemma refs_rearm_failed: "refs (fst (rearm_failed now name t)) \<subseteq> refs t"
  unfolding rearm_failed_def by (rule refs_keep_update) simp_all

subsection \<open>The runs\<close>

lemma run_inv_keep:
  assumes "run_inv d" and "wf_runs (rtab d')" and "live_runs (rtab d') = live_runs (rtab d)"
    and "refs (arts (outs d')) \<subseteq> refs (arts (outs d))" and "refs (metas (outs d')) \<subseteq> refs (metas (outs d))"
  shows "run_inv d'"
  using assms unfolding run_inv_def by simp blast

lemma run_inv_same_runs:
  assumes "run_inv d" and "rtab d' = rtab d"
    and "refs (arts (outs d')) \<subseteq> refs (arts (outs d))" and "refs (metas (outs d')) \<subseteq> refs (metas (outs d))"
  shows "run_inv d'"
  by (rule run_inv_keep [OF assms(1)]) (use assms in \<open>simp_all add: run_inv_def\<close>)

lemma run_inv_close:
  assumes "run_inv d" and "wf_runs (rtab d')" and "live_runs (rtab d') = {p \<in> live_runs (rtab d). snd p \<noteq> i}"
    and "refs (arts (outs d')) \<subseteq> {p \<in> refs (arts (outs d)). snd p \<noteq> i}"
    and "refs (metas (outs d')) \<subseteq> {p \<in> refs (metas (outs d)). snd p \<noteq> i}"
  shows "run_inv d'"
  using assms unfolding run_inv_def by simp blast

text \<open>An update of the run table row by row, with what it does to the open catch-ups.\<close>

lemma live_runs_iff: "(s, i) \<in> live_runs t \<longleftrightarrow> (\<exists>q \<in> set (runs t). catch_run s q \<and> r_id q = i)"
  by (auto simp: live_runs_def)

lemma live_runs_eqI:
  assumes "\<And>s i. (\<exists>q \<in> set (runs t'). catch_run s q \<and> r_id q = i) \<longleftrightarrow> (s, i) \<in> S"
  shows "live_runs t' = S"
  using assms by (auto simp: live_runs_iff)

lemma live_update_iff:
  assumes "\<And>r. r_id (f r) = r_id r"
    and "\<And>r s. r \<in> set rs \<Longrightarrow> P r \<Longrightarrow> catch_run s (f r) \<longleftrightarrow> catch_run s r"
  shows "(\<exists>q \<in> set (update_where P f rs). catch_run s q \<and> r_id q = i) \<longleftrightarrow>
    (\<exists>q \<in> set rs. catch_run s q \<and> r_id q = i)"
proof -
  have "set (update_where P f rs) = (\<lambda>r. if P r then f r else r) ` set rs" by (simp add: update_where_def)
  moreover have "catch_run s (if P r then f r else r) \<and> r_id (if P r then f r else r) = i \<longleftrightarrow>
      catch_run s r \<and> r_id r = i" if "r \<in> set rs" for r
    using assms(1) [of r] assms(2) [OF that] by (cases "P r") simp_all
  ultimately show ?thesis by (simp only: bex_simps) (rule bex_cong [OF refl])
qed

lemma live_runs_update:
  assumes "\<And>r. r_id (f r) = r_id r"
    and "\<And>r s. r \<in> set (runs t) \<Longrightarrow> P r \<Longrightarrow> catch_run s (f r) \<longleftrightarrow> catch_run s r"
  shows "live_runs (t\<lparr>runs := update_where P f (runs t)\<rparr>) = live_runs t"
  by (rule live_runs_eqI) (simp add: live_update_iff [OF assms] live_runs_iff)

text \<open>Rows of one id are closed: the others keep their part.\<close>

lemma live_close_iff:
  assumes "\<And>r. r_id (f r) = r_id r" and "\<And>r. \<not> is_open (f r)"
  shows "(\<exists>q \<in> set (update_where (\<lambda>r. r_id r = j) f rs). catch_run s q \<and> r_id q = i) \<longleftrightarrow>
    (\<exists>q \<in> set rs. catch_run s q \<and> r_id q = i) \<and> i \<noteq> j"
proof -
  have "set (update_where (\<lambda>r. r_id r = j) f rs) = (\<lambda>r. if r_id r = j then f r else r) ` set rs"
    by (simp add: update_where_def)
  moreover have "catch_run s (if r_id r = j then f r else r) \<and> r_id (if r_id r = j then f r else r) = i \<longleftrightarrow>
      (catch_run s r \<and> r_id r = i) \<and> i \<noteq> j" for r
    using assms [of r] by (auto simp: catch_run_def)
  ultimately show ?thesis by (simp only: bex_simps)
qed

lemma wf_runs_update:
  "wf_runs t \<Longrightarrow> (\<And>r. r_id (f r) = r_id r) \<Longrightarrow> wf_runs (t\<lparr>runs := update_where P f (runs t)\<rparr>)"
  by (rule wf_runs_same_ids) (simp_all add: map_id_update)

lemma finish_live:
  fixes clock :: instant and st detail :: string and g :: "tallies option"
  assumes "wf_runs (rtab d)" and "\<exists>r \<in> set (runs (rtab d)). r_id r = i \<and> is_open r"
  defines "d' \<equiv> fst (finish_catch_up clock i st detail g d)"
  shows "wf_runs (rtab d')" and "live_runs (rtab d') = {p \<in> live_runs (rtab d). snd p \<noteq> i}"
proof -
  note fin = finish_spec [OF assms(2), of clock st detail g, folded d'_def]
  have "map r_id (runs (rtab d')) = map r_id (runs (rtab d))"
    unfolding fin(2) by (simp add: map_id_update)
  then show "wf_runs (rtab d')" using assms(1) fin(3) by (simp add: wf_runs_ids del: list.set_map)
  show "live_runs (rtab d') = {p \<in> live_runs (rtab d). snd p \<noteq> i}"
  proof (rule live_runs_eqI)
    fix s j
    show "(\<exists>q \<in> set (runs (rtab d')). catch_run s q \<and> r_id q = j) \<longleftrightarrow>
        (s, j) \<in> {p \<in> live_runs (rtab d). snd p \<noteq> i}"
      unfolding fin(2)
      by (subst live_close_iff, simp, simp add: is_open_def, subst live_update_iff)
        (simp_all add: catch_run_def is_open_def live_runs_iff)
  qed
qed

lemma finish_inv:
  assumes "run_inv d"
  shows "run_inv (fst (finish_catch_up clock i st detail g d))"
proof (cases "\<exists>r \<in> set (runs (rtab d)). r_id r = i \<and> is_open r")
  case False
  then have "fst (finish_catch_up clock i st detail g d) = d" by (auto simp: finish_catch_up_def Let_def)
  with assms show ?thesis by simp
next
  case True
  have "wf_runs (rtab d)" using assms by (simp add: run_inv_def)
  note fl = finish_live [OF this True]
  show ?thesis
    by (rule run_inv_close [OF assms fl]) (simp_all add: finish_spec(1) [OF True] refs_release)
qed

lemma cancel_inv:
  assumes "run_inv d" and "cancel_catch_up clock now name d = Inr (d', x)"
  shows "run_inv d'"
proof -
  obtain q where q: "open_catch_up name (rtab d) = Some q"
    using assms(2) by (auto simp: cancel_catch_up_def split: option.splits)
  obtain a ra da where a: "cancel_rows now (r_id q) (arts (outs d)) = (a, ra, da)"
    by (cases "cancel_rows now (r_id q) (arts (outs d))") auto
  obtain m rm dm where m: "cancel_rows now (r_id q) (metas (outs d)) = (m, rm, dm)"
    by (cases "cancel_rows now (r_id q) (metas (outs d))") auto
  obtain c' detail g where d': "d' = fst (finish_catch_up clock (r_id q) ''cancelled'' detail (Some g)
      (d\<lparr>outs := \<lparr>arts = a, metas = m, ups = c'\<rparr>\<rparr>))"
    using cancel_form [OF q refl a m, of clock] assms(2) by auto
  have "run_inv (d\<lparr>outs := \<lparr>arts = a, metas = m, ups = c'\<rparr>\<rparr>)"
    by (rule run_inv_same_runs [OF assms(1)]) (use refs_cancel_rows [OF a] refs_cancel_rows [OF m] in auto)
  then show ?thesis unfolding d' by (rule finish_inv)
qed

lemma start_inv:
  assumes "run_inv d" and "wf_catalog cat" and "start_catch_up clock now name cad cfg cat d = Inr (d', i)"
  shows "run_inv d'"
proof -
  note sm = start_marks [OF assms(2,3)]
  have wf: "wf_runs (rtab d)" using assms(1) by (simp add: run_inv_def)
  obtain c where rt: "rtab d' = set_run i (\<lambda>r. r\<lparr>r_server := Some name, r_cadence := c\<rparr>)
      (fst (open_run clock CATCH_UP_KIND (run_name name) (rtab d)))"
    using sm(5) by blast
  obtain rs where rs: "runs (rtab d') = rs @ [started_row i clock name c]"
    and ids: "map r_id rs = map r_id (runs (rtab d))"
    and same: "\<And>r. r_kind r = CATCH_UP_KIND \<Longrightarrow> r \<in> set rs \<longleftrightarrow> r \<in> set (runs (rtab d))"
    using started_runs [OF wf, where name = name and c = c and clock = clock] unfolding rt sm(2) by blast
  have nxt: "run_next (rtab d') = Suc i" unfolding rt by (simp add: set_run_def open_run_def Let_def sm(2))
  have "set (map r_id rs) = set (map r_id (runs (rtab d)))" using ids by simp
  then have wf': "wf_runs (rtab d')"
    using wf ids nxt sm(2) unfolding wf_runs_ids by (auto simp: rs less_Suc_eq simp del: list.set_map)
  have "catch_run s r \<Longrightarrow> r \<in> set rs \<longleftrightarrow> r \<in> set (runs (rtab d))" for s r
    using same [of r] by (simp add: catch_run_def)
  then have live: "live_runs (rtab d') = live_runs (rtab d) \<union> {(name, i)}"
  proof (intro live_runs_eqI)
    fix s j
    assume same': "\<And>s r. catch_run s r \<Longrightarrow> r \<in> set rs \<longleftrightarrow> r \<in> set (runs (rtab d))"
    have "(\<exists>q \<in> set (runs (rtab d')). catch_run s q \<and> r_id q = j) \<longleftrightarrow>
        (\<exists>q \<in> set rs. catch_run s q \<and> r_id q = j) \<or> s = name \<and> j = i"
      by (auto simp: rs catch_run_def)
    also have "(\<exists>q \<in> set rs. catch_run s q \<and> r_id q = j) \<longleftrightarrow> (s, j) \<in> live_runs (rtab d)"
      using same' unfolding live_runs_iff by blast
    finally show "(\<exists>q \<in> set (runs (rtab d')). catch_run s q \<and> r_id q = j) \<longleftrightarrow>
        (s, j) \<in> live_runs (rtab d) \<union> {(name, i)}" by auto
  qed
  have free: "(name, j) \<notin> live_runs (rtab d)" for j
    using sm(1) by (auto simp: live_runs_def open_catch_up_find find_None_iff)
  have "refs (arts (outs d')) \<subseteq> refs (arts (outs d)) \<union> {(name, i)}"
    "refs (metas (outs d')) \<subseteq> refs (metas (outs d)) \<union> {(name, i)}"
    using refs_marked [OF sm(3)] refs_marked [OF sm(4)] refs_present_outs [of now name cfg cat "outs d"] by blast+
  with assms(1) wf' free show ?thesis unfolding run_inv_def live by blast
qed

subsection \<open>The transactions\<close>

text \<open>
  One committed transaction on the outcome tables or the runs. A batch of the drain is its row
  commits (\<open>recorded\<close>, \<open>wrote\<close>, or a whole pass) and then the verdict, taken on the snapshot
  of the run the drain read before its batch, whatever was committed in between.
\<close>

inductive catch_step :: "db \<Rightarrow> db \<Rightarrow> bool" where
  started: "wf_catalog cat \<Longrightarrow> start_catch_up clock now name cad cfg cat d = Inr (d', i) \<Longrightarrow> catch_step d d'"
| stopped: "cancel_catch_up clock now name d = Inr (d', x) \<Longrightarrow> catch_step d d'"
| recorded: "record_delivery now k s a (arts (outs d)) = Inr (t, n) \<Longrightarrow>
    catch_step d (d\<lparr>outs := \<lparr>arts = t, metas = metas (outs d), ups = c\<rparr>\<rparr>)"
| wrote: "record_metadata now k s a (metas (outs d)) = Inr (t, n) \<Longrightarrow>
    catch_step d (d\<lparr>outs := (outs d)\<lparr>metas := t\<rparr>\<rparr>)"
| passed: "retry_pending_deliveries now m server run_id art meta
      \<lparr>dtab = arts (outs d), cols = ups (outs d)\<rparr> (metas (outs d)) = (st, w, n) \<Longrightarrow>
    catch_step d (d\<lparr>outs := \<lparr>arts = dtab st, metas = w, ups = cols st\<rparr>\<rparr>)"
| judged: "catch_step d (fst (after_batch clock now q before d))"
| rearmed: "retry_failed now name (outs d) = (o1, n) \<Longrightarrow> catch_step d (d\<lparr>outs := o1\<rparr>)"
| stamped: "apply_presence now name carried cat (outs d) = (o1, n) \<Longrightarrow> catch_step d (d\<lparr>outs := o1\<rparr>)"
| opened: "kind \<noteq> CATCH_UP_KIND \<Longrightarrow> open_run clock kind name (rtab d) = (t, i) \<Longrightarrow>
    catch_step d (d\<lparr>rtab := t\<rparr>)"
| closed: "\<forall>q \<in> set (runs (rtab d)). r_id q = i \<longrightarrow> r_kind q \<noteq> CATCH_UP_KIND \<Longrightarrow>
    catch_step d (d\<lparr>rtab := close_run clock i st detail (rtab d)\<rparr>)"

inductive_cases catch_stepE: "catch_step d d'"

lemma pass_inv:
  assumes "run_inv d" and "retry_pending_deliveries now m server run_id art meta
      \<lparr>dtab = arts (outs d), cols = ups (outs d)\<rparr> (metas (outs d)) = (st, w, n)"
  shows "run_inv (d\<lparr>outs := \<lparr>arts = dtab st, metas = w, ups = cols st\<rparr>\<rparr>)"
  by (rule run_inv_same_runs [OF assms(1)]) (use refs_retry_pass [OF assms(2)] in simp_all)

lemma judged_inv:
  assumes "run_inv d"
  shows "run_inv (fst (after_batch clock now q before d))"
proof -
  have "run_inv (d\<lparr>rtab := set_run (r_id q) (\<lambda>r. r\<lparr>r_drained := Some now, r_idle := k\<rparr>) (rtab d)\<rparr>)" for k
  proof (rule run_inv_keep [OF assms])
    have "wf_runs (rtab d)" using assms by (simp add: run_inv_def)
    then show "wf_runs (rtab (d\<lparr>rtab := set_run (r_id q) (\<lambda>r. r\<lparr>r_drained := Some now, r_idle := k\<rparr>) (rtab d)\<rparr>))"
      unfolding set_run_def by (simp add: wf_runs_update)
    show "live_runs (rtab (d\<lparr>rtab := set_run (r_id q) (\<lambda>r. r\<lparr>r_drained := Some now, r_idle := k\<rparr>) (rtab d)\<rparr>)) =
        live_runs (rtab d)"
      unfolding set_run_def by (simp add: live_runs_update catch_run_def is_open_def)
  qed simp_all
  note set = this
  show ?thesis unfolding after_batch_def Let_def by (simp add: finish_inv set)
qed

lemma opened_inv:
  assumes "run_inv d" and "kind \<noteq> CATCH_UP_KIND" and "open_run clock kind name (rtab d) = (t, i)"
  shows "run_inv (d\<lparr>rtab := t\<rparr>)"
proof (rule run_inv_keep [OF assms(1)])
  let ?P = "\<lambda>r. r_kind r = ''scheduled'' \<and> r_name r = name \<and> is_open r"
  let ?f = "\<lambda>r. r\<lparr>r_finished := Some clock, r_status := ''interrupted''\<rparr> :: run"
  have wf: "wf_runs (rtab d)" using assms(1) by (simp add: run_inv_def)
  have t: "t = \<lparr>runs = update_where ?P ?f (runs (rtab d)) @ [fresh_run (run_next (rtab d)) clock kind name],
      run_next = Suc (run_next (rtab d))\<rparr>"
    using assms(3) unfolding open_run_def Let_def by (simp only: prod.inject) metis
  have "map r_id (update_where ?P ?f (runs (rtab d))) = map r_id (runs (rtab d))"
    by (rule map_id_update) simp
  then show "wf_runs (rtab (d\<lparr>rtab := t\<rparr>))"
    using wf unfolding wf_runs_ids by (auto simp: t fresh_run_def less_Suc_eq simp del: list.set_map)
  show "live_runs (rtab (d\<lparr>rtab := t\<rparr>)) = live_runs (rtab d)"
  proof (rule live_runs_eqI)
    fix s j
    have "(\<exists>q \<in> set (update_where ?P ?f (runs (rtab d))). catch_run s q \<and> r_id q = j) \<longleftrightarrow>
        (\<exists>q \<in> set (runs (rtab d)). catch_run s q \<and> r_id q = j)"
      by (rule live_update_iff) (simp_all add: catch_run_def CATCH_UP_KIND_def)
    then show "(\<exists>q \<in> set (runs (rtab (d\<lparr>rtab := t\<rparr>))). catch_run s q \<and> r_id q = j) \<longleftrightarrow>
        (s, j) \<in> live_runs (rtab d)"
      using assms(2) by (simp add: t live_runs_iff catch_run_def fresh_run_def)
  qed
qed simp_all

lemma closed_inv:
  assumes "run_inv d" and "\<forall>q \<in> set (runs (rtab d)). r_id q = i \<longrightarrow> r_kind q \<noteq> CATCH_UP_KIND"
  shows "run_inv (d\<lparr>rtab := close_run clock i st detail (rtab d)\<rparr>)"
proof (rule run_inv_keep [OF assms(1)])
  have "wf_runs (rtab d)" using assms(1) by (simp add: run_inv_def)
  then show "wf_runs (rtab (d\<lparr>rtab := close_run clock i st detail (rtab d)\<rparr>))"
    by (simp add: close_run_def wf_runs_update)
  show "live_runs (rtab (d\<lparr>rtab := close_run clock i st detail (rtab d)\<rparr>)) = live_runs (rtab d)"
    using assms(2) by (simp add: close_run_def live_runs_update catch_run_def)
qed simp_all

lemma upsert_inv:
  assumes "run_inv d"
  shows "record_delivery now k s a (arts (outs d)) = Inr (t, n) \<Longrightarrow>
      run_inv (d\<lparr>outs := \<lparr>arts = t, metas = metas (outs d), ups = c\<rparr>\<rparr>)"
    and "record_metadata now k s a (metas (outs d)) = Inr (t, n) \<Longrightarrow>
      run_inv (d\<lparr>outs := (outs d)\<lparr>metas := t\<rparr>\<rparr>)"
  by (rule run_inv_same_runs [OF assms];
      simp add: record_delivery_def record_metadata_def refs_upsert)+

lemma retry_failed_tabs:
  assumes "retry_failed now name o0 = (o1, n)"
  shows "arts o1 = fst (rearm_failed now name (arts o0))" and "metas o1 = fst (rearm_failed now name (metas o0))"
  using assms by (auto simp: retry_failed_def Let_def split: prod.splits)

lemma retry_failed_inv:
  assumes "run_inv d" and "retry_failed now name (outs d) = (o1, n)"
  shows "run_inv (d\<lparr>outs := o1\<rparr>)"
  by (rule run_inv_same_runs [OF assms(1)])
    (simp_all add: retry_failed_tabs [OF assms(2)] refs_rearm_failed)

lemma presence_inv:
  assumes "run_inv d" and "apply_presence now name carried cat (outs d) = (o1, n)"
  shows "run_inv (d\<lparr>outs := o1\<rparr>)"
  by (rule run_inv_same_runs [OF assms(1)]) (use refs_presence [OF assms(2)] in simp_all)

lemma catch_step_inv: "catch_step d d' \<Longrightarrow> run_inv d \<Longrightarrow> run_inv d'"
  by (induction rule: catch_step.induct)
    (blast intro: start_inv cancel_inv upsert_inv pass_inv judged_inv retry_failed_inv presence_inv
      opened_inv closed_inv)+

lemma catch_steps_inv: "catch_step\<^sup>*\<^sup>* d d' \<Longrightarrow> run_inv d \<Longrightarrow> run_inv d'"
  by (induction rule: rtranclp_induct) (blast intro: catch_step_inv)+

lemma empty_inv: "run_inv empty_db"
  by (simp add: run_inv_def empty_db_def no_outcomes_def wf_runs_def refs_def live_runs_def)

text \<open>
  C16: a run that is over owns nothing. In every state that starts, cancels, drains, saves,
  webhooks and presence passes reach in any order, a row of either table carries either no
  run or the id of an open catch-up run of that row's own server, and no server has two
  catch-ups open.
\<close>

theorem closed_runs_own_nothing:
  assumes "catch_step\<^sup>*\<^sup>* empty_db d"
  shows "(\<forall>r i. r \<in> set (o_rows (arts (outs d)) @ o_rows (metas (outs d))) \<and> o_run_id r = Some i \<longrightarrow>
      (\<exists>q \<in> set (runs (rtab d)). r_id q = i \<and> catch_run (o_server r) q)) \<and>
    (\<forall>s. \<forall>q \<in> set (runs (rtab d)). \<forall>q' \<in> set (runs (rtab d)). catch_run s q \<and> catch_run s q' \<longrightarrow> q = q')"
proof (intro conjI allI impI ballI; (elim conjE)?)
  have inv: "run_inv d" by (rule catch_steps_inv [OF assms empty_inv])
  show "\<exists>q \<in> set (runs (rtab d)). r_id q = i \<and> catch_run (o_server r) q"
    if "r \<in> set (o_rows (arts (outs d)) @ o_rows (metas (outs d)))" "o_run_id r = Some i" for r i
  proof -
    from that have "(o_server r, i) \<in> refs (arts (outs d)) \<union> refs (metas (outs d))"
      using refs_I [of r _ i, OF _ _ refl] by auto
    then have "(o_server r, i) \<in> live_runs (rtab d)" using inv by (auto simp: run_inv_def)
    then show ?thesis unfolding live_runs_iff by blast
  qed
  show "q = q'" if "q \<in> set (runs (rtab d))" "q' \<in> set (runs (rtab d))" "catch_run s q" "catch_run s q'"
    for s q q'
  proof -
    have "(s, r_id q) \<in> live_runs (rtab d)" "(s, r_id q') \<in> live_runs (rtab d)"
      using that unfolding live_runs_iff by blast+
    then have same: "r_id q = r_id q'" using inv unfolding run_inv_def by blast
    have "distinct (map r_id (runs (rtab d)))" using inv by (simp add: run_inv_def wf_runs_def)
    from distinct_map_inj [OF this that(1,2) same] show ?thesis .
  qed
qed

theorem closed_runs_own_nothing_witness:
  "\<exists>d r q. catch_step\<^sup>*\<^sup>* empty_db d \<and> r \<in> set (o_rows (metas (outs d))) \<and> o_run_id r = Some 1 \<and>
     q \<in> set (runs (rtab d)) \<and> r_id q = 1 \<and> catch_run (o_server r) q"
proof -
  obtain d i where d: "start_catch_up 1 2 ''plex'' None all_on small_catalog empty_db = Inr (d, i)"
    and "\<exists>r \<in> set (o_rows (metas (outs d))). o_run_id r = Some 1"
    using all_on_starts by (auto simp: list_ex_iff split: sum.splits)
  then obtain r where r: "r \<in> set (o_rows (metas (outs d)))" "o_run_id r = Some 1" by blast
  have step: "catch_step\<^sup>*\<^sup>* empty_db d" using d by (blast intro: started wf_small_catalog)
  from closed_runs_own_nothing [OF step] r
  have "\<exists>q \<in> set (runs (rtab d)). r_id q = 1 \<and> catch_run (o_server r) q" by simp
  with step r show ?thesis by blast
qed

end
