(* ===== verification/Catchup_Verdicts.thy ===== *)
theory Catchup_Verdicts
  imports Catchup_Ownership Retry_Props
begin

text \<open>
  What the operator is told: the counts of a run before and after its finish, the verdict that
  ends a drain, and which servers a saved configuration owes a catch-up.
\<close>

subsection \<open>Progress across the finish\<close>

lemma insort_map:
  "(\<And>x. key (f x) = key x) \<Longrightarrow> insort_key key (f x) (map f xs) = map f (insort_key key x xs)"
  by (induction xs) simp_all

lemma sort_key_map:
  "(\<And>x. key (f x) = key x) \<Longrightarrow> sort_key key (map f xs) = map f (sort_key key xs)"
  by (induction xs) (simp_all add: insort_map)

lemma first_by_map:
  assumes "\<And>x. key (f x) = key x"
  shows "first_by key (map f xs) = map_option f (first_by key xs)"
proof -
  have "sort_key key (map f xs) = map f (sort_key key xs)" by (rule sort_key_map) (rule assms)
  then show ?thesis by (simp add: first_by_def split: list.split)
qed

lemma filter_update_where:
  assumes "\<And>r. Q (f r) = Q r"
  shows "filter Q (update_where P f rs) = update_where P f (filter Q rs)"
  using assms by (induction rs) simp_all

text \<open>An update that keeps what the query reads keeps its answer.\<close>

lemma latest_update:
  assumes "\<And>r. r_kind (f r) = r_kind r" and "\<And>r. r_server (f r) = r_server r"
    and "\<And>r. r_started (f r) = r_started r" and "\<And>r. r_id (f r) = r_id r"
  shows "latest_run name (t\<lparr>runs := update_where P f (runs t)\<rparr>) =
    map_option (\<lambda>r. if P r then f r else r) (latest_run name t)"
proof -
  have "filter (\<lambda>r. r_kind r = CATCH_UP_KIND \<and> r_server r = Some name) (update_where P f (runs t)) =
      map (\<lambda>r. if P r then f r else r)
        (filter (\<lambda>r. r_kind r = CATCH_UP_KIND \<and> r_server r = Some name) (runs t))"
    by (subst filter_update_where) (simp_all add: assms update_where_def)
  then show ?thesis
    unfolding latest_run_def by (simp add: first_by_map assms)
qed

lemma latest_run_mem:
  assumes "latest_run name t = Some q"
  shows "q \<in> set (runs t)" and "r_kind q = CATCH_UP_KIND" and "r_server q = Some name"
  using first_by_Some(1) [OF assms [unfolded latest_run_def]] by simp_all

text \<open>The row a finish leaves.\<close>

definition finished_row :: "instant \<Rightarrow> string \<Rightarrow> string \<Rightarrow> tallies \<Rightarrow> run \<Rightarrow> run" where
  "finished_row clock st detail n r = r\<lparr>r_processed := Some (t_total n), r_failed := Some (t_failed n),
     r_deferred := Some (t_due n), r_finished := Some clock, r_status := st,
     r_detail := Some (take DETAIL_WIDTH detail)\<rparr>"

lemma finish_latest:
  assumes "latest_run name (rtab d) = Some q" and "is_open q"
    and "g = None \<or> g = Some (run_tallies (r_id q) (outs d))"
  shows "latest_run name (rtab (fst (finish_catch_up clock (r_id q) st detail g d))) =
    Some (finished_row clock st detail (run_tallies (r_id q) (outs d)) q)"
proof -
  let ?n = "run_tallies (r_id q) (outs d)"
  have g: "(case g of None \<Rightarrow> ?n | Some n \<Rightarrow> n) = ?n" using assms(3) by auto
  have "\<exists>r \<in> set (runs (rtab d)). r_id r = r_id q \<and> is_open r"
    using latest_run_mem(1) [OF assms(1)] assms(2) by blast
  then have "rtab (fst (finish_catch_up clock (r_id q) st detail g d)) =
      close_run clock (r_id q) st detail ((rtab d)\<lparr>runs := update_where (\<lambda>r. r_id r = r_id q \<and> is_open r)
        (\<lambda>r. r\<lparr>r_processed := Some (t_total ?n), r_failed := Some (t_failed ?n),
              r_deferred := Some (t_due ?n)\<rparr>) (runs (rtab d))\<rparr>)"
    by (simp add: finish_catch_up_def Let_def g)
  then show ?thesis
    by (simp only: close_run_def, subst latest_update; (simp; fail)?)
      (subst latest_update, simp_all add: assms(1,2) finished_row_def)
qed

lemma count_release: "count_rows i P (release_run i t) = 0"
  by (auto simp: count_rows_def release_run_def update_rows_def update_where_def filter_empty_conv)

lemma all_on_progress:
  "case start_catch_up 1 2 ''plex'' None all_on small_catalog empty_db of
     Inl _ \<Rightarrow> False
   | Inr (d, i) \<Rightarrow> (case catch_up_progress ''plex'' d of None \<Rightarrow> False
      | Some (q, w, x, b, n) \<Rightarrow> is_open q \<and> w = 1 \<and> x = 0 \<and> b = 0)"
  by code_simp

text \<open>
  The progress of a run survives its finish. The counts the operator sees while the newest
  catch-up of a server is in flight (due, done, failed and their total) are the counts
  shown after it is finished, although the finish has released every row they were counted
  from; only the run's state, status and end have changed.
\<close>

theorem finish_keeps_progress:
  fixes clock :: instant and st detail :: string and g :: "tallies option" and d :: db
  assumes "catch_up_progress name d = Some (q, waiting, finished, bad, marks)" and "is_open q"
    and "g = None \<or> g = Some (run_tallies (r_id q) (outs d))"
  defines "d' \<equiv> fst (finish_catch_up clock (r_id q) st detail g d)"
  shows "\<exists>q'. catch_up_progress name d' = Some (q', waiting, finished, bad, marks) \<and> r_id q' = r_id q \<and>
      \<not> is_open q' \<and> r_status q' = st \<and>
      run_tallies (r_id q) (outs d') = \<lparr>t_due = 0, t_done = 0, t_failed = 0\<rparr>"
proof -
  let ?n = "run_tallies (r_id q) (outs d)"
  have l: "latest_run name (rtab d) = Some q"
    using assms(1) by (auto simp: catch_up_progress_def Let_def split: option.splits)
  then have counts: "waiting = int (t_due ?n)" "finished = int (t_done ?n)" "bad = int (t_failed ?n)"
    "marks = int (t_total ?n)"
    using assms(1,2) by (simp_all add: catch_up_progress_def Let_def is_open_def)
  have fin: "latest_run name (rtab d') = Some (finished_row clock st detail ?n q)"
    unfolding d'_def by (rule finish_latest [OF l assms(2,3)])
  have progress: "catch_up_progress name d' =
      Some (finished_row clock st detail ?n q, waiting, finished, bad, marks)"
    by (simp add: catch_up_progress_def fin finished_row_def counts t_total_def Let_def)
  have "\<exists>r \<in> set (runs (rtab d)). r_id r = r_id q \<and> is_open r"
    using latest_run_mem(1) [OF l] assms(2) by blast
  then have outs: "arts (outs d') = release_run (r_id q) (arts (outs d))"
    "metas (outs d') = release_run (r_id q) (metas (outs d))"
    unfolding d'_def by (simp_all add: finish_spec(1))
  have "run_tallies (r_id q) (outs d') = \<lparr>t_due = 0, t_done = 0, t_failed = 0\<rparr>"
    by (simp add: run_tallies_def outs count_release)
  with progress show ?thesis by (intro exI [of _ "finished_row clock st detail ?n q"])
      (simp add: finished_row_def is_open_def)
qed

theorem finish_keeps_progress_witness:
  "\<exists>d q d' q' n. catch_up_progress ''plex'' d = Some (q, 1, 0, 0, n) \<and>
     d' = fst (finish_catch_up 5 (r_id q) ''ok'' ''over'' None d) \<and>
     catch_up_progress ''plex'' d' = Some (q', 1, 0, 0, n) \<and> \<not> is_open q'"
proof -
  obtain d i where "start_catch_up 1 2 ''plex'' None all_on small_catalog empty_db = Inr (d, i)"
    and p: "case catch_up_progress ''plex'' d of None \<Rightarrow> False
      | Some (q, w, x, b, n) \<Rightarrow> is_open q \<and> w = 1 \<and> x = 0 \<and> b = 0"
    using all_on_progress by (auto split: sum.splits)
  then obtain q n where q: "catch_up_progress ''plex'' d = Some (q, 1, 0, 0, n)" "is_open q"
    by (auto split: option.splits)
  from finish_keeps_progress [OF q, of None 5 "''ok''" "''over''"] q show ?thesis by blast
qed

subsection \<open>What ends a drain\<close>

lemma finish_row:
  assumes "q1 \<in> set (runs (rtab d))" and "is_open q1"
  shows "finished_row clock st detail n q1 \<in> set (runs (rtab (fst (finish_catch_up clock (r_id q1) st detail (Some n) d))))"
proof -
  have ex: "\<exists>r \<in> set (runs (rtab d)). r_id r = r_id q1 \<and> is_open r" using assms by blast
  show ?thesis unfolding finish_spec(2) [OF ex] set_update_where image_image
    by (rule image_eqI [OF _ assms(1)]) (simp add: finished_row_def assms(2))
qed

text \<open>
  C17: what ends a drain. After a batch that ran, the run is closed exactly when nothing of it is
  left due or this was its last permitted idle batch; a batch is idle when neither the
  counts nor the attempts its rows have spent moved. A run that closes is counted and owns no
  row any more; one that goes on keeps its rows, is stamped with this batch and has its idle
  count reset by progress or raised by one.
\<close>

theorem drain_verdict:
  fixes clock now :: instant and d :: db
  assumes "\<not> mid_cadence now q" and "fault env = None"
    and "q1 \<in> set (runs (rtab (meanwhile env (batch now m env q d))))" and "r_id q1 = r_id q" and "is_open q1"
  defines "d1 \<equiv> meanwhile env (batch now m env q d)"
    and "d' \<equiv> fst (drain_run clock now m env q d)"
  defines "n \<equiv> run_tallies (r_id q) (outs d1)"
    and "moved \<equiv> run_tallies (r_id q) (outs d1) \<noteq> run_tallies (r_id q) (outs d) \<or>
      attempts_spent (r_id q) (outs d1) \<noteq> attempts_spent (r_id q) (outs d)"
  shows "\<exists>q' \<in> set (runs (rtab d')). r_id q' = r_id q \<and> r_drained q' = Some now \<and>
      (is_open q' \<longleftrightarrow> t_due n \<noteq> 0 \<and> (moved \<or> r_idle q + 1 < MAX_IDLE_DRAINS)) \<and>
      (if is_open q' then outs d' = outs d1 \<and> r_idle q' = (if moved then 0 else r_idle q + 1)
       else r_status q' = ''ok'' \<and> r_processed q' = Some (t_total n) \<and>
         run_tallies (r_id q) (outs d') = \<lparr>t_due = 0, t_done = 0, t_failed = 0\<rparr>)"
proof -
  define idle where "idle = (if moved then 0 else r_idle q + 1)"
  define q2 where "q2 = q1\<lparr>r_drained := Some now, r_idle := idle\<rparr>"
  define d2 where "d2 = d1\<lparr>rtab := set_run (r_id q) (\<lambda>r. r\<lparr>r_drained := Some now, r_idle := idle\<rparr>) (rtab d1)\<rparr>"
  have q2: "q2 \<in> set (runs (rtab d2))" "r_id q2 = r_id q" "is_open q2"
    using assms(3-5) by (auto simp: d2_def d1_def q2_def set_run_def update_where_def is_open_def image_iff)
  have fin: "\<exists>q' \<in> set (runs (rtab (fst (finish_catch_up clock (r_id q) ''ok'' detail (Some n) d2)))).
      r_id q' = r_id q \<and> r_drained q' = Some now \<and> \<not> is_open q' \<and> r_status q' = ''ok'' \<and>
      r_processed q' = Some (t_total n)" for detail
    using finish_row [OF q2(1,3), of clock "''ok''" detail n]
    by (intro bexI [of _ "finished_row clock ''ok'' detail n q2"])
      (simp_all add: q2 finished_row_def is_open_def, simp add: q2_def)
  have gone: "run_tallies (r_id q) (outs (fst (finish_catch_up clock (r_id q) ''ok'' detail (Some n) d2))) =
      \<lparr>t_due = 0, t_done = 0, t_failed = 0\<rparr>" for detail
  proof -
    have ex: "\<exists>r \<in> set (runs (rtab d2)). r_id r = r_id q \<and> is_open r" using q2 by blast
    show ?thesis unfolding finish_spec(1) [OF ex] by (simp add: run_tallies_def count_release)
  qed
  have after: "d' = fst (after_batch clock now q (run_tallies (r_id q) (outs d), attempts_spent (r_id q) (outs d)) d1)"
    using assms(1,2) by (simp add: d'_def drain_run_def d1_def Let_def)
  consider (over) "t_due n = 0" | (idle) "t_due n \<noteq> 0" "MAX_IDLE_DRAINS \<le> idle"
    | (going) "t_due n \<noteq> 0" "idle < MAX_IDLE_DRAINS" by linarith
  then show ?thesis
  proof cases
    case over
    then have "d' = fst (finish_catch_up clock (r_id q) ''ok'' (''catch-up: '' @ done_failed n) (Some n) d2)"
      by (simp add: after after_batch_def Let_def n_def d2_def idle_def moved_def)
    with fin gone over show ?thesis by auto
  next
    case idle
    then have "d' = fst (finish_catch_up clock (r_id q) ''ok'' (''catch-up: stopped with '' @
        (nat_digits (t_due n) @ '' still due, '' @ done_failed n)) (Some n) d2)"
      by (simp add: after after_batch_def Let_def n_def d2_def idle_def moved_def)
    moreover have "\<not> (moved \<or> r_idle q + 1 < MAX_IDLE_DRAINS)"
      using idle(2) by (auto simp: idle_def MAX_IDLE_DRAINS_def split: if_splits)
    ultimately show ?thesis using fin gone by auto
  next
    case going
    then have "d' = d2"
      by (auto simp: after after_batch_def Let_def n_def d2_def idle_def moved_def not_le)
    moreover have "moved \<or> r_idle q + 1 < MAX_IDLE_DRAINS"
      using going(2) by (auto simp: idle_def split: if_splits)
    ultimately show ?thesis using q2 going(1)
      by (intro bexI [of _ q2]) (simp_all add: d2_def idle_def, simp_all add: q2_def idle_def)
  qed
qed

definition bare_run_db :: db where
  "bare_run_db = \<lparr>outs = no_outcomes, rtab = \<lparr>runs = [started_row 1 0 ''plex'' (Some 60)], run_next = 2\<rparr>\<rparr>"

definition servers_down :: drain_env where
  "servers_down = \<lparr>art_answers = all_down, meta_answers = meta_down, meanwhile = id, fault = None\<rparr>"

lemma batch_rtab [simp]: "rtab (batch now m env q d) = rtab d"
  by (simp add: batch_def split: prod.split)

theorem drain_verdict_witness:
  "\<exists>q' d'. d' = fst (drain_run 7 8 5 servers_down (started_row 1 0 ''plex'' (Some 60)) bare_run_db) \<and>
     q' \<in> set (runs (rtab d')) \<and> r_drained q' = Some 8"
proof -
  let ?q = "started_row 1 0 ''plex'' (Some 60)"
  have "\<not> mid_cadence 8 ?q" "fault servers_down = None"
    "?q \<in> set (runs (rtab (meanwhile servers_down (batch 8 5 servers_down ?q bare_run_db))))"
    by (simp_all add: mid_cadence_def started_row_def fresh_run_def servers_down_def bare_run_db_def)
  from drain_verdict [OF this refl, of 7] show ?thesis by auto
qed

subsection \<open>Which servers a save owes a catch-up\<close>

text \<open>
  The effective value of a toggle for a library, as the rest of the program reads it: the
  library's own value where it has one, the global value otherwise.
\<close>

definition effective :: "config \<Rightarrow> string \<Rightarrow> string \<Rightarrow> string \<Rightarrow> bool option" where
  "effective c section field lib = (case map_of (cfg_libraries c) lib of
       None \<Rightarrow> cfg_global c section field
     | Some override \<Rightarrow> (case override section field of
          None \<Rightarrow> cfg_global c section field | Some v \<Rightarrow> Some v))"

definition named_libraries :: "config \<Rightarrow> bool" where
  "named_libraries c \<longleftrightarrow> distinct (map fst (cfg_libraries c)) \<and> [] \<notin> set (map fst (cfg_libraries c))"

lemma fold_toggles:
  "distinct (map fst ls) \<Longrightarrow>
     foldl (\<lambda>m (l, override). m(l \<mapsto> f override)) m0 ls lib =
     (case map_of ls lib of None \<Rightarrow> m0 lib | Some override \<Rightarrow> Some (f override))"
proof (induction ls arbitrary: m0)
  case Nil
  then show ?case by simp
next
  case (Cons x ls)
  then have "fst x \<notin> dom (map_of ls)" by (simp add: dom_map_of_conv_image_fst)
  with Cons show ?case by (cases x) (auto split: option.split)
qed

lemma toggle_states_at:
  assumes "named_libraries c"
  shows "toggle_states c section field lib = (if lib = [] then Some (cfg_global c section field)
    else if lib \<in> set (scopes c) then Some (effective c section field lib) else None)"
proof -
  have "map_of (cfg_libraries c) [] = None"
    using assms by (auto simp: named_libraries_def map_of_eq_None_iff)
  moreover have "lib \<in> set (map fst (cfg_libraries c)) \<longleftrightarrow> map_of (cfg_libraries c) lib \<noteq> None"
    by (auto simp: map_of_eq_None_iff)
  moreover have "toggle_states c section field lib = (case map_of (cfg_libraries c) lib of
      None \<Rightarrow> [[] \<mapsto> cfg_global c section field] lib
    | Some override \<Rightarrow> Some (case override section field of
        None \<Rightarrow> cfg_global c section field | Some v \<Rightarrow> Some v))"
    unfolding toggle_states_def Let_def
    by (rule fold_toggles) (use assms in \<open>simp add: named_libraries_def\<close>)
  ultimately show ?thesis
    by (cases "map_of (cfg_libraries c) lib"; cases "lib = []")
      (simp_all add: scopes_def effective_def del: list.set_map)
qed

lemma state_at_effective:
  assumes "named_libraries c"
  shows "state_at (toggle_states c section field) lib = effective c section field lib"
proof -
  have "map_of (cfg_libraries c) [] = None" using assms by (simp add: named_libraries_def map_of_eq_None_iff)
  moreover have "lib \<notin> set (scopes c) \<Longrightarrow> map_of (cfg_libraries c) lib = None"
    by (simp add: scopes_def map_of_eq_None_iff)
  ultimately have "lib \<notin> set (scopes c) \<or> lib = [] \<Longrightarrow> map_of (cfg_libraries c) lib = None" by auto
  then have "lib \<notin> set (scopes c) \<or> lib = [] \<Longrightarrow> effective c section field lib = cfg_global c section field"
    by (simp add: effective_def)
  then show ?thesis using assms by (auto simp: state_at_def toggle_states_at)
qed

lemma effective_elsewhere: "lib \<notin> set (scopes c) \<Longrightarrow> effective c section field lib = cfg_global c section field"
proof -
  assume "lib \<notin> set (scopes c)"
  then have "map_of (cfg_libraries c) lib = None" by (simp add: scopes_def map_of_eq_None_iff)
  then show ?thesis by (simp add: effective_def)
qed

lemma effective_global: "named_libraries c \<Longrightarrow> effective c section field [] = cfg_global c section field"
proof -
  assume "named_libraries c"
  then have "map_of (cfg_libraries c) [] = None" by (simp add: named_libraries_def map_of_eq_None_iff)
  then show ?thesis by (simp add: effective_def)
qed

lemma turned_on_iff:
  assumes "named_libraries old" and "named_libraries new"
  shows "toggle_turned_on old new section field \<longleftrightarrow>
    (\<exists>lib. effective new section field lib = Some True \<and> effective old section field lib = Some False)"
    (is "_ \<longleftrightarrow> (\<exists>lib. ?on lib)")
proof -
  have "\<exists>scope \<in> set (scopes old @ scopes new). ?on scope" if "?on lib" for lib
  proof (cases "lib \<in> set (scopes old @ scopes new)")
    case True
    with that show ?thesis by blast
  next
    case False
    then have "?on []" using that assms by (simp add: effective_elsewhere effective_global)
    then show ?thesis by (intro bexI [of _ "[]"]) (simp_all add: scopes_def)
  qed
  then show ?thesis
    unfolding toggle_turned_on_def state_at_effective [OF assms(1)] state_at_effective [OF assms(2)] by blast
qed

text \<open>
  C18: a save owes a server a catch-up exactly when its delivery scope grew or moved: the server
  is in both configurations, and its library map or exclusions differ, or for some library,
  named in either configuration or not, the effective value of one of its delivery toggles
  went from off to on. The scopes the code compares are enough to decide this for every library.
\<close>

theorem changed_servers_exact:
  assumes "named_libraries old" and "named_libraries new"
  shows "name \<in> set (servers_with_changed_libraries old new) \<longleftrightarrow>
    (\<exists>ts b b'. map_of DELIVERY_TOGGLES name = Some ts \<and> cfg_block old name = Some b \<and>
       cfg_block new name = Some b' \<and>
       (b ''library_map'' \<noteq> b' ''library_map'' \<or> b ''excluded_libraries'' \<noteq> b' ''excluded_libraries'' \<or>
        (\<exists>(section, field) \<in> set ts. \<exists>lib. effective new section field lib = Some True \<and>
           effective old section field lib = Some False)))"
proof -
  have mem: "(name, ts) \<in> set DELIVERY_TOGGLES \<longleftrightarrow> map_of DELIVERY_TOGGLES name = Some ts" for ts
    by (rule map_of_eq_Some_iff [symmetric]) (simp add: DELIVERY_TOGGLES_def)
  have "name \<in> set (servers_with_changed_libraries old new) \<longleftrightarrow> (\<exists>ts. (name, ts) \<in> set DELIVERY_TOGGLES \<and>
      (case (cfg_block old name, cfg_block new name) of (Some b, Some b') \<Rightarrow> shape_changed b b' \<or>
          list_ex (\<lambda>(section, field). toggle_turned_on old new section field) ts | _ \<Rightarrow> False))"
    unfolding servers_with_changed_libraries_def by (force simp: image_iff)
  also have "\<dots> \<longleftrightarrow> (\<exists>ts. map_of DELIVERY_TOGGLES name = Some ts \<and>
      (\<exists>b b'. cfg_block old name = Some b \<and> cfg_block new name = Some b' \<and>
        (shape_changed b b' \<or> list_ex (\<lambda>(section, field). toggle_turned_on old new section field) ts)))"
    unfolding mem by (cases "cfg_block old name"; cases "cfg_block new name") simp_all
  finally have "name \<in> set (servers_with_changed_libraries old new) \<longleftrightarrow>
      (\<exists>ts. map_of DELIVERY_TOGGLES name = Some ts \<and>
        (\<exists>b b'. cfg_block old name = Some b \<and> cfg_block new name = Some b' \<and>
          (shape_changed b b' \<or> list_ex (\<lambda>(section, field). toggle_turned_on old new section field) ts)))" .
  moreover have "shape_changed b b' \<longleftrightarrow> b ''library_map'' \<noteq> b' ''library_map'' \<or>
      b ''excluded_libraries'' \<noteq> b' ''excluded_libraries''" for b b'
    by (simp add: shape_changed_def LIBRARY_SHAPE_FIELDS_def)
  ultimately show ?thesis
    unfolding turned_on_iff [OF assms] list_ex_iff by (simp only: disj_assoc) blast
qed

definition plain_config :: "bool \<Rightarrow> config" where
  "plain_config on = \<lparr>cfg_global = (\<lambda>_ _. Some on), cfg_libraries = [(''Movies'', \<lambda>_ _. None)],
     cfg_block = (\<lambda>_. Some (\<lambda>_. None))\<rparr>"

theorem changed_servers_exact_witness:
  "''plex'' \<in> set (servers_with_changed_libraries (plain_config False) (plain_config True))"
proof -
  have "named_libraries (plain_config b)" for b by (simp add: named_libraries_def plain_config_def)
  from changed_servers_exact [OF this this, of "''plex''" False True] show ?thesis
    by (simp add: plain_config_def DELIVERY_TOGGLES_def effective_def)
qed

end
