(* ===== verification/Ladder.thy ===== *)
theory Ladder
  imports Prelude
begin

text \<open>
  Choosing artwork across providers (\<open>providers/ladder.py\<close>, the candidate of
  \<open>providers/base.py\<close>). A provider is what its \<open>fetch\<close> answered: its candidates, or nothing
  when it raised. Scores are rationals: a finite float is one.
\<close>

subsection \<open>Candidates\<close>

record candidate =
  c_provider :: string
  c_url :: string
  c_language :: "string option"
  c_width :: "int option"
  c_height :: "int option"
  c_score :: rat
  c_includes_text :: "bool option"

definition TEXTLESS_LANGUAGE_TOKENS :: "string option list" where
  "TEXTLESS_LANGUAGE_TOKENS = [None, Some '''', Some ''xx'', Some ''00'', Some ''null'']"

definition is_textless :: "candidate \<Rightarrow> bool" where
  "is_textless c = (case c_includes_text c of
       Some b \<Rightarrow> \<not> b | None \<Rightarrow> c_language c \<in> set TEXTLESS_LANGUAGE_TOKENS)"

subsection \<open>Ranking\<close>

definition UNRANKED :: nat where
  "UNRANKED = 99"

definition THREE_TO_TWO :: "(string \<times> string) list" where
  "THREE_TO_TWO = [(''eng'', ''en''), (''fin'', ''fi''), (''deu'', ''de''), (''swe'', ''sv''),
     (''fra'', ''fr''), (''spa'', ''es'')]"

definition normalise_language :: "string option \<Rightarrow> string option" where
  "normalise_language language = (case language of
       None \<Rightarrow> None
     | Some l \<Rightarrow> Some (case map_of THREE_TO_TWO l of None \<Rightarrow> l | Some two \<Rightarrow> two))"

text \<open>\<open>language_order.index\<close>, asked only for a member.\<close>

definition index_of :: "string list \<Rightarrow> string \<Rightarrow> nat" where
  "index_of xs x = length (takeWhile (\<lambda>y. y \<noteq> x) xs)"

definition language_rank :: "string list \<Rightarrow> candidate \<Rightarrow> nat" where
  "language_rank order c =
     (if is_textless c \<and> ''xx'' \<in> set order then index_of order ''xx''
      else case normalise_language (c_language c) of
        None \<Rightarrow> UNRANKED
      | Some code \<Rightarrow> if code \<in> set order then index_of order code else UNRANKED)"

text \<open>\<open>x or 0\<close> of an optional number.\<close>

definition or_zero :: "int option \<Rightarrow> int" where
  "or_zero x = (case x of None \<Rightarrow> 0 | Some n \<Rightarrow> n)"

definition rank_key :: "string list \<Rightarrow> candidate \<Rightarrow> nat \<times> nat \<times> rat \<times> int" where
  "rank_key order c = (language_rank order c, if is_textless c then 0 else 1, - c_score c,
     - (or_zero (c_width c) * or_zero (c_height c)))"

definition best_candidate :: "string list \<Rightarrow> candidate list \<Rightarrow> candidate option" where
  "best_candidate order cs = first_by (rank_key order) (filter (\<lambda>c. language_rank order c \<noteq> UNRANKED) cs)"

interpretation ladder: ordered_choice "best_candidate order"
    "\<lambda>c. language_rank order c \<noteq> UNRANKED" "rank_key order" for order
  by unfold_locales (rule best_candidate_def)

definition prefers_textless :: "string list \<Rightarrow> bool" where
  "prefers_textless order \<longleftrightarrow> order \<noteq> [] \<and> hd order = ''xx''"

definition textless_only :: "string list \<Rightarrow> bool" where
  "textless_only order \<longleftrightarrow> order = [''xx'']"

subsection \<open>select\_artwork\<close>

record selection =
  chosen :: "candidate option"
  is_fallback :: bool

definition offered :: "string set \<Rightarrow> candidate list \<Rightarrow> candidate list" where
  "offered excluded cs = filter (\<lambda>c. c_url c \<notin> excluded) cs"

fun walk :: "string list \<Rightarrow> string set \<Rightarrow> candidate list option list \<Rightarrow> candidate option \<Rightarrow> selection" where
  "walk order excluded [] parked =
     (if parked \<noteq> None \<and> \<not> textless_only order then \<lparr>chosen = parked, is_fallback = True\<rparr>
      else \<lparr>chosen = None, is_fallback = False\<rparr>)"
| "walk order excluded (None # answers) parked = walk order excluded answers parked"
| "walk order excluded (Some cs # answers) parked =
     (case best_candidate order (offered excluded cs) of
        None \<Rightarrow> walk order excluded answers parked
      | Some c \<Rightarrow>
          if prefers_textless order \<and> \<not> is_textless c
          then walk order excluded answers
            (if textless_only order \<or> parked \<noteq> None then parked else Some c)
          else \<lparr>chosen = Some c, is_fallback = False\<rparr>)"

definition select_artwork :: "candidate list option list \<Rightarrow> string list \<Rightarrow> string set \<Rightarrow> selection" where
  "select_artwork answers order excluded = walk order excluded answers None"

subsection \<open>What the walk chooses\<close>

text \<open>
  The reference: among the answers with the excluded addresses taken out, when textless art is
  preferred, the best of the first provider that has any; otherwise the best of the first
  provider with a usable candidate, which is a fallback where textless was preferred.
\<close>

definition answers_of :: "string set \<Rightarrow> candidate list option list \<Rightarrow> candidate list list" where
  "answers_of excluded answers = map (\<lambda>a. case a of None \<Rightarrow> [] | Some cs \<Rightarrow> offered excluded cs) answers"

definition first_with :: "(candidate \<Rightarrow> bool) \<Rightarrow> candidate list list \<Rightarrow> candidate list option" where
  "first_with P css = List.find (\<lambda>cs. \<exists>c \<in> set cs. P c) css"

definition select_spec :: "string list \<Rightarrow> candidate list list \<Rightarrow> selection" where
  "select_spec order css =
     (let usable = first_with (\<lambda>c. language_rank order c \<noteq> UNRANKED) css in
      if \<not> prefers_textless order
      then (case usable of None \<Rightarrow> \<lparr>chosen = None, is_fallback = False\<rparr>
        | Some cs \<Rightarrow> \<lparr>chosen = best_candidate order cs, is_fallback = False\<rparr>)
      else (case first_with is_textless css of
          Some cs \<Rightarrow> \<lparr>chosen = best_candidate order cs, is_fallback = False\<rparr>
        | None \<Rightarrow> (case usable of
            Some cs \<Rightarrow> if textless_only order then \<lparr>chosen = None, is_fallback = False\<rparr>
              else \<lparr>chosen = best_candidate order cs, is_fallback = True\<rparr>
          | None \<Rightarrow> \<lparr>chosen = None, is_fallback = False\<rparr>)))"

lemma textless_rank:
  assumes "prefers_textless order" and "is_textless c"
  shows "language_rank order c = 0"
proof -
  obtain rest where "order = ''xx'' # rest"
    using assms(1) by (cases order) (auto simp: prefers_textless_def)
  then show ?thesis using assms(2) by (simp add: language_rank_def index_of_def)
qed

text \<open>Where textless is preferred, a provider's best is textless as soon as it offers any.\<close>

lemma best_textless:
  assumes "prefers_textless order" and "best_candidate order cs = Some c"
  shows "is_textless c \<longleftrightarrow> (\<exists>x \<in> set cs. is_textless x)"
proof
  show "is_textless c \<Longrightarrow> \<exists>x \<in> set cs. is_textless x"
    using ladder.pick_mem [OF assms(2)] by blast
  assume "\<exists>x \<in> set cs. is_textless x"
  then obtain x where x: "x \<in> set cs" "is_textless x" by blast
  then have rank: "language_rank order x = 0" by (simp add: textless_rank assms(1))
  then have "rank_key order c \<le> rank_key order x"
    by (intro ladder.pick_least [OF assms(2) x(1)]) (simp add: UNRANKED_def)
  with rank x(2) show "is_textless c"
    by (auto simp: rank_key_def less_eq_prod_def split: if_splits)
qed

lemma best_None:
  "best_candidate order cs = None \<longleftrightarrow> \<not> (\<exists>c \<in> set cs. language_rank order c \<noteq> UNRANKED)"
  using ladder.pick_None by blast

lemma textless_usable:
  "prefers_textless order \<Longrightarrow> \<exists>x \<in> set cs. is_textless x \<Longrightarrow> \<exists>x \<in> set cs. language_rank order x \<noteq> UNRANKED"
  using textless_rank by (metis UNRANKED_def zero_neq_numeral)

lemma only_prefers: "textless_only order \<Longrightarrow> prefers_textless order"
  by (simp add: textless_only_def prefers_textless_def)

lemma first_None: "first_with P (answers_of excluded (None # answers)) = first_with P (answers_of excluded answers)"
  by (simp add: answers_of_def first_with_def)

lemma walk_parked:
  assumes "prefers_textless order" and "parked \<noteq> None \<Longrightarrow> \<not> textless_only order"
  shows "walk order excluded answers parked =
    (case first_with is_textless (answers_of excluded answers) of
       Some cs \<Rightarrow> \<lparr>chosen = best_candidate order cs, is_fallback = False\<rparr>
     | None \<Rightarrow> (case parked of Some c \<Rightarrow> \<lparr>chosen = Some c, is_fallback = True\<rparr>
         | None \<Rightarrow> (case first_with (\<lambda>c. language_rank order c \<noteq> UNRANKED) (answers_of excluded answers) of
             Some cs \<Rightarrow> if textless_only order then \<lparr>chosen = None, is_fallback = False\<rparr>
               else \<lparr>chosen = best_candidate order cs, is_fallback = True\<rparr>
           | None \<Rightarrow> \<lparr>chosen = None, is_fallback = False\<rparr>)))"
  using assms(2)
proof (induction answers arbitrary: parked)
  case Nil
  then show ?case by (auto simp: answers_of_def first_with_def split: option.split)
next
  case (Cons a answers)
  show ?case
  proof (cases a)
    case None
    show ?thesis unfolding None walk.simps(2) first_None by (rule Cons.IH) (rule Cons.prems)
  next
    case (Some cs)
    let ?o = "offered excluded cs"
    have step: "first_with P (answers_of excluded (a # answers)) =
        (if \<exists>c \<in> set ?o. P c then Some ?o else first_with P (answers_of excluded answers))" for P
      by (simp add: answers_of_def first_with_def Some)
    show ?thesis
    proof (cases "best_candidate order ?o")
      case None
      then have "\<not> (\<exists>c \<in> set ?o. language_rank order c \<noteq> UNRANKED)" by (simp add: best_None)
      moreover from this have "\<not> (\<exists>c \<in> set ?o. is_textless c)" using textless_usable assms(1) by blast
      ultimately show ?thesis using Cons None by (simp only: step) (simp add: Some None)
    next
      case best: (Some c)
      note tl = best_textless [OF assms(1) best]
      have us: "\<exists>c \<in> set ?o. language_rank order c \<noteq> UNRANKED"
        using ladder.pick_mem [OF best] by blast
      show ?thesis
      proof (cases "is_textless c")
        case True
        then show ?thesis using tl best by (simp only: step) (simp add: Some)
      next
        case False
        then have no: "\<not> (\<exists>x \<in> set ?o. is_textless x)" using tl by blast
        define p where "p = (if textless_only order \<or> parked \<noteq> None then parked else Some c)"
        have "walk order excluded (a # answers) parked = walk order excluded answers p"
          using False best assms(1) by (simp add: Some p_def)
        also note Cons.IH [of p]
        finally show ?thesis
          unfolding step using no us best Cons.prems
          by (cases parked; cases "textless_only order") (auto simp: p_def split: option.split)
      qed
    qed
  qed
qed

lemma walk_plain:
  assumes "\<not> prefers_textless order"
  shows "walk order excluded answers None =
    (case first_with (\<lambda>c. language_rank order c \<noteq> UNRANKED) (answers_of excluded answers) of
       None \<Rightarrow> \<lparr>chosen = None, is_fallback = False\<rparr>
     | Some cs \<Rightarrow> \<lparr>chosen = best_candidate order cs, is_fallback = False\<rparr>)"
proof (induction answers)
  case Nil
  then show ?case by (simp add: answers_of_def first_with_def)
next
  case (Cons a answers)
  show ?case
  proof (cases a)
    case None
    then show ?thesis using Cons by (simp add: answers_of_def first_with_def)
  next
    case (Some cs)
    then show ?thesis using Cons assms best_None [of order "offered excluded cs"]
      by (cases "best_candidate order (offered excluded cs)")
        (auto simp: answers_of_def first_with_def split: option.split)
  qed
qed

text \<open>
  C29: the walk over the providers chooses what the reference does. Where textless art is
  preferred it is the best candidate of the first provider that offers any textless one, and only
  when none does, and other art is accepted at all, the best of the first provider with a
  usable candidate, marked as a fallback; without that preference it is that best at once.
  A provider that raised and an excluded address count for nothing.
\<close>

theorem select_artwork_refines:
  "select_artwork answers order excluded = select_spec order (answers_of excluded answers)"
proof (cases "prefers_textless order")
  case True
  then show ?thesis
    unfolding select_artwork_def select_spec_def Let_def
    by (subst walk_parked) (simp_all split: option.split)
next
  case False
  then show ?thesis
    unfolding select_artwork_def select_spec_def Let_def by (simp add: walk_plain)
qed

end
