(* ===== verification/Text.thy ===== *)
theory Text
  imports Prelude
begin

text \<open>
  Python's \<open>str\<close> operations the components share. A text is a list of characters of the
  Latin-1 range, on which these definitions are exact: case, whitespace and control
  characters of the code points up to 255. Also \<open>{:02d}\<close>, decimal printing as an injection,
  and values of a decoded JSON document as Python reads them.
\<close>

subsection \<open>Characters\<close>

definition code :: "char \<Rightarrow> nat" where
  "code c = of_char c"

definition lower_char :: "char \<Rightarrow> char" where
  "lower_char c = (let n = code c in
     if 65 \<le> n \<and> n \<le> 90 \<or> 192 \<le> n \<and> n \<le> 222 \<and> n \<noteq> 215 then char_of (n + 32) else c)"

definition lower :: "string \<Rightarrow> string" where
  "lower s = map lower_char s"

definition is_space :: "char \<Rightarrow> bool" where
  "is_space c = (let n = code c in 9 \<le> n \<and> n \<le> 13 \<or> 28 \<le> n \<and> n \<le> 32 \<or> n = 133 \<or> n = 160)"

definition strip :: "string \<Rightarrow> string" where
  "strip s = rev (dropWhile is_space (rev (dropWhile is_space s)))"

text \<open>Category \<open>Cc\<close>.\<close>

definition is_control :: "char \<Rightarrow> bool" where
  "is_control c = (let n = code c in n < 32 \<or> 127 \<le> n \<and> n \<le> 159)"

subsection \<open>Decimal printing\<close>

definition digit_value :: "char \<Rightarrow> nat" where
  "digit_value c = code c - 48"

definition value_of :: "string \<Rightarrow> nat" where
  "value_of s = foldl (\<lambda>a c. 10 * a + digit_value c) 0 s"

lemma code_char_of [simp]: "code (char_of n) = n mod 256"
  by (simp add: code_def)

lemma value_of_nat_digits: "value_of (nat_digits n) = n"
proof (induction n rule: nat_digits.induct)
  case (1 n)
  then show ?case
    by (subst nat_digits.simps) (simp add: value_of_def digit_value_def)
qed

definition is_digit :: "char \<Rightarrow> bool" where
  "is_digit c \<longleftrightarrow> 48 \<le> code c \<and> code c \<le> 57"

lemma nat_digits_digits: "c \<in> set (nat_digits n) \<Longrightarrow> is_digit c"
proof (induction n rule: nat_digits.induct)
  case (1 n)
  then show ?case
    by (subst (asm) (2) nat_digits.simps) (auto simp: is_digit_def split: if_splits)
qed

lemma nat_digits_nonempty [simp]: "nat_digits n \<noteq> []"
  by (subst nat_digits.simps) simp

text \<open>\<open>{n:02d}\<close>: at least two characters, the sign among them.\<close>

definition pad2 :: "int \<Rightarrow> string" where
  "pad2 i = (if 0 \<le> i \<and> i < 10 then CHR ''0'' # int_digits i else int_digits i)"

definition int_value :: "string \<Rightarrow> int" where
  "int_value s = (case s of [] \<Rightarrow> 0 | c # cs \<Rightarrow> if c = CHR ''-'' then - int (value_of cs) else int (value_of s))"

lemma not_minus: "is_digit c \<Longrightarrow> c \<noteq> CHR ''-''"
  by (auto simp: is_digit_def code_def)

lemma int_value_digits: "int_value (nat_digits n) = int n"
proof -
  obtain c cs where "nat_digits n = c # cs" by (cases "nat_digits n") auto
  moreover from this have "c \<noteq> CHR ''-''" using nat_digits_digits [of c n] not_minus by auto
  ultimately show ?thesis using value_of_nat_digits [of n] by (simp add: int_value_def)
qed

lemma int_value_int_digits: "int_value (int_digits i) = i"
proof (cases "i < 0")
  case True
  then show ?thesis by (simp add: int_digits_def int_value_def value_of_nat_digits)
next
  case False
  then show ?thesis by (simp add: int_digits_def int_value_digits)
qed

lemma int_value_pad2: "int_value (pad2 i) = i"
proof (cases "0 \<le> i \<and> i < 10")
  case True
  then have "int_value (CHR ''0'' # nat_digits (nat i)) = int (value_of (nat_digits (nat i)))"
    by (simp add: int_value_def value_of_def digit_value_def code_def)
  with True show ?thesis by (simp add: pad2_def int_digits_def value_of_nat_digits)
next
  case False
  then have "pad2 i = int_digits i" unfolding pad2_def by (simp only: if_False)
  then show ?thesis by (simp add: int_value_int_digits)
qed

lemma pad2_inj: "pad2 i = pad2 j \<Longrightarrow> i = j"
  by (metis int_value_pad2)

lemma int_digits_inj: "int_digits i = int_digits j \<Longrightarrow> i = j"
  by (metis int_value_int_digits)

definition numeral_char :: "char \<Rightarrow> bool" where
  "numeral_char c \<longleftrightarrow> is_digit c \<or> c = CHR ''-''"

lemma pad2_chars: "c \<in> set (pad2 i) \<Longrightarrow> numeral_char c"
  using nat_digits_digits
  by (auto simp: pad2_def int_digits_def numeral_char_def is_digit_def code_def split: if_splits)

subsection \<open>Splitting\<close>

text \<open>\<open>s.split(c)\<close>: never empty.\<close>

fun split_on :: "char \<Rightarrow> string \<Rightarrow> string list" where
  "split_on c [] = [[]]"
| "split_on c (x # xs) = (if x = c then [] # split_on c xs
     else (case split_on c xs of [] \<Rightarrow> [[x]] | w # ws \<Rightarrow> (x # w) # ws))"

text \<open>Every element through a fallible function.\<close>

fun those_of :: "('a \<Rightarrow> 'b option) \<Rightarrow> 'a list \<Rightarrow> 'b list option" where
  "those_of f [] = Some []"
| "those_of f (x # xs) = (case f x of None \<Rightarrow> None
     | Some y \<Rightarrow> (case those_of f xs of None \<Rightarrow> None | Some ys \<Rightarrow> Some (y # ys)))"

text \<open>\<open>s.split(c, n)\<close>.\<close>

fun split_max :: "char \<Rightarrow> nat \<Rightarrow> string \<Rightarrow> string list" where
  "split_max c 0 s = [s]"
| "split_max c (Suc n) s = (if c \<in> set s
     then takeWhile (\<lambda>x. x \<noteq> c) s # split_max c n (tl (dropWhile (\<lambda>x. x \<noteq> c) s)) else [s])"

lemma split_max_field: "c \<notin> set f \<Longrightarrow> split_max c (Suc n) (f @ c # s) = f # split_max c n s"
proof -
  assume "c \<notin> set f"
  then have "takeWhile (\<lambda>x. x \<noteq> c) (f @ c # s) = f" "dropWhile (\<lambda>x. x \<noteq> c) (f @ c # s) = c # s"
    by (induction f) auto
  then show ?thesis by simp
qed

subsection \<open>JSON values as Python reads them\<close>

fun truthy_json :: "json \<Rightarrow> bool" where
  "truthy_json JNull = False"
| "truthy_json (JBool b) = b"
| "truthy_json (JInt i) = (i \<noteq> 0)"
| "truthy_json (JFloat r) = (r \<noteq> 0)"
| "truthy_json (JStr s) = (s \<noteq> [])"
| "truthy_json (JArr xs) = (xs \<noteq> [])"
| "truthy_json (JObj kvs) = (kvs \<noteq> [])"

text \<open>\<open>d.get(key)\<close>, \<open>None\<close> where the key is absent.\<close>

definition get :: "payload \<Rightarrow> string \<Rightarrow> json" where
  "get d key = (case map_of d key of None \<Rightarrow> JNull | Some v \<Rightarrow> v)"

text \<open>An assignment \<open>d[k] = v\<close>: in place when the key is there, at the end otherwise.\<close>

definition dict_set :: "payload \<Rightarrow> string \<times> json \<Rightarrow> payload" where
  "dict_set d kv = (if fst kv \<in> fst ` set d
     then map (\<lambda>(k, v). if k = fst kv then kv else (k, v)) d else d @ [kv])"

text \<open>Sequencing of fallible steps.\<close>

definition bind_sum :: "'e + 'a \<Rightarrow> ('a \<Rightarrow> 'e + 'b) \<Rightarrow> 'e + 'b" where
  "bind_sum m f = (case m of Inl e \<Rightarrow> Inl e | Inr x \<Rightarrow> f x)"

lemma bind_sum_simps [simp]: "bind_sum (Inl e) f = Inl e" "bind_sum (Inr x) f = f x"
  by (simp_all add: bind_sum_def)

lemma bind_sum_Inr: "bind_sum m f = Inr y \<longleftrightarrow> (\<exists>x. m = Inr x \<and> f x = Inr y)"
  by (cases m) simp_all

end
