(* ===== verification/Intake.thy ===== *)
theory Intake
  imports Text Jobs
begin

text \<open>
  Deliveries of Radarr and Sonarr (\<open>intake/arr.py\<close>, \<open>intake/routes.py\<close>): the schema gate, the
  parsers, the intents with their queue key and their stored form, and the handler that logs
  a delivery and queues its intents. A body is what \<open>json.loads\<close> made of it. Python carries
  values of another type than a field declares; the parser and the decoder answer
  \<open>Ill_typed\<close> for those, and the gate refuses every delivery that has one.
\<close>

subsection \<open>The schema\<close>

definition RADARR_EVENTS :: "string list" where
  "RADARR_EVENTS = [''download'', ''rename'', ''movieadded'']"

definition SONARR_EVENTS :: "string list" where
  "SONARR_EVENTS = [''download'', ''rename'', ''seriesadd'']"

definition EVENT_TYPE_MAX_CHARS :: nat where
  "EVENT_TYPE_MAX_CHARS = 64"

definition no_control :: "string \<Rightarrow> bool" where
  "no_control s \<longleftrightarrow> list_all (\<lambda>c. \<not> is_control c) s"

text \<open>The field types: a required text with bounds, an optional text, \<open>StrictInt\<close>.\<close>

definition text_field :: "json \<Rightarrow> bool" where
  "text_field v = (case v of JStr s \<Rightarrow> s \<noteq> [] \<and> no_control s | _ \<Rightarrow> False)"

definition opt_text_field :: "json \<Rightarrow> bool" where
  "opt_text_field v = (case v of JNull \<Rightarrow> True | JStr s \<Rightarrow> no_control s | _ \<Rightarrow> False)"

definition int_field :: "json \<Rightarrow> bool" where
  "int_field v = (case v of JInt _ \<Rightarrow> True | _ \<Rightarrow> False)"

definition opt_int_field :: "json \<Rightarrow> bool" where
  "opt_int_field v = (case v of JNull \<Rightarrow> True | JInt _ \<Rightarrow> True | _ \<Rightarrow> False)"

definition ArrEnvelope :: "payload \<Rightarrow> bool" where
  "ArrEnvelope p = (case get p ''eventType'' of
       JStr s \<Rightarrow> s \<noteq> [] \<and> length s \<le> EVENT_TYPE_MAX_CHARS \<and> no_control s | _ \<Rightarrow> False)"

definition literal_event :: "string list \<Rightarrow> payload \<Rightarrow> bool" where
  "literal_event events p = (case get p ''eventType'' of JStr s \<Rightarrow> lower s \<in> set events | _ \<Rightarrow> False)"

definition Movie :: "json \<Rightarrow> bool" where
  "Movie v = (case v of
       JObj m \<Rightarrow> text_field (get m ''title'') \<and> opt_int_field (get m ''tmdbId'') \<and>
         opt_text_field (get m ''imdbId'') \<and> opt_int_field (get m ''year'')
     | _ \<Rightarrow> False)"

definition Series :: "json \<Rightarrow> bool" where
  "Series v = (case v of
       JObj m \<Rightarrow> text_field (get m ''title'') \<and> opt_int_field (get m ''tvdbId'') \<and>
         opt_int_field (get m ''tmdbId'') \<and> opt_text_field (get m ''imdbId'') \<and>
         opt_int_field (get m ''year'')
     | _ \<Rightarrow> False)"

definition Episode :: "json \<Rightarrow> bool" where
  "Episode v = (case v of
       JObj m \<Rightarrow> int_field (get m ''seasonNumber'') \<and> int_field (get m ''episodeNumber'') \<and>
         opt_text_field (get m ''title'')
     | _ \<Rightarrow> False)"

definition RadarrPayload :: "payload \<Rightarrow> bool" where
  "RadarrPayload p \<longleftrightarrow> literal_event RADARR_EVENTS p \<and> Movie (get p ''movie'')"

definition SonarrPayload :: "payload \<Rightarrow> bool" where
  "SonarrPayload p \<longleftrightarrow> literal_event SONARR_EVENTS p \<and> Series (get p ''series'') \<and>
     (case get p ''episodes'' of JNull \<Rightarrow> True | JArr es \<Rightarrow> list_all Episode es | _ \<Rightarrow> False)"

subsection \<open>Intents\<close>

datatype parse_error = Attribute_error | Type_error | Ill_typed

record intent =
  in_kind :: string
  in_title :: string
  in_tmdb :: "int option"
  in_tvdb :: "int option"
  in_imdb :: "string option"
  in_year :: "int option"
  in_season :: "int option"
  in_episode :: "int option"
  in_refs :: "(string \<times> string) list"

text \<open>
  \<open>RenderIntent.dedupe_key\<close>: the first external id that is truthy, else the title, and the season
  and episode numbers where they are set.
\<close>

definition ident :: "intent \<Rightarrow> string" where
  "ident i =
     (if in_tmdb i \<noteq> None \<and> in_tmdb i \<noteq> Some 0 then ''tmdb'' @ int_digits (the (in_tmdb i))
      else if in_tvdb i \<noteq> None \<and> in_tvdb i \<noteq> Some 0 then ''tvdb'' @ int_digits (the (in_tvdb i))
      else if in_imdb i \<noteq> None \<and> in_imdb i \<noteq> Some [] then ''imdb'' @ the (in_imdb i)
      else ''title'' @ lower (in_title i))"

definition number_suffix :: "intent \<Rightarrow> string" where
  "number_suffix i = (case in_season i of
       None \<Rightarrow> []
     | Some s \<Rightarrow> '':s'' @ pad2 s @ (case in_episode i of None \<Rightarrow> [] | Some e \<Rightarrow> ''e'' @ pad2 e))"

definition intent_key :: "intent \<Rightarrow> string" where
  "intent_key i = ''process_item:'' @ in_kind i @ '':'' @ ident i @ number_suffix i"

definition native_id_on :: "string \<Rightarrow> intent \<Rightarrow> string option" where
  "native_id_on server i = map_of (in_refs i) server"

text \<open>\<open>dataclasses.asdict\<close>, the payload a job stores.\<close>

definition jint :: "int option \<Rightarrow> json" where
  "jint x = (case x of None \<Rightarrow> JNull | Some n \<Rightarrow> JInt n)"

definition jstr :: "string option \<Rightarrow> json" where
  "jstr x = (case x of None \<Rightarrow> JNull | Some s \<Rightarrow> JStr s)"

definition asdict :: "intent \<Rightarrow> payload" where
  "asdict i = [(''kind'', JStr (in_kind i)), (''title'', JStr (in_title i)),
     (''tmdb_id'', jint (in_tmdb i)), (''tvdb_id'', jint (in_tvdb i)), (''imdb_id'', jstr (in_imdb i)),
     (''year'', jint (in_year i)), (''season_number'', jint (in_season i)),
     (''episode_number'', jint (in_episode i)),
     (''refs'', JObj (map (\<lambda>(k, v). (k, JStr v)) (in_refs i)))]"

text \<open>\<open>RenderIntent.from_payload\<close>: a job's payload back, the older shape with \<open>rating_key\<close> too.\<close>

definition intent_fields :: "string list" where
  "intent_fields = [''kind'', ''title'', ''tmdb_id'', ''tvdb_id'', ''imdb_id'', ''year'',
     ''season_number'', ''episode_number'']"

definition read_int :: "json \<Rightarrow> parse_error + int option" where
  "read_int v = (case v of JNull \<Rightarrow> Inr None | JInt n \<Rightarrow> Inr (Some n) | _ \<Rightarrow> Inl Ill_typed)"

definition read_str :: "json \<Rightarrow> parse_error + string option" where
  "read_str v = (case v of JNull \<Rightarrow> Inr None | JStr s \<Rightarrow> Inr (Some s) | _ \<Rightarrow> Inl Ill_typed)"

definition read_text :: "json \<Rightarrow> parse_error + string" where
  "read_text v = (case v of JStr s \<Rightarrow> Inr s | _ \<Rightarrow> Inl Ill_typed)"

fun read_refs :: "payload \<Rightarrow> parse_error + (string \<times> string) list" where
  "read_refs [] = Inr []"
| "read_refs ((k, v) # kvs) = bind_sum (read_text v) (\<lambda>s. bind_sum (read_refs kvs) (\<lambda>rs. Inr ((k, s) # rs)))"

definition refs_of :: "json \<Rightarrow> parse_error + (string \<times> string) list" where
  "refs_of v = (if \<not> truthy_json v then Inr []
     else case v of JObj kvs \<Rightarrow> read_refs kvs | _ \<Rightarrow> Inl Ill_typed)"

definition with_legacy :: "json \<Rightarrow> (string \<times> string) list \<Rightarrow> parse_error + (string \<times> string) list" where
  "with_legacy legacy rs =
     (if truthy_json legacy \<and> ''plex'' \<notin> fst ` set rs
      then (case legacy of JStr s \<Rightarrow> Inr (rs @ [(''plex'', s)])
        | JInt n \<Rightarrow> Inr (rs @ [(''plex'', int_digits n)]) | _ \<Rightarrow> Inl Ill_typed)
      else Inr rs)"

definition from_payload :: "payload \<Rightarrow> parse_error + intent" where
  "from_payload p =
     (let fields = filter (\<lambda>k. k \<noteq> ''rating_key'' \<and> k \<noteq> ''refs'') (map fst p)
      in bind_sum (refs_of (get p ''refs'')) (\<lambda>rs0.
         bind_sum (with_legacy (get p ''rating_key'') rs0) (\<lambda>rs.
         if \<not> set fields \<subseteq> set intent_fields \<or> ''kind'' \<notin> set fields \<or> ''title'' \<notin> set fields
         then Inl Type_error
         else
           bind_sum (read_text (get p ''kind'')) (\<lambda>kind.
           bind_sum (read_text (get p ''title'')) (\<lambda>title.
           bind_sum (read_int (get p ''tmdb_id'')) (\<lambda>tmdb.
           bind_sum (read_int (get p ''tvdb_id'')) (\<lambda>tvdb.
           bind_sum (read_str (get p ''imdb_id'')) (\<lambda>imdb.
           bind_sum (read_int (get p ''year'')) (\<lambda>year.
           bind_sum (read_int (get p ''season_number'')) (\<lambda>season.
           bind_sum (read_int (get p ''episode_number'')) (\<lambda>episode.
           Inr \<lparr>in_kind = kind, in_title = title, in_tmdb = tmdb, in_tvdb = tvdb, in_imdb = imdb,
             in_year = year, in_season = season, in_episode = episode, in_refs = rs\<rparr>)))))))))))"

subsection \<open>The parsers\<close>

definition int_or_none :: "json \<Rightarrow> parse_error + int option" where
  "int_or_none v = (case v of
       JInt n \<Rightarrow> Inr (if n > 0 then Some n else None)
     | JBool True \<Rightarrow> Inl Ill_typed
     | _ \<Rightarrow> Inr None)"

definition str_or_none :: "json \<Rightarrow> string option" where
  "str_or_none v = (case v of JStr s \<Rightarrow> if strip s \<noteq> [] then Some s else None | _ \<Rightarrow> None)"

text \<open>\<open>str(...).lower() in events\<close>: the print of any value but a text is none of the names.\<close>

definition event_in :: "string list \<Rightarrow> payload \<Rightarrow> bool" where
  "event_in events p = (case get p ''eventType'' of JStr s \<Rightarrow> lower s \<in> set events | _ \<Rightarrow> False)"

text \<open>\<open>payload.get(key) or {}\<close>, of which \<open>.get\<close> is then asked.\<close>

definition sub_object :: "payload \<Rightarrow> string \<Rightarrow> parse_error + payload" where
  "sub_object p key = (let v = get p key in
     if \<not> truthy_json v then Inr [] else case v of JObj m \<Rightarrow> Inr m | _ \<Rightarrow> Inl Attribute_error)"

definition parse_radarr :: "payload \<Rightarrow> parse_error + intent list" where
  "parse_radarr p =
     (if \<not> event_in RADARR_EVENTS p then Inr []
      else bind_sum (sub_object p ''movie'') (\<lambda>m.
        case str_or_none (get m ''title'') of
          None \<Rightarrow> Inr []
        | Some title \<Rightarrow>
            bind_sum (int_or_none (get m ''tmdbId'')) (\<lambda>tmdb.
            bind_sum (int_or_none (get m ''year'')) (\<lambda>year.
            Inr [\<lparr>in_kind = ''movie'', in_title = title, in_tmdb = tmdb, in_tvdb = None,
              in_imdb = str_or_none (get m ''imdbId''), in_year = year, in_season = None,
              in_episode = None, in_refs = []\<rparr>]))))"

definition season_of :: "intent \<Rightarrow> int \<Rightarrow> intent" where
  "season_of show_intent s = show_intent\<lparr>in_kind := ''season'', in_season := Some s\<rparr>"

definition episode_of :: "intent \<Rightarrow> payload \<Rightarrow> int \<Rightarrow> int \<Rightarrow> intent" where
  "episode_of show_intent m s e = show_intent\<lparr>in_kind := ''episode'',
     in_title := (case str_or_none (get m ''title'') of None \<Rightarrow> in_title show_intent | Some t \<Rightarrow> t),
     in_season := Some s, in_episode := Some e\<rparr>"

text \<open>The loop over the episodes: the seasons seen, their intents, the episodes' intents.\<close>

fun episode_loop ::
  "intent \<Rightarrow> json list \<Rightarrow> int list \<Rightarrow> intent list \<Rightarrow> intent list \<Rightarrow> parse_error + intent list" where
  "episode_loop show_intent [] seen intents eps = Inr (intents @ eps)"
| "episode_loop show_intent (v # vs) seen intents eps = (case v of
     JObj m \<Rightarrow> (case (get m ''seasonNumber'', get m ''episodeNumber'') of
         (JNull, _) \<Rightarrow> episode_loop show_intent vs seen intents eps
       | (_, JNull) \<Rightarrow> episode_loop show_intent vs seen intents eps
       | (JInt s, JInt e) \<Rightarrow> episode_loop show_intent vs
           (if s \<in> set seen then seen else seen @ [s])
           (if s \<in> set seen then intents else intents @ [season_of show_intent s])
           (eps @ [episode_of show_intent m s e])
       | _ \<Rightarrow> Inl Ill_typed)
   | _ \<Rightarrow> Inl Attribute_error)"

definition episodes_of :: "payload \<Rightarrow> parse_error + json list" where
  "episodes_of p = (let v = get p ''episodes'' in
     if \<not> truthy_json v then Inr []
     else case v of JArr es \<Rightarrow> Inr es
       | JObj _ \<Rightarrow> Inl Attribute_error | JStr _ \<Rightarrow> Inl Attribute_error | _ \<Rightarrow> Inl Type_error)"

definition parse_sonarr :: "payload \<Rightarrow> parse_error + intent list" where
  "parse_sonarr p =
     (if \<not> event_in SONARR_EVENTS p then Inr []
      else bind_sum (sub_object p ''series'') (\<lambda>m.
        case str_or_none (get m ''title'') of
          None \<Rightarrow> Inr []
        | Some title \<Rightarrow>
            bind_sum (int_or_none (get m ''tvdbId'')) (\<lambda>tvdb.
            bind_sum (int_or_none (get m ''tmdbId'')) (\<lambda>tmdb.
            bind_sum (int_or_none (get m ''year'')) (\<lambda>year.
            bind_sum (episodes_of p) (\<lambda>es.
            let show_intent = \<lparr>in_kind = ''show'', in_title = title, in_tmdb = tmdb, in_tvdb = tvdb,
              in_imdb = str_or_none (get m ''imdbId''), in_year = year, in_season = None,
              in_episode = None, in_refs = []\<rparr>
            in episode_loop show_intent es [] [show_intent] []))))))"

subsection \<open>The handler\<close>

definition MAX_RAW_BODY_CHARS :: nat where
  "MAX_RAW_BODY_CHARS = 2000"

definition NOT_AN_ARR_DELIVERY :: string where
  "NOT_AN_ARR_DELIVERY = ''body does not match the webhook schema for this service''"

definition strip_nul :: "string \<Rightarrow> string" where
  "strip_nul s = filter (\<lambda>c. code c \<noteq> 0) s"

fun without_nul :: "json \<Rightarrow> json" where
  "without_nul (JStr s) = JStr (strip_nul s)"
| "without_nul (JObj kvs) = JObj (foldl dict_set [] (map (\<lambda>kv. (strip_nul (fst kv), without_nul (snd kv))) kvs))"
| "without_nul (JArr vs) = JArr (map without_nul vs)"
| "without_nul v = v"

record event =
  ev_source :: string
  ev_type :: "string option"
  ev_payload :: json
  ev_outcome :: string

text \<open>A body: its text and what \<open>json.loads\<close> made of it, or the class it raised.\<close>

record body =
  raw_text :: string
  loaded :: "string + json"

datatype response = Http int string | Accepted nat nat | Server_error parse_error

definition error_name :: "parse_error \<Rightarrow> string" where
  "error_name e = (case e of Attribute_error \<Rightarrow> ''AttributeError'' | _ \<Rightarrow> ''TypeError'')"

definition authorised :: "string \<Rightarrow> string option \<Rightarrow> bool" where
  "authorised secret token \<longleftrightarrow> token \<noteq> None \<and> token \<noteq> Some [] \<and> token = Some secret"

definition raw_evidence :: "string \<Rightarrow> json" where
  "raw_evidence t = without_nul (JObj [(''_raw'', JStr
     (if length t > MAX_RAW_BODY_CHARS then take MAX_RAW_BODY_CHARS t @ ''...(truncated)'' else t))])"

text \<open>Each \<open>enqueue\<close> commits; \<open>clock k\<close> is the database clock of the \<open>k\<close>-th.\<close>

fun enqueue_intents ::
  "(nat \<Rightarrow> instant) \<Rightarrow> int \<Rightarrow> intent list \<Rightarrow> jobs_db \<times> nat \<Rightarrow> jobs_db \<times> nat" where
  "enqueue_intents clock settle [] acc = acc"
| "enqueue_intents clock settle (i # is) (db, n) =
     (let (db', job_id) = enqueue (clock 0) ''process_item'' (asdict i) (Some (intent_key i)) settle db
      in enqueue_intents (\<lambda>k. clock (Suc k)) settle is (db', if job_id = None then n else Suc n))"

definition ingest ::
  "(nat \<Rightarrow> instant) \<Rightarrow> int \<Rightarrow> string \<Rightarrow> (payload \<Rightarrow> parse_error + intent list) \<Rightarrow> string list \<Rightarrow>
   (payload \<Rightarrow> bool) \<Rightarrow> body \<Rightarrow> jobs_db \<times> event list \<Rightarrow> (jobs_db \<times> event list) \<times> response" where
  "ingest clock settle source parser accepted_events model b st =
     (let (db, log) = st;
          logged = (\<lambda>t pl out. log @ [\<lparr>ev_source = source, ev_type = t, ev_payload = pl, ev_outcome = out\<rparr>]);
          unparseable = (\<lambda>cls. let err = ''unparseable payload ('' @ cls @ '')''
            in ((db, logged None (raw_evidence (raw_text b)) err), Http 400 err))
      in case loaded b of
           Inl cls \<Rightarrow> unparseable cls
         | Inr (JObj p) \<Rightarrow>
             let pl = without_nul (JObj p) in
             (case get p ''eventType'' of
                JStr t \<Rightarrow>
                  if \<not> ArrEnvelope p
                  then ((db, logged None pl NOT_AN_ARR_DELIVERY), Http 400 NOT_AN_ARR_DELIVERY)
                  else if lower t \<notin> set accepted_events
                  then ((db, logged (Some t) pl ''0 intents''), Accepted 0 0)
                  else if \<not> model p
                  then ((db, logged (Some t) pl NOT_AN_ARR_DELIVERY), Http 400 NOT_AN_ARR_DELIVERY)
                  else (case parser p of
                      Inl e \<Rightarrow> ((db, logged (Some t) pl (''parser error ('' @ error_name e @ '')'')),
                        Server_error e)
                    | Inr is \<Rightarrow>
                        let (db', queued) = enqueue_intents clock settle is (db, 0)
                        in ((db', logged (Some t) pl (nat_digits (length is) @ '' intents'')),
                            Accepted (length is) queued))
              | _ \<Rightarrow> ((db, logged None pl NOT_AN_ARR_DELIVERY), Http 400 NOT_AN_ARR_DELIVERY))
         | Inr _ \<Rightarrow> unparseable ''ValueError'')"

definition INVALID_TOKEN :: string where
  "INVALID_TOKEN = ''invalid or missing X-Autoposter-Token''"

definition radarr_webhook ::
  "(nat \<Rightarrow> instant) \<Rightarrow> int \<Rightarrow> string \<Rightarrow> string option \<Rightarrow> body \<Rightarrow> jobs_db \<times> event list \<Rightarrow>
   (jobs_db \<times> event list) \<times> response" where
  "radarr_webhook clock settle secret token b st =
     (if authorised secret token
      then ingest clock settle ''radarr'' parse_radarr RADARR_EVENTS RadarrPayload b st
      else (st, Http 401 INVALID_TOKEN))"

definition sonarr_webhook ::
  "(nat \<Rightarrow> instant) \<Rightarrow> int \<Rightarrow> string \<Rightarrow> string option \<Rightarrow> body \<Rightarrow> jobs_db \<times> event list \<Rightarrow>
   (jobs_db \<times> event list) \<times> response" where
  "sonarr_webhook clock settle secret token b st =
     (if authorised secret token
      then ingest clock settle ''sonarr'' parse_sonarr SONARR_EVENTS SonarrPayload b st
      else (st, Http 401 INVALID_TOKEN))"

end
