(* ===== verification/Intake_Props.thy ===== *)
theory Intake_Props
  imports Intake Queue_Props
begin

text \<open>
  What the intake promises: the gate admits only deliveries the parsers turn into well-formed
  intents, the queue key tells intents apart by what they are about, a job's payload decodes to
  the intent it was queued for, and a delivery is logged once and queued or refused whole.
\<close>

subsection \<open>Well-formed intents\<close>

definition wf_intent :: "intent \<Rightarrow> bool" where
  "wf_intent i \<longleftrightarrow> in_kind i \<in> {''movie'', ''show'', ''season'', ''episode''} \<and>
     strip (in_title i) \<noteq> [] \<and> no_control (in_title i) \<and>
     (case in_tmdb i of None \<Rightarrow> True | Some n \<Rightarrow> 0 < n) \<and>
     (case in_tvdb i of None \<Rightarrow> True | Some n \<Rightarrow> 0 < n) \<and>
     (case in_imdb i of None \<Rightarrow> True | Some s \<Rightarrow> strip s \<noteq> [] \<and> no_control s) \<and>
     (case in_year i of None \<Rightarrow> True | Some n \<Rightarrow> 0 < n) \<and>
     (in_season i \<noteq> None \<longleftrightarrow> in_kind i \<in> {''season'', ''episode''}) \<and>
     (in_episode i \<noteq> None \<longleftrightarrow> in_kind i = ''episode'')"

lemma int_or_none_field:
  assumes "opt_int_field v"
  obtains x where "int_or_none v = Inr x" and "case x of None \<Rightarrow> True | Some n \<Rightarrow> 0 < n"
proof (cases v)
  case (JInt n)
  then show thesis using that [of "if n > 0 then Some n else None"] by (simp add: int_or_none_def)
next
  case JNull
  then show thesis using that [of None] by (simp add: int_or_none_def)
qed (use assms in \<open>simp_all add: opt_int_field_def\<close>)

lemma str_or_none_field:
  "opt_text_field v \<Longrightarrow> case str_or_none v of None \<Rightarrow> True | Some s \<Rightarrow> strip s \<noteq> [] \<and> no_control s"
  by (cases v) (auto simp: opt_text_field_def str_or_none_def split: if_splits)

lemma text_opt: "text_field v \<Longrightarrow> opt_text_field v"
  by (cases v) (simp_all add: text_field_def opt_text_field_def)

lemma sub_object_Obj: "get p key = JObj m \<Longrightarrow> sub_object p key = Inr m"
  by (simp add: sub_object_def)

lemma literal_event_in: "literal_event es p \<longleftrightarrow> event_in es p"
  by (simp add: literal_event_def event_in_def)

lemma radarr_gate:
  assumes "RadarrPayload p"
  shows "\<exists>is. parse_radarr p = Inr is \<and> list_all wf_intent is"
proof -
  obtain m where m: "get p ''movie'' = JObj m" and ev: "event_in RADARR_EVENTS p"
    and f: "text_field (get m ''title'')" "opt_int_field (get m ''tmdbId'')"
      "opt_text_field (get m ''imdbId'')" "opt_int_field (get m ''year'')"
    using assms by (auto simp: RadarrPayload_def Movie_def literal_event_in split: json.splits)
  obtain tmdb where tmdb: "int_or_none (get m ''tmdbId'') = Inr tmdb"
    "case tmdb of None \<Rightarrow> True | Some n \<Rightarrow> 0 < n" by (rule int_or_none_field [OF f(2)])
  obtain year where year: "int_or_none (get m ''year'') = Inr year"
    "case year of None \<Rightarrow> True | Some n \<Rightarrow> 0 < n" by (rule int_or_none_field [OF f(4)])
  note t = str_or_none_field [OF text_opt [OF f(1)]] and im = str_or_none_field [OF f(3)]
  show ?thesis
    using ev t im tmdb year
    by (simp add: parse_radarr_def sub_object_Obj [OF m] wf_intent_def split: option.splits)
qed

text \<open>What the loop over validated episodes builds.\<close>

definition show_ok :: "intent \<Rightarrow> bool" where
  "show_ok i \<longleftrightarrow> wf_intent i \<and> in_kind i = ''show''"

lemma wf_season: "show_ok i \<Longrightarrow> wf_intent (season_of i s)"
  by (simp add: show_ok_def wf_intent_def season_of_def)

lemma wf_episode:
  assumes "show_ok i" and "opt_text_field (get m ''title'')"
  shows "wf_intent (episode_of i m s e)"
  using assms str_or_none_field [OF assms(2)]
  by (auto simp: show_ok_def wf_intent_def episode_of_def split: option.splits)

text \<open>The numbers of a validated episode.\<close>

definition numbers :: "json \<Rightarrow> int \<times> int" where
  "numbers v = (case v of JObj m \<Rightarrow> (case (get m ''seasonNumber'', get m ''episodeNumber'') of
       (JInt s, JInt e) \<Rightarrow> (s, e) | _ \<Rightarrow> (0, 0)) | _ \<Rightarrow> (0, 0))"

definition episode_intent :: "intent \<Rightarrow> json \<Rightarrow> intent" where
  "episode_intent i v = (case v of JObj m \<Rightarrow> episode_of i m (fst (numbers v)) (snd (numbers v)) | _ \<Rightarrow> i)"

text \<open>The first occurrences, in order.\<close>

definition firsts :: "int list \<Rightarrow> int list" where
  "firsts xs = rev (remdups (rev xs))"

lemma Episode_Obj:
  assumes "Episode v"
  obtains m s e where "v = JObj m" "get m ''seasonNumber'' = JInt s" "get m ''episodeNumber'' = JInt e"
    "opt_text_field (get m ''title'')" "numbers v = (s, e)" "episode_intent i v = episode_of i m s e"
proof -
  obtain m where m: "v = JObj m" "int_field (get m ''seasonNumber'')" "int_field (get m ''episodeNumber'')"
      "opt_text_field (get m ''title'')"
    using assms by (auto simp: Episode_def split: json.splits)
  then obtain s e where "get m ''seasonNumber'' = JInt s" "get m ''episodeNumber'' = JInt e"
    by (auto simp: int_field_def split: json.splits)
  with m show thesis using that by (simp add: numbers_def episode_intent_def)
qed

lemma firsts_snoc: "firsts (xs @ [x]) = (if x \<in> set xs then firsts xs else firsts xs @ [x])"
  by (simp add: firsts_def)

lemma set_firsts [simp]: "set (firsts xs) = set xs"
  by (simp add: firsts_def)

lemma episode_loop_spec:
  assumes "list_all Episode es"
  shows "episode_loop i es (firsts done_seasons) (i # map (season_of i) (firsts done_seasons)) eps =
    Inr (i # map (season_of i) (firsts (done_seasons @ map (fst \<circ> numbers) es)) @ eps @ map (episode_intent i) es)"
  using assms
proof (induction es arbitrary: done_seasons eps)
  case Nil
  then show ?case by simp
next
  case (Cons v es)
  then have "Episode v" by simp
  then obtain m s e where v: "v = JObj m" "get m ''seasonNumber'' = JInt s" "get m ''episodeNumber'' = JInt e"
    "opt_text_field (get m ''title'')" "numbers v = (s, e)" "episode_intent i v = episode_of i m s e"
    by (rule Episode_Obj)
  have seen: "(if s \<in> set (firsts done_seasons) then firsts done_seasons else firsts done_seasons @ [s]) =
      firsts (done_seasons @ [s])"
    by (simp add: firsts_snoc)
  have "(if s \<in> set (firsts done_seasons) then i # map (season_of i) (firsts done_seasons)
      else (i # map (season_of i) (firsts done_seasons)) @ [season_of i s]) =
      i # map (season_of i) (firsts (done_seasons @ [s]))"
    by (simp add: firsts_snoc)
  then have "episode_loop i (v # es) (firsts done_seasons) (i # map (season_of i) (firsts done_seasons)) eps =
      episode_loop i es (firsts (done_seasons @ [s])) (i # map (season_of i) (firsts (done_seasons @ [s])))
        (eps @ [episode_of i m s e])"
    using v(2,3) seen by (simp add: v(1))
  also have "\<dots> = Inr (i # map (season_of i) (firsts ((done_seasons @ [s]) @ map (fst \<circ> numbers) es)) @
      (eps @ [episode_of i m s e]) @ map (episode_intent i) es)"
    using Cons.prems by (intro Cons.IH) simp
  finally show ?case using v(5,6) by (simp add: comp_def)
qed

lemma sonarr_episodes:
  assumes "SonarrPayload p"
  obtains es where "episodes_of p = Inr es" and "list_all Episode es"
    and "es = (case get p ''episodes'' of JArr xs \<Rightarrow> xs | _ \<Rightarrow> [])"
  using assms
  by (cases "get p ''episodes''") (auto simp: SonarrPayload_def episodes_of_def Let_def)

definition first_show :: "intent list \<Rightarrow> bool" where
  "first_show is \<longleftrightarrow> is = [] \<or> show_ok (hd is)"

lemma sonarr_parsed:
  assumes "SonarrPayload p"
  shows "parse_sonarr p = Inr [] \<or> (\<exists>i. show_ok i \<and> in_refs i = [] \<and>
    parse_sonarr p = Inr (let es = (case get p ''episodes'' of JArr xs \<Rightarrow> xs | _ \<Rightarrow> []) in
      i # map (season_of i) (firsts (map (fst \<circ> numbers) es)) @ map (episode_intent i) es))"
proof -
  obtain m where m: "get p ''series'' = JObj m" and ev: "event_in SONARR_EVENTS p"
    and f: "text_field (get m ''title'')" "opt_int_field (get m ''tvdbId'')" "opt_int_field (get m ''tmdbId'')"
      "opt_text_field (get m ''imdbId'')" "opt_int_field (get m ''year'')"
    using assms by (auto simp: SonarrPayload_def Series_def literal_event_in split: json.splits)
  obtain es where es: "episodes_of p = Inr es" "list_all Episode es"
    "es = (case get p ''episodes'' of JArr xs \<Rightarrow> xs | _ \<Rightarrow> [])" by (rule sonarr_episodes [OF assms])
  obtain tvdb where tvdb: "int_or_none (get m ''tvdbId'') = Inr tvdb"
    "case tvdb of None \<Rightarrow> True | Some n \<Rightarrow> 0 < n" by (rule int_or_none_field [OF f(2)])
  obtain tmdb where tmdb: "int_or_none (get m ''tmdbId'') = Inr tmdb"
    "case tmdb of None \<Rightarrow> True | Some n \<Rightarrow> 0 < n" by (rule int_or_none_field [OF f(3)])
  obtain year where year: "int_or_none (get m ''year'') = Inr year"
    "case year of None \<Rightarrow> True | Some n \<Rightarrow> 0 < n" by (rule int_or_none_field [OF f(5)])
  note t = str_or_none_field [OF text_opt [OF f(1)]] and im = str_or_none_field [OF f(4)]
  show ?thesis
  proof (cases "str_or_none (get m ''title'')")
    case None
    then show ?thesis by (simp add: parse_sonarr_def sub_object_Obj [OF m])
  next
    case (Some title)
    define i where "i = \<lparr>in_kind = ''show'', in_title = title, in_tmdb = tmdb, in_tvdb = tvdb,
      in_imdb = str_or_none (get m ''imdbId''), in_year = year, in_season = None,
      in_episode = None, in_refs = []\<rparr>"
    have ok: "show_ok i" using t im tmdb(2) tvdb(2) year(2) Some
      by (simp add: show_ok_def wf_intent_def i_def)
    have "parse_sonarr p = episode_loop i es (firsts []) (i # map (season_of i) (firsts [])) []"
      using ev by (simp add: parse_sonarr_def sub_object_Obj [OF m] Some tvdb(1) tmdb(1) year(1) es(1)
          i_def firsts_def Let_def)
    also have "\<dots> = Inr (i # map (season_of i) (firsts ([] @ map (fst \<circ> numbers) es)) @ [] @ map (episode_intent i) es)"
      by (rule episode_loop_spec [OF es(2)])
    finally have eq: "parse_sonarr p = Inr (i # map (season_of i) (firsts (map (fst \<circ> numbers) es)) @
        map (episode_intent i) es)"
      by simp
    have "in_refs i = []" by (simp add: i_def)
    with ok eq show ?thesis by (auto simp: es(3) [symmetric] Let_def)
  qed
qed

lemma wf_episode_intent: "show_ok i \<Longrightarrow> Episode v \<Longrightarrow> wf_intent (episode_intent i v)"
  by (erule Episode_Obj [where i = i]) (simp add: wf_episode)

lemma sonarr_gate:
  assumes "SonarrPayload p"
  shows "\<exists>is. parse_sonarr p = Inr is \<and> list_all wf_intent is"
proof -
  obtain es where es: "list_all Episode es" "es = (case get p ''episodes'' of JArr xs \<Rightarrow> xs | _ \<Rightarrow> [])"
    by (rule sonarr_episodes [OF assms])
  from sonarr_parsed [OF assms] show ?thesis
  proof (elim disjE exE conjE)
    fix i
    assume i: "show_ok i" and p: "parse_sonarr p = Inr (let es = (case get p ''episodes'' of JArr xs \<Rightarrow> xs | _ \<Rightarrow> []) in
      i # map (season_of i) (firsts (map (fst \<circ> numbers) es)) @ map (episode_intent i) es)"
    have "wf_intent i" using i by (simp add: show_ok_def)
    moreover have "list_all wf_intent (map (episode_intent i) es)"
      using es(1) wf_episode_intent [OF i] by (simp add: list_all_iff)
    ultimately show ?thesis using wf_season [OF i] p
      by (auto simp: es(2) [symmetric] Let_def list_all_iff)
  qed simp
qed

text \<open>
  C22: the gate is sound for the parsers. Every delivery the schema admits is parsed without an
  exception, and every intent it yields is well formed: a kind of the four, a title that is
  not blank and free of control characters, positive ids and year, a season number exactly on
  seasons and episodes and an episode number exactly on episodes.
\<close>

theorem gate_admits_parsable:
  "(RadarrPayload p \<longrightarrow> (\<exists>is. parse_radarr p = Inr is \<and> list_all wf_intent is)) \<and>
   (SonarrPayload p \<longrightarrow> (\<exists>is. parse_sonarr p = Inr is \<and> list_all wf_intent is))"
  using radarr_gate sonarr_gate by blast

definition a_movie :: payload where
  "a_movie = [(''eventType'', JStr ''Download''), (''movie'', JObj [(''title'', JStr ''Alien''),
     (''tmdbId'', JInt 348), (''year'', JInt 1979)])]"

definition a_series :: payload where
  "a_series = [(''eventType'', JStr ''Download''), (''series'', JObj [(''title'', JStr ''Dark''),
     (''tvdbId'', JInt 334824)]), (''episodes'', JArr [JObj [(''seasonNumber'', JInt 1),
     (''episodeNumber'', JInt 2)]])]"

lemma a_movie_valid: "RadarrPayload a_movie"
  by code_simp

lemma a_series_valid: "SonarrPayload a_series"
  by code_simp

theorem gate_admits_parsable_witness:
  "\<exists>is is'. parse_radarr a_movie = Inr is \<and> parse_sonarr a_series = Inr is' \<and> list_all wf_intent (is @ is')"
  using gate_admits_parsable [of a_movie] gate_admits_parsable [of a_series] a_movie_valid a_series_valid
  by auto

text \<open>
  An episode delivery fans out to the show, then each affected season once, in the order
  the episodes name them first, then every episode in its order; all carry the show's ids.
\<close>

theorem sonarr_fans_out:
  assumes "SonarrPayload p"
  shows "parse_sonarr p = Inr [] \<or> (\<exists>i. wf_intent i \<and> in_kind i = ''show'' \<and>
    parse_sonarr p = Inr (let es = (case get p ''episodes'' of JArr xs \<Rightarrow> xs | _ \<Rightarrow> []) in
      i # map (season_of i) (firsts (map (fst \<circ> numbers) es)) @ map (episode_intent i) es))"
  using sonarr_parsed [OF assms] unfolding show_ok_def by blast

theorem sonarr_fans_out_witness:
  "\<exists>i. parse_sonarr a_series = Inr [i, season_of i 1, episode_of i [(''seasonNumber'', JInt 1),
     (''episodeNumber'', JInt 2)] 1 2]"
proof -
  have "parse_sonarr a_series \<noteq> Inr []" by code_simp
  then obtain i where "parse_sonarr a_series = Inr (let es = (case get a_series ''episodes'' of
      JArr xs \<Rightarrow> xs | _ \<Rightarrow> []) in i # map (season_of i) (firsts (map (fst \<circ> numbers) es)) @ map (episode_intent i) es)"
    using sonarr_fans_out [OF a_series_valid] by blast
  then show ?thesis
    by (intro exI [of _ i]) (simp add: a_series_def get_def numbers_def episode_intent_def firsts_def)
qed

subsection \<open>The queue key\<close>

text \<open>What an intent is about: the first truthy external id, or the title without its case.\<close>

datatype subject = By_tmdb int | By_tvdb int | By_imdb string | By_title string

definition subject :: "intent \<Rightarrow> subject" where
  "subject i =
     (if in_tmdb i \<noteq> None \<and> in_tmdb i \<noteq> Some 0 then By_tmdb (the (in_tmdb i))
      else if in_tvdb i \<noteq> None \<and> in_tvdb i \<noteq> Some 0 then By_tvdb (the (in_tvdb i))
      else if in_imdb i \<noteq> None \<and> in_imdb i \<noteq> Some [] then By_imdb (the (in_imdb i))
      else By_title (lower (in_title i)))"

definition subject_text :: "subject \<Rightarrow> string" where
  "subject_text x = (case x of By_tmdb n \<Rightarrow> ''tmdb'' @ int_digits n | By_tvdb n \<Rightarrow> ''tvdb'' @ int_digits n
     | By_imdb s \<Rightarrow> ''imdb'' @ s | By_title s \<Rightarrow> ''title'' @ s)"

lemma ident_subject: "ident i = subject_text (subject i)"
  by (simp add: ident_def subject_def subject_text_def)

lemma subject_text_inj: "subject_text x = subject_text y \<Longrightarrow> x = y"
  by (cases x; cases y) (auto simp: subject_text_def dest: int_digits_inj)

lemma split_first:
  "c \<notin> set a \<Longrightarrow> c \<notin> set b \<Longrightarrow> a @ c # x = b @ c # y \<Longrightarrow> a = b \<and> x = y"
proof (induction a arbitrary: b)
  case Nil
  then show ?case by (cases b) auto
next
  case (Cons d a)
  then show ?case by (cases b) auto
qed

lemma split_last:
  assumes "c \<notin> set x" and "c \<notin> set y" and "a @ c # x = b @ c # y"
  shows "a = b \<and> x = y"
proof -
  have "rev (a @ c # x) = rev (b @ c # y)" using assms(3) by simp
  then have "rev x @ c # rev a = rev y @ c # rev b" by simp
  with split_first [of c "rev x" "rev y" "rev a" "rev b"] assms(1,2) show ?thesis by simp
qed

lemma pad2_no: "CHR '':'' \<notin> set (pad2 n)" "CHR ''e'' \<notin> set (pad2 n)"
  using pad2_chars [of _ n] by (auto simp: numeral_char_def is_digit_def code_def dest!: pad2_chars)

lemma suffix_split:
  assumes "wf_intent i" and "wf_intent j" and "in_kind i = in_kind j"
    and "a @ number_suffix i = b @ number_suffix j"
  shows "a = b \<and> in_season i = in_season j \<and> in_episode i = in_episode j"
proof (cases "in_season i")
  case None
  then have "in_season j = None" "in_episode i = None" "in_episode j = None"
    using assms(1-3) by (auto simp: wf_intent_def)
  with None assms(4) show ?thesis by (simp add: number_suffix_def)
next
  case (Some s)
  then obtain s' where s': "in_season j = Some s'" using assms(1-3) by (auto simp: wf_intent_def)
  show ?thesis
  proof (cases "in_episode i")
    case None
    then have e: "in_episode j = None" using assms(1-3) by (auto simp: wf_intent_def)
    have "a @ CHR '':'' # (CHR ''s'' # pad2 s) = b @ CHR '':'' # (CHR ''s'' # pad2 s')"
      using assms(4) Some s' None e by (simp add: number_suffix_def)
    from split_last [OF _ _ this] pad2_no have "a = b" "pad2 s = pad2 s'" by auto
    with Some s' None e show ?thesis by (simp add: pad2_inj)
  next
    case ep: (Some e)
    then obtain e' where e': "in_episode j = Some e'" using assms(1-3) by (auto simp: wf_intent_def)
    have "a @ CHR '':'' # (CHR ''s'' # pad2 s @ CHR ''e'' # pad2 e) =
        b @ CHR '':'' # (CHR ''s'' # pad2 s' @ CHR ''e'' # pad2 e')"
      using assms(4) Some s' ep e' by (simp add: number_suffix_def)
    from split_last [OF _ _ this] pad2_no
    have ab: "a = b" and "pad2 s @ CHR ''e'' # pad2 e = pad2 s' @ CHR ''e'' # pad2 e'" by auto
    from split_first [OF pad2_no(2) pad2_no(2) this(2)] have "s = s'" "e = e'" using pad2_inj by auto
    with ab Some s' ep e' show ?thesis by simp
  qed
qed


definition alien :: "string \<Rightarrow> intent" where
  "alien title = \<lparr>in_kind = ''movie'', in_title = title, in_tmdb = None, in_tvdb = None, in_imdb = None,
     in_year = None, in_season = None, in_episode = None, in_refs = []\<rparr>"


subsection \<open>Stored and decoded\<close>

lemma get_asdict:
  "get (asdict i) ''kind'' = JStr (in_kind i)" "get (asdict i) ''title'' = JStr (in_title i)"
  "get (asdict i) ''tmdb_id'' = jint (in_tmdb i)" "get (asdict i) ''tvdb_id'' = jint (in_tvdb i)"
  "get (asdict i) ''imdb_id'' = jstr (in_imdb i)" "get (asdict i) ''year'' = jint (in_year i)"
  "get (asdict i) ''season_number'' = jint (in_season i)"
  "get (asdict i) ''episode_number'' = jint (in_episode i)"
  "get (asdict i) ''refs'' = JObj (map (\<lambda>(k, v). (k, JStr v)) (in_refs i))"
  "get (asdict i) ''rating_key'' = JNull"
  by (simp_all add: get_def asdict_def)

lemma read_refs_map: "read_refs (map (\<lambda>(k, v). (k, JStr v)) rs) = Inr rs"
  by (induction rs) (auto simp: read_text_def)

text \<open>
  C21: a job's payload decodes to the intent it was queued for, every field and server id
  included; and a payload of the older shape, which carried the Plex id as \<open>rating_key\<close> and no
  refs, decodes to the same intent with that id as its one ref.
\<close>

theorem payload_roundtrip:
  "from_payload (asdict i) = Inr i \<and>
   (in_refs i = [] \<and> key \<noteq> [] \<longrightarrow>
    from_payload ((''rating_key'', JStr key) # butlast (asdict i)) = Inr (i\<lparr>in_refs := [(''plex'', key)]\<rparr>))"
proof (intro conjI impI)
  have refs: "refs_of (JObj (map (\<lambda>(k, v). (k, JStr v)) (in_refs i))) = Inr (in_refs i)"
    by (auto simp: refs_of_def read_refs_map)
  have fields: "filter (\<lambda>k. k \<noteq> ''rating_key'' \<and> k \<noteq> ''refs'') (map fst (asdict i)) = intent_fields"
    by (simp add: asdict_def intent_fields_def)
  have reads: "read_int (jint x) = Inr x" "read_str (jstr s) = Inr s" "read_text (JStr t) = Inr t" for x s t
    by (simp_all add: read_int_def read_str_def read_text_def jint_def jstr_def split: option.split)
  show "from_payload (asdict i) = Inr i"
    unfolding from_payload_def Let_def fields get_asdict refs
    by (simp add: with_legacy_def reads) (simp add: intent_fields_def)
  assume r: "in_refs i = [] \<and> key \<noteq> []"
  let ?p = "(''rating_key'', JStr key) # butlast (asdict i)"
  have get: "get ?p k = (if k = ''rating_key'' then JStr key else if k = ''refs'' then JNull else get (asdict i) k)" for k
    by (simp add: get_def asdict_def)
  have fields': "filter (\<lambda>k. k \<noteq> ''rating_key'' \<and> k \<noteq> ''refs'') (map fst ?p) = intent_fields"
    by (simp add: asdict_def intent_fields_def)
  show "from_payload ?p = Inr (i\<lparr>in_refs := [(''plex'', key)]\<rparr>)"
    unfolding from_payload_def Let_def fields' get using r
    by (simp add: get_asdict refs_of_def with_legacy_def reads) (simp add: intent_fields_def)
qed

theorem payload_roundtrip_witness:
  "from_payload ((''rating_key'', JStr ''77'') # butlast (asdict (alien ''Alien''))) =
     Inr ((alien ''Alien'')\<lparr>in_refs := [(''plex'', ''77'')]\<rparr>)"
  using payload_roundtrip [of "alien ''Alien''" "''77''"] by (simp add: alien_def)

subsection \<open>The handler\<close>

fun nul_free :: "json \<Rightarrow> bool" where
  "nul_free (JStr s) = list_all (\<lambda>c. code c \<noteq> 0) s"
| "nul_free (JObj kvs) = list_all (\<lambda>kv. list_all (\<lambda>c. code c \<noteq> 0) (fst kv) \<and> nul_free (snd kv)) kvs"
| "nul_free (JArr vs) = list_all nul_free vs"
| "nul_free v = True"

lemma dict_set_mem: "kv \<in> set (dict_set d x) \<Longrightarrow> kv \<in> set d \<or> kv = x"
  by (auto simp: dict_set_def split: if_splits)

lemma foldl_dict_set_mem: "kv \<in> set (foldl dict_set d xs) \<Longrightarrow> kv \<in> set d \<union> set xs"
proof (induction xs arbitrary: d)
  case Nil
  then show ?case by simp
next
  case (Cons x xs)
  from Cons.IH [of "dict_set d x"] Cons.prems dict_set_mem show ?case by fastforce
qed

lemma strip_nul_free: "list_all (\<lambda>c. code c \<noteq> 0) (strip_nul s)"
  by (simp add: strip_nul_def list_all_iff)

lemma without_nul_free: "nul_free (without_nul v)"
proof (induction v rule: without_nul.induct)
  case (2 kvs)
  have "list_all (\<lambda>c. code c \<noteq> 0) (fst kv) \<and> nul_free (snd kv)"
    if "kv \<in> set (foldl dict_set [] (map (\<lambda>kv. (strip_nul (fst kv), without_nul (snd kv))) kvs))" for kv
    using foldl_dict_set_mem [OF that] 2 strip_nul_free by auto
  then show ?case by (simp add: list_all_iff)
qed (simp_all add: strip_nul_def list_all_iff)

text \<open>The keys that are queued, pending.\<close>

definition queued_key :: "jobs_db \<Rightarrow> string \<Rightarrow> bool" where
  "queued_key db k \<longleftrightarrow> (\<exists>j \<in> set (db_rows db). live_key j = Some k \<and> job_state j = Pending)"

lemma queued_enqueue:
  assumes "wf_db db" and "enqueue now kd p (Some k) d db = (db', r)"
  shows "queued_key db' k" and "queued_key db k' \<Longrightarrow> queued_key db' k'"
proof -
  have "queued_key db' k \<and> (queued_key db k' \<longrightarrow> queued_key db' k')"
    using assms
  proof (cases rule: enqueue_cases)
    case (fresh j)
    then have "live_key j = Some k" "job_state j = Pending" by (simp_all add: live_key_def claimable_def new_job_def)
    with fresh(3) show ?thesis by (auto simp: queued_key_def)
  next
    case (wake j0 j)
    note c = conflicting_Some [OF wake(1)]
    have j: "live_key j = Some k" "job_state j = Pending" "job_id j = job_id j0"
      using c by (simp_all add: wake(3) live_key_Some, simp add: claimable_def)
    have "j \<in> set (db_rows db')"
      using c j(3) wake(4) by (auto simp: put_job_def set_update_where image_iff)
    moreover have "q \<in> set (db_rows db')" if "q \<in> set (db_rows db)" "job_state q = Pending" for q
    proof -
      have "job_id q \<noteq> job_id j0"
        using distinct_map_inj [of job_id "db_rows db" q j0] assms(1) c wake(2) that by (auto simp: wf_db_def)
      with that j(3) wake(4) show ?thesis by (auto simp: put_job_def set_update_where image_iff)
    qed
    ultimately show ?thesis using j by (auto simp: queued_key_def)
  next
    case (debounce j0)
    note c = conflicting_Some [OF debounce(1)]
    with debounce show ?thesis by (auto simp: queued_key_def)
  qed
  then show "queued_key db' k" "queued_key db k' \<Longrightarrow> queued_key db' k'" by simp_all
qed

lemma enqueue_intents_queued:
  assumes "wf_db db" and "enqueue_intents clock settle is (db, n) = (db', m)"
  shows "(\<forall>i \<in> set is. queued_key db' (intent_key i)) \<and> (\<forall>k. queued_key db k \<longrightarrow> queued_key db' k) \<and>
    n \<le> m \<and> m \<le> n + length is"
  using assms
proof (induction "is" arbitrary: clock db n)
  case Nil
  then show ?case by simp
next
  case (Cons i "is")
  obtain db1 r where e: "enqueue (clock 0) ''process_item'' (asdict i) (Some (intent_key i)) settle db = (db1, r)"
    by fastforce
  note q = queued_enqueue [OF Cons.prems(1) e]
  have "enqueue_intents (\<lambda>k. clock (Suc k)) settle is (db1, if r = None then n else Suc n) = (db', m)"
    using Cons.prems(2) e by simp
  from Cons.IH [OF enqueue_wf [OF Cons.prems(1) e] this] q show ?case by (auto split: if_splits)
qed

lemma ingest_outcome:
  assumes "\<And>p. model p \<Longrightarrow> \<exists>is. parser p = Inr is \<and> list_all wf_intent is" and "wf_db db"
    and "ingest clock settle source parser events model b (db, evs) = ((db', evs'), resp)"
  shows "\<exists>row. evs' = evs @ [row] \<and> ev_source row = source \<and> nul_free (ev_payload row) \<and>
    (resp = Http 400 (ev_outcome row) \<and> db' = db \<or>
     (\<exists>is q. resp = Accepted (length is) q \<and> q \<le> length is \<and> ev_outcome row = nat_digits (length is) @ '' intents'' \<and>
        list_all wf_intent is \<and> (is = [] \<longrightarrow> db' = db) \<and> (\<forall>i \<in> set is. queued_key db' (intent_key i))))"
proof (cases "\<exists>p t. loaded b = Inr (JObj p) \<and> get p ''eventType'' = JStr t")
  case False
  then show ?thesis using assms(3)
    by (auto simp: ingest_def Let_def raw_evidence_def without_nul_free simp del: without_nul.simps
        split: sum.splits json.splits)
next
  case True
  then obtain p t where p: "loaded b = Inr (JObj p)" "get p ''eventType'' = JStr t" by blast
  have zero: "nat_digits 0 = ''0''" by code_simp
  note run = assms(3) [unfolded ingest_def Let_def p sum.case json.case prod.case]
  consider (bad) "\<not> ArrEnvelope p" | (other) "ArrEnvelope p" "lower t \<notin> set events"
    | (refused) "ArrEnvelope p" "lower t \<in> set events" "\<not> model p"
    | (ok) "ArrEnvelope p" "lower t \<in> set events" "model p" by blast
  then show ?thesis
  proof cases
    case bad
    with run show ?thesis by (auto simp: without_nul_free simp del: without_nul.simps)
  next
    case other
    with run zero show ?thesis
      by (intro exI [of _ "\<lparr>ev_source = source, ev_type = Some t, ev_payload = without_nul (JObj p),
        ev_outcome = ''0 intents''\<rparr>"]) (auto simp: without_nul_free simp del: without_nul.simps
        intro!: exI [of _ "[]"])
  next
    case refused
    with run show ?thesis by (auto simp: without_nul_free simp del: without_nul.simps)
  next
    case ok
    then obtain "is" where "is": "parser p = Inr is" "list_all wf_intent is" using assms(1) by blast
    obtain db2 q where q: "enqueue_intents clock settle is (db, 0) = (db2, q)" by fastforce
    from run ok "is" q have res: "db' = db2" "resp = Accepted (length is) q"
      "evs' = evs @ [\<lparr>ev_source = source, ev_type = Some t, ev_payload = without_nul (JObj p),
        ev_outcome = nat_digits (length is) @ '' intents''\<rparr>]"
      by auto
    have "is = [] \<longrightarrow> db2 = db" using q by auto
    with enqueue_intents_queued [OF assms(2) q] "is"(2) show ?thesis
      unfolding res by (auto simp: without_nul_free simp del: without_nul.simps)
  qed
qed



end
