(* ===== verification/Items.thy ===== *)
theory Items
  imports Text
begin

text \<open>
  The items and the ids they have on each server: the tables \<open>media_items\<close> and
  \<open>media_item_server_refs\<close> (\<open>db/models.py\<close>), the server-neutral key of an item
  (\<open>servers/identity.py\<close>), the upsert that is the only writer of both tables
  (\<open>render/pipeline.py\<close>), and the lookups of \<open>db/refs.py\<close>. \<open>root_folder\<close> and \<open>file_path\<close> of a
  row are written by the upsert only and read by nothing here but the key.
\<close>

subsection \<open>Tables\<close>

record media_item =
  mi_id :: nat
  mi_identity :: string
  mi_library :: string
  mi_kind :: string
  mi_parent :: "nat option"
  mi_tmdb :: "int option"
  mi_tvdb :: "int option"
  mi_imdb :: "string option"
  mi_title :: string
  mi_year :: "int option"
  mi_season :: "int option"
  mi_episode :: "int option"
  mi_root :: "string option"
  mi_file :: "string option"
  mi_logo_key :: "string option"
  mi_facts_at :: "instant option"
  mi_credits_at :: "instant option"
  mi_updated :: instant

record server_ref =
  ref_id :: nat
  ref_item :: nat
  ref_server :: string
  ref_native :: string
  ref_library :: string
  ref_updated :: instant

record items_db =
  it_rows :: "media_item list"
  it_next :: nat
  sr_rows :: "server_ref list"
  sr_next :: nat

text \<open>What a server resolved an intent to (\<open>servers/base.py ResolvedItem\<close>), as far as it is stored.\<close>

record resolved_item =
  rs_server :: string
  rs_native :: string
  rs_library :: string
  rs_kind :: string
  rs_title :: string
  rs_year :: "int option"
  rs_season :: "int option"
  rs_episode :: "int option"
  rs_root :: string
  rs_file :: "string option"
  rs_tmdb :: "int option"
  rs_tvdb :: "int option"
  rs_imdb :: "string option"
  rs_parent_tmdb :: "int option"
  rs_parent_tvdb :: "int option"
  rs_parent_imdb :: "string option"

subsection \<open>The key of an item\<close>

definition FILE_BEARING :: "string list" where
  "FILE_BEARING = [''movie'']"

text \<open>\<open>posixpath.basename\<close>.\<close>

definition basename :: "string \<Rightarrow> string" where
  "basename p = last (split_on CHR ''/'' p)"

definition forward_slashes :: "string \<Rightarrow> string" where
  "forward_slashes p = map (\<lambda>c. if code c = 92 then CHR ''/'' else c) p"

definition coords_of :: "string \<Rightarrow> int option \<Rightarrow> int option \<Rightarrow> string" where
  "coords_of kind season episode =
     (case season of None \<Rightarrow> []
      | Some s \<Rightarrow> if kind \<in> {''season'', ''episode''}
          then ''s'' @ int_digits s @ (case episode of None \<Rightarrow> []
             | Some e \<Rightarrow> if kind = ''episode'' then ''e'' @ int_digits e else [])
          else [])"

definition file_of :: "string \<Rightarrow> string option \<Rightarrow> string" where
  "file_of kind file_path = (case file_path of None \<Rightarrow> []
     | Some p \<Rightarrow> if kind \<in> set FILE_BEARING \<and> p \<noteq> [] then basename (forward_slashes p) else [])"

text \<open>The first provider whose id is neither \<open>None\<close> nor the empty string.\<close>

definition provider_of :: "int option \<Rightarrow> int option \<Rightarrow> string option \<Rightarrow> (string \<times> string) option" where
  "provider_of tmdb tvdb imdb = (case tmdb of Some i \<Rightarrow> Some (''tmdb'', int_digits i)
     | None \<Rightarrow> (case tvdb of Some i \<Rightarrow> Some (''tvdb'', int_digits i)
     | None \<Rightarrow> (case imdb of Some s \<Rightarrow> if s = [] then None else Some (''imdb'', s) | None \<Rightarrow> None)))"

definition five_fields :: "string \<Rightarrow> string \<Rightarrow> string \<Rightarrow> string \<Rightarrow> string \<Rightarrow> string" where
  "five_fields kind ns value coords file = kind @ '':'' @ ns @ '':'' @ value @ '':'' @ coords @ '':'' @ file"

definition path_field :: "string \<Rightarrow> string \<Rightarrow> string option \<Rightarrow> string" where
  "path_field kind file root_folder =
     (let root = (case root_folder of None \<Rightarrow> [] | Some r \<Rightarrow> r)
      in if kind \<in> set FILE_BEARING
         then (if file = [] then [] else if root \<noteq> [] then root @ ''/'' @ file else file)
         else root)"

definition identity_key ::
  "string \<Rightarrow> int option \<Rightarrow> int option \<Rightarrow> string option \<Rightarrow> int option \<Rightarrow> int option \<Rightarrow> string option \<Rightarrow>
   string option \<Rightarrow> string option \<Rightarrow> string + string" where
  "identity_key kind tmdb tvdb imdb season episode file_path root_folder legacy =
     (let coords = coords_of kind season episode; file = file_of kind file_path
      in (case provider_of tmdb tvdb imdb of
        Some (ns, value) \<Rightarrow> Inr (five_fields kind ns value coords file)
      | None \<Rightarrow>
        (let pfile = path_field kind file root_folder in
         if pfile \<noteq> [] then Inr (five_fields kind ''path'' [] coords pfile)
         else (case legacy of
             Some l \<Rightarrow> if l \<noteq> [] then Inr (kind @ '':legacy:plex:'' @ l)
               else Inl (kind @ '': no provider id, no file path and no legacy key -- nothing to key on'')
           | None \<Rightarrow> Inl (kind @ '': no provider id, no file path and no legacy key -- nothing to key on'')))))"

definition identity_key_for :: "resolved_item \<Rightarrow> string + string" where
  "identity_key_for it = identity_key (rs_kind it) (rs_tmdb it) (rs_tvdb it) (rs_imdb it) (rs_season it)
     (rs_episode it) (rs_file it) (Some (rs_root it)) None"

definition truthy_int :: "int option \<Rightarrow> bool" where
  "truthy_int v \<longleftrightarrow> v \<noteq> None \<and> v \<noteq> Some 0"

definition truthy_text :: "string option \<Rightarrow> bool" where
  "truthy_text v \<longleftrightarrow> v \<noteq> None \<and> v \<noteq> Some []"

definition parent_identity_key_for :: "resolved_item \<Rightarrow> string + string option" where
  "parent_identity_key_for it =
     (if rs_kind it \<notin> {''season'', ''episode''} then Inr None
      else if \<not> (truthy_int (rs_parent_tmdb it) \<or> truthy_int (rs_parent_tvdb it) \<or>
                truthy_text (rs_parent_imdb it) \<or> rs_root it \<noteq> []) then Inr None
      else map_sum id Some
       (if rs_kind it = ''episode''
        then identity_key ''season'' (rs_parent_tmdb it) (rs_parent_tvdb it) (rs_parent_imdb it)
               (rs_season it) None None (Some (rs_root it)) None
        else identity_key ''show'' (rs_parent_tmdb it) (rs_parent_tvdb it) (rs_parent_imdb it)
               None None None (Some (rs_root it)) None))"

subsection \<open>Lookups\<close>

text \<open>The row with the highest id wins, here and in the lookups by item.\<close>

definition native_id_of :: "server_ref list \<Rightarrow> string \<Rightarrow> nat \<Rightarrow> string option" where
  "native_id_of rs server item = map_option ref_native (first_by (\<lambda>r. - int (ref_id r))
     (filter (\<lambda>r. ref_item r = item \<and> ref_server r = server) rs))"

definition newest_first :: "server_ref list \<Rightarrow> server_ref list" where
  "newest_first rs = sort_key (\<lambda>r. - int (ref_id r)) rs"

text \<open>\<open>dict.setdefault\<close>.\<close>

fun set_defaults :: "('k \<times> 'v) list \<Rightarrow> ('k \<times> 'v) list \<Rightarrow> ('k \<times> 'v) list" where
  "set_defaults d [] = d"
| "set_defaults d ((k, v) # kvs) = set_defaults (if k \<in> fst ` set d then d else d @ [(k, v)]) kvs"

definition refs_for :: "server_ref list \<Rightarrow> nat \<Rightarrow> (string \<times> string) list" where
  "refs_for rs item = set_defaults [] (map (\<lambda>r. (ref_server r, ref_native r))
     (newest_first (filter (\<lambda>r. ref_item r = item) rs)))"

definition item_id_for :: "server_ref list \<Rightarrow> string \<Rightarrow> string \<Rightarrow> nat option" where
  "item_id_for rs server native =
     map_option ref_item (List.find (\<lambda>r. ref_server r = server \<and> ref_native r = native) rs)"

definition item_with_key :: "media_item list \<Rightarrow> string \<Rightarrow> media_item option" where
  "item_with_key rows key = List.find (\<lambda>m. mi_identity m = key) rows"

definition item_by_id :: "media_item list \<Rightarrow> nat \<Rightarrow> media_item option" where
  "item_by_id rows i = List.find (\<lambda>m. mi_id m = i) rows"

text \<open>\<open>native_id_by_external_ids\<close>: the id of the one item these ids name, if it is one.\<close>

definition external_match :: "string \<Rightarrow> int option \<Rightarrow> int option \<Rightarrow> int option \<Rightarrow> int option \<Rightarrow> media_item \<Rightarrow> bool" where
  "external_match kind tmdb tvdb season episode m \<longleftrightarrow> mi_kind m = kind \<and>
     (truthy_int tmdb \<and> mi_tmdb m = tmdb \<or> truthy_int tvdb \<and> mi_tvdb m = tvdb) \<and>
     mi_season m = season \<and> mi_episode m = episode"

definition native_id_by_external_ids ::
  "items_db \<Rightarrow> string \<Rightarrow> string \<Rightarrow> int option \<Rightarrow> int option \<Rightarrow> int option \<Rightarrow> int option \<Rightarrow> string option" where
  "native_id_by_external_ids db server kind tmdb tvdb season episode =
     (if \<not> truthy_int tmdb \<and> \<not> truthy_int tvdb then None
      else
        let found = filter (\<lambda>r. ref_server r = server \<and>
              (case item_by_id (it_rows db) (ref_item r) of None \<Rightarrow> False
               | Some m \<Rightarrow> external_match kind tmdb tvdb season episode m)) (newest_first (sr_rows db))
        in (case set_defaults [] (map (\<lambda>r. (ref_item r, ref_native r)) found) of
              [(item, native)] \<Rightarrow> Some native | _ \<Rightarrow> None))"

subsection \<open>The upsert\<close>

text \<open>
  \<open>upsert_server_ref\<close>: \<open>INSERT .. ON CONFLICT (server, native_id)\<close>, then the item's other ids
  on that server go.
\<close>

definition point_ref :: "instant \<Rightarrow> nat \<Rightarrow> resolved_item \<Rightarrow> items_db \<Rightarrow> items_db" where
  "point_ref now item it db =
     (let hit = (\<lambda>r. ref_server r = rs_server it \<and> ref_native r = rs_native it) in
      db\<lparr>sr_next := Suc (sr_next db),
         sr_rows := (if \<exists>r \<in> set (sr_rows db). hit r
           then update_where hit (\<lambda>r. r\<lparr>ref_item := item, ref_library := rs_library it, ref_updated := now\<rparr>) (sr_rows db)
           else sr_rows db @ [\<lparr>ref_id = sr_next db, ref_item = item, ref_server = rs_server it,
             ref_native = rs_native it, ref_library = rs_library it, ref_updated = now\<rparr>])\<rparr>)"

definition upsert_server_ref :: "instant \<Rightarrow> nat \<Rightarrow> resolved_item \<Rightarrow> items_db \<Rightarrow> items_db" where
  "upsert_server_ref now item it db =
     (let db' = point_ref now item it db in
      db'\<lparr>sr_rows := filter (\<lambda>r. \<not> (ref_item r = item \<and> ref_server r = rs_server it \<and> ref_native r \<noteq> rs_native it))
        (sr_rows db')\<rparr>)"

text \<open>\<open>_is_file_replacement\<close>.\<close>

definition is_file_replacement :: "string \<Rightarrow> string \<Rightarrow> bool" where
  "is_file_replacement existing key =
     (let a = split_max CHR '':'' 4 existing; b = split_max CHR '':'' 4 key
      in length a = 5 \<and> length b = 5 \<and> take 4 a = take 4 b \<and> a ! 4 \<noteq> b ! 4)"

definition rekey_in_place :: "instant \<Rightarrow> resolved_item \<Rightarrow> string \<Rightarrow> items_db \<Rightarrow> items_db" where
  "rekey_in_place now it key db =
     (case item_id_for (sr_rows db) (rs_server it) (rs_native it) of
        None \<Rightarrow> db
      | Some existing_id \<Rightarrow>
        (case item_by_id (it_rows db) existing_id of
           None \<Rightarrow> db
         | Some m \<Rightarrow>
           if mi_identity m = key then db
           else if \<not> (rs_server it = ''plex'' \<and> mi_identity m = rs_kind it @ '':legacy:plex:'' @ rs_native it \<or>
                      is_file_replacement (mi_identity m) key) then db
           else if item_with_key (it_rows db) key \<noteq> None then db
           else db\<lparr>it_rows := update_where (\<lambda>r. mi_id r = existing_id)
                  (\<lambda>r. r\<lparr>mi_identity := key, mi_updated := now\<rparr>) (it_rows db)\<rparr>))"

text \<open>The columns an upsert writes in both of its arms, and the \<open>ON CONFLICT\<close> arm.\<close>

definition fresh_item :: "nat \<Rightarrow> instant \<Rightarrow> string \<Rightarrow> nat option \<Rightarrow> resolved_item \<Rightarrow> media_item" where
  "fresh_item i now key parent it = \<lparr>mi_id = i, mi_identity = key, mi_library = rs_library it,
     mi_kind = rs_kind it, mi_parent = parent, mi_tmdb = rs_tmdb it, mi_tvdb = rs_tvdb it,
     mi_imdb = rs_imdb it, mi_title = rs_title it, mi_year = rs_year it, mi_season = rs_season it,
     mi_episode = rs_episode it, mi_root = Some (rs_root it), mi_file = rs_file it,
     mi_logo_key = None, mi_facts_at = None, mi_credits_at = None, mi_updated = now\<rparr>"

definition refresh_item :: "instant \<Rightarrow> nat option \<Rightarrow> resolved_item \<Rightarrow> media_item \<Rightarrow> media_item" where
  "refresh_item now parent it m = m\<lparr>mi_library := rs_library it, mi_kind := rs_kind it,
     mi_title := rs_title it, mi_year := rs_year it, mi_season := rs_season it, mi_episode := rs_episode it,
     mi_root := Some (rs_root it), mi_file := rs_file it, mi_tmdb := rs_tmdb it, mi_tvdb := rs_tvdb it,
     mi_imdb := rs_imdb it, mi_updated := now,
     mi_parent := (if parent = None then mi_parent m else parent)\<rparr>"

definition write_item :: "instant \<Rightarrow> string \<Rightarrow> nat option \<Rightarrow> resolved_item \<Rightarrow> items_db \<Rightarrow> items_db \<times> nat" where
  "write_item now key parent it db = (case item_with_key (it_rows db) key of
     Some m \<Rightarrow> (db\<lparr>it_next := Suc (it_next db),
       it_rows := update_where (\<lambda>r. mi_identity r = key) (refresh_item now parent it) (it_rows db)\<rparr>, mi_id m)
   | None \<Rightarrow> (db\<lparr>it_next := Suc (it_next db),
       it_rows := it_rows db @ [fresh_item (it_next db) now key parent it]\<rparr>, it_next db))"

text \<open>\<open>_upsert_media_item\<close>: the database, and the id of the row.\<close>

definition upsert_media_item :: "instant \<Rightarrow> resolved_item \<Rightarrow> items_db \<Rightarrow> string + (items_db \<times> nat)" where
  "upsert_media_item now it db =
     bind_sum (identity_key_for it) (\<lambda>key.
       let db1 = rekey_in_place now it key db in
       bind_sum (parent_identity_key_for it) (\<lambda>pk.
         let parent = (case pk of None \<Rightarrow> None | Some k \<Rightarrow> map_option mi_id (item_with_key (it_rows db1) k));
             (db2, i) = write_item now key parent it db1
         in Inr (upsert_server_ref now i it db2, i)))"

text \<open>\<open>_persist_identity\<close>: the item's row and the ids of every server that resolved it.\<close>

definition persist_identity ::
  "instant \<Rightarrow> resolved_item \<Rightarrow> resolved_item list \<Rightarrow> items_db \<Rightarrow> string + (items_db \<times> nat)" where
  "persist_identity now it resolved_on db =
     bind_sum (upsert_media_item now it db) (\<lambda>(db1, i).
       Inr (foldl (\<lambda>d other. if other = it then d else upsert_server_ref now i other d) db1 resolved_on, i))"

end
