(* ===== verification/Full_Pass.thy ===== *)
theory Full_Pass
  imports Presence Run_Props Intake_Props Items
begin

text \<open>
  The full pass (\<open>api/routes.py run_full_pass\<close>, the stored ids of \<open>db/refs.py\<close>): presence of
  every server that answered, a run, and a job for every known item, in one transaction at one
  database instant. The components it composes are those of the queue, the presence stamps,
  the run history and the intents.
\<close>

subsection \<open>run\_full\_pass\<close>

record pass_state =
  p_outs :: outcomes
  p_runs :: run_tab
  p_jobs :: jobs_db

record pass_reply =
  total_items :: nat
  queued_items :: nat
  skipped_items :: nat
  presence_reply :: "(string \<times> presence_counts) list"

definition FULL_PASS_NAME :: string where
  "FULL_PASS_NAME = ''full_pass''"

text \<open>An item's row as an intent, with its Plex id where one is stored.\<close>

definition item_intent :: "server_ref list \<Rightarrow> nat \<times> intent \<Rightarrow> intent" where
  "item_intent refs_tab row = (snd row)\<lparr>in_refs := (case native_id_of refs_tab ''plex'' (fst row) of
     None \<Rightarrow> [] | Some v \<Rightarrow> [(''plex'', v)])\<rparr>"

definition pass_entries :: "server_ref list \<Rightarrow> (nat \<times> intent) list \<Rightarrow> (payload \<times> string) list" where
  "pass_entries refs_tab items = map (\<lambda>row. (asdict (item_intent refs_tab row), intent_key (item_intent refs_tab row))) items"

definition run_full_pass ::
  "instant \<Rightarrow> instant \<Rightarrow> (string \<times> string list option) list \<Rightarrow> catalog \<Rightarrow> server_ref list \<Rightarrow>
   (nat \<times> intent) list \<Rightarrow> pass_state \<Rightarrow> pass_state \<times> pass_reply" where
  "run_full_pass clock now answers cat refs_tab items st =
     (let present = read_presence answers;
          (o1, stamps) = refresh_presence now cat present (p_outs st);
          entries = pass_entries refs_tab items;
          (rt, _) = open_run clock ''full_pass'' FULL_PASS_NAME (p_runs st);
          (jdb, queued) = enqueue_batch clock ''process_item'' entries (p_jobs st);
          total = length entries
      in (\<lparr>p_outs = o1, p_runs = rt, p_jobs = jdb\<rparr>,
          \<lparr>total_items = total, queued_items = queued, skipped_items = total - queued,
           presence_reply = stamps\<rparr>))"

subsection \<open>What a pass leaves\<close>

lemma intent_key_refs [simp]: "intent_key (i\<lparr>in_refs := r\<rparr>) = intent_key i"
proof -
  have "ident (i\<lparr>in_refs := r\<rparr>) = ident i" by (simp add: ident_def)
  moreover have "number_suffix (i\<lparr>in_refs := r\<rparr>) = number_suffix i"
    by (simp add: number_suffix_def split: option.split)
  ultimately show ?thesis by (simp add: intent_key_def)
qed

lemma item_key [simp]: "intent_key (item_intent refs_tab row) = intent_key (snd row)"
  by (simp add: item_intent_def)

lemma entry_keys: "snd ` set (pass_entries refs_tab items) = intent_key ` snd ` set items"
  by (simp add: pass_entries_def image_image)

lemma new_pass_run:
  "fresh_run (run_next t) clock ''full_pass'' name \<in> set (runs (fst (open_run clock ''full_pass'' name t)))"
  by (simp add: open_run_def Let_def)

text \<open>
  C23: a full pass queues everything once and holds its own run open. After it every item has a
  live job under its own key; queued and skipped add up to the items; a job it queued is
  pending, created at the instant its run started; and as long as one of the jobs queued is
  left pending within a day, the drain-watcher does not close that run. Asking again queues
  nothing more.
\<close>

theorem full_pass_queues_all:
  assumes "run_full_pass clock now answers cat refs_tab items st = (st', reply)"
  shows "(\<forall>row \<in> set items. \<exists>j \<in> set (db_rows (p_jobs st')). live_key j = Some (intent_key (snd row))) \<and>
    total_items reply = length items \<and> queued_items reply + skipped_items reply = length items \<and>
    (\<exists>new. db_rows (p_jobs st') = db_rows (p_jobs st) @ new \<and> length new = queued_items reply \<and>
       (\<forall>j \<in> set new. job_kind j = ''process_item'' \<and> job_state j = Pending \<and> created_at j = clock)) \<and>
    (\<exists>q \<in> set (runs (p_runs st')). r_id q = run_next (p_runs st) \<and> is_open q \<and> r_started q = clock \<and>
       (\<forall>later js. later < clock + secs FULL_PASS_CEILING_SECONDS \<and>
          (\<exists>j \<in> set js. job_kind j = ''process_item'' \<and> job_state j = Pending \<and> created_at j = clock) \<longrightarrow>
          holds_open later js q)) \<and>
    queued_items (snd (run_full_pass clock2 now2 answers2 cat refs_tab items st')) = 0"
proof -
  let ?es = "pass_entries refs_tab items"
  let ?b = "enqueue_batch clock ''process_item'' ?es (p_jobs st)"
  obtain new ks where new: "db_rows (fst ?b) = db_rows (p_jobs st) @ new" "snd ?b = length new"
    "map dedupe_key new = map Some ks" "distinct ks"
    "set ks = {k \<in> snd ` set ?es. \<forall>j \<in> set (db_rows (p_jobs st)). live_key j \<noteq> Some k}"
    "\<forall>j \<in> set new. job_state j = Pending \<and> run_after j = clock \<and> attempts j = 0 \<and>
       created_at j = clock \<and> job_kind j = ''process_item''"
    using enqueue_batch_spec [of clock "''process_item''" ?es "p_jobs st"] by (elim exE conjE) (rule that)
  obtain o1 stamps where pr: "refresh_presence now cat (read_presence answers) (p_outs st) = (o1, stamps)" by fastforce
  have st': "p_jobs st' = fst ?b" "p_runs st' = fst (open_run clock ''full_pass'' FULL_PASS_NAME (p_runs st))"
    and reply: "total_items reply = length ?es" "queued_items reply = snd ?b" "skipped_items reply = length ?es - snd ?b"
    using assms by (auto simp: run_full_pass_def Let_def pr split: prod.splits)
  have live: "\<exists>j \<in> set (db_rows (fst ?b)). live_key j = Some k" if "k \<in> snd ` set ?es" for k
  proof (cases "k \<in> set ks")
    case True
    then have "Some k \<in> dedupe_key ` set new" using new(3) by (metis image_eqI list.set_map)
    then obtain j where "j \<in> set new" "dedupe_key j = Some k" by force
    with new(1,6) show ?thesis by (intro bexI [of _ j]) (auto simp: live_key_def claimable_def)
  next
    case False
    with that new(1,5) show ?thesis by auto
  qed
  have "length new = length ks" using new(3) by (metis length_map)
  also have "\<dots> = card (set ks)" using new(4) by (simp add: distinct_card)
  also have "\<dots> \<le> card (snd ` set ?es)" by (rule card_mono) (use new(5) in auto)
  also have "\<dots> \<le> length ?es"
    by (metis card_image_le card_length finite_set le_trans)
  finally have fewer: "length new \<le> length ?es" .
  have again: "snd (enqueue_batch clock2 ''process_item'' ?es (fst ?b)) = 0"
  proof -
    obtain new2 :: "job list" and ks2 where n2: "snd (enqueue_batch clock2 ''process_item'' ?es (fst ?b)) = length new2"
      "map dedupe_key new2 = map Some ks2"
      "set ks2 = {k \<in> snd ` set ?es. \<forall>j \<in> set (db_rows (fst ?b)). live_key j \<noteq> Some k}"
      using enqueue_batch_spec [of clock2 "''process_item''" ?es "fst ?b"] by (elim exE conjE) (rule that)
    have "k \<notin> set ks2" for k
    proof
      assume "k \<in> set ks2"
      then have "k \<in> snd ` set ?es" and none: "\<forall>j \<in> set (db_rows (fst ?b)). live_key j \<noteq> Some k"
        unfolding n2(3) by simp_all
      from live [OF this(1)] none show False by blast
    qed
    then have "ks2 = []" by (cases ks2) auto
    then have "new2 = []" using n2(2) by simp
    then show ?thesis using n2(1) by simp
  qed
  have run: "\<exists>q \<in> set (runs (p_runs st')). r_id q = run_next (p_runs st) \<and> is_open q \<and> r_started q = clock \<and>
       (\<forall>later js. later < clock + secs FULL_PASS_CEILING_SECONDS \<and>
          (\<exists>j \<in> set js. job_kind j = ''process_item'' \<and> job_state j = Pending \<and> created_at j = clock) \<longrightarrow>
          holds_open later js q)"
  proof (rule bexI)
    show "fresh_run (run_next (p_runs st)) clock ''full_pass'' FULL_PASS_NAME \<in> set (runs (p_runs st'))"
      unfolding st' by (rule new_pass_run)
  qed (auto simp: fresh_run_def is_open_def holds_open_def outstanding_def expired_def filter_empty_conv)
  show ?thesis
  proof (intro conjI)
    show "\<forall>row \<in> set items. \<exists>j \<in> set (db_rows (p_jobs st')). live_key j = Some (intent_key (snd row))"
      using live unfolding st' entry_keys by blast
    show "total_items reply = length items" by (simp add: reply pass_entries_def)
    show "queued_items reply + skipped_items reply = length items"
      using fewer by (simp add: reply new(2)) (simp add: pass_entries_def)
    show "\<exists>new. db_rows (p_jobs st') = db_rows (p_jobs st) @ new \<and> length new = queued_items reply \<and>
       (\<forall>j \<in> set new. job_kind j = ''process_item'' \<and> job_state j = Pending \<and> created_at j = clock)"
      using new(1,2,6) by (intro exI [of _ new]) (simp add: st' reply)
    show "queued_items (snd (run_full_pass clock2 now2 answers2 cat refs_tab items st')) = 0"
      using again by (auto simp: run_full_pass_def Let_def st' split: prod.split)
  qed (rule run)
qed

theorem full_pass_queues_all_witness:
  "\<exists>st' reply. run_full_pass 100 101 [] \<lparr>cat_items = [], cat_renders = [], cat_facts = [], cat_overrides = []\<rparr> []
     [(1, alien ''Alien''), (2, alien ''Aliens'')]
     \<lparr>p_outs = \<lparr>arts = \<lparr>o_rows = [], o_next = 1\<rparr>, metas = \<lparr>o_rows = [], o_next = 1\<rparr>,
        ups = (\<lambda>_. \<lparr>upload_status = S_skipped, uploaded_at = None\<rparr>)\<rparr>,
      p_runs = \<lparr>runs = [], run_next = 1\<rparr>, p_jobs = empty_db\<rparr> = (st', reply) \<and>
     queued_items reply + skipped_items reply = 2 \<and> length (runs (p_runs st')) = 1"
proof -
  let ?st = "\<lparr>p_outs = \<lparr>arts = \<lparr>o_rows = [], o_next = 1\<rparr>, metas = \<lparr>o_rows = [], o_next = 1\<rparr>,
        ups = (\<lambda>_. \<lparr>upload_status = S_skipped, uploaded_at = None\<rparr>)\<rparr>,
      p_runs = \<lparr>runs = [], run_next = 1\<rparr>, p_jobs = empty_db\<rparr> :: pass_state"
  let ?cat = "\<lparr>cat_items = [], cat_renders = [], cat_facts = [], cat_overrides = []\<rparr> :: catalog"
  obtain st' reply where r: "run_full_pass 100 101 [] ?cat [] [(1, alien ''Alien''), (2, alien ''Aliens'')] ?st =
      (st', reply)" by fastforce
  from full_pass_queues_all [OF r] have "queued_items reply + skipped_items reply = 2" by auto
  moreover have "length (runs (p_runs st')) = 1"
    using r by (auto simp: run_full_pass_def open_run_def Let_def split: prod.splits)
  ultimately show ?thesis using r by blast
qed

end
