(* ===== verification/Scheduler.thy ===== *)
theory Scheduler
  imports Runs Worker Text
begin

text \<open>
  The scheduler (\<open>scheduler/core.py\<close>, the table \<open>ScheduledRun\<close> of \<open>db/models.py\<close>, the hand
  trigger of \<open>api/routes.py\<close> and the derived status of \<open>api/snapshots.py\<close>): the atomic claim,
  what one claimed run records and announces, and the lanes the jobs run in as a step
  relation.
\<close>

subsection \<open>The table and the claim\<close>

record sched_row =
  s_name :: string
  s_started :: "instant option"
  s_finished :: "instant option"
  s_status :: "string option"
  s_detail :: "string option"

type_synonym sched_tab = "sched_row list"

definition LIGHT_JOBS :: "string list" where
  "LIGHT_JOBS = [''stale_job_reclaim'', ''pending_deliveries'', ''catch_up_drain'']"

definition blank_sched :: "string \<Rightarrow> sched_row" where
  "blank_sched name = \<lparr>s_name = name, s_started = None, s_finished = None, s_status = None, s_detail = None\<rparr>"

definition sched_at :: "string \<Rightarrow> sched_tab \<Rightarrow> sched_row option" where
  "sched_at name t = List.find (\<lambda>r. s_name r = name) t"

text \<open>\<open>INSERT ... ON CONFLICT (name) DO NOTHING\<close>.\<close>

definition ensure_row :: "string \<Rightarrow> sched_tab \<Rightarrow> sched_tab" where
  "ensure_row name t = (if sched_at name t = None then t @ [blank_sched name] else t)"

text \<open>
  Due on the database clock, at the interval as it is configured at this poll; a row another
  replica holds is skipped.
\<close>

definition sched_due :: "instant \<Rightarrow> instant \<Rightarrow> (string \<Rightarrow> bool) \<Rightarrow> sched_row \<Rightarrow> bool" where
  "sched_due now interval locked r \<longleftrightarrow> \<not> locked (s_name r) \<and>
     (case s_started r of None \<Rightarrow> True | Some t \<Rightarrow> t < now - interval)"

definition claim_due ::
  "instant \<Rightarrow> instant \<Rightarrow> (string \<Rightarrow> bool) \<Rightarrow> string \<Rightarrow> sched_tab \<Rightarrow> sched_tab \<times> bool" where
  "claim_due now interval locked name t0 =
     (let t = ensure_row name t0;
          hit = (\<lambda>r. s_name r = name \<and> sched_due now interval locked r)
      in (update_where hit (\<lambda>r. r\<lparr>s_started := Some now\<rparr>) t, \<exists>r \<in> set t. hit r))"

text \<open>\<open>run_scheduled_job_now\<close>: the row is made due; a name outside the allowlist is a 404.\<close>

definition SCHEDULED_JOB_NAMES :: "string list" where
  "SCHEDULED_JOB_NAMES = [''asset_stats'', ''collections_reconcile'', ''ratings_drift_sweep'',
     ''credits_scan'', ''plex_maintenance'', ''arr_sync'', ''asset_cleanup'', ''plex_prune'',
     ''plex_merge'', ''stale_job_reclaim'', ''pending_deliveries'', ''catch_up_drain'']"

definition run_scheduled_job_now :: "string \<Rightarrow> sched_tab \<Rightarrow> int + sched_tab" where
  "run_scheduled_job_now name t =
     (if name \<notin> set SCHEDULED_JOB_NAMES then Inl 404
      else Inr (update_where (\<lambda>r. s_name r = name) (\<lambda>r. r\<lparr>s_started := None\<rparr>) (ensure_row name t)))"

text \<open>\<open>_run_status\<close>: \<open>boot\<close> is the instant this process started at.\<close>

definition run_status :: "instant \<Rightarrow> sched_row \<Rightarrow> string option" where
  "run_status boot r = (case s_started r of
       None \<Rightarrow> s_status r
     | Some st \<Rightarrow>
         if (case s_finished r of None \<Rightarrow> True | Some f \<Rightarrow> f < st)
         then Some (if boot \<le> st then ''running'' else ''interrupted'')
         else s_status r)"

subsection \<open>One claimed run\<close>

record notice =
  n_event :: string
  n_summary :: string
  n_fields :: "(string \<times> string) list"

record sched_db =
  scheds :: sched_tab
  history :: run_tab

text \<open>
  What a run meets: whether its history row can be opened, what the body returns or raises, what
  the body and everything else commit meanwhile, and whether the result can be recorded.
\<close>

record run_env =
  can_open :: bool
  body_result :: "exn + string option"
  body_commits :: "sched_db \<Rightarrow> sched_db"
  can_record :: bool

definition served :: "exn \<Rightarrow> string" where
  "served e = (if served_detail e then exn_message e else exn_name e)"

definition verdict :: "exn + string option \<Rightarrow> string \<times> string" where
  "verdict res = (case res of
       Inr None \<Rightarrow> (''ok'', '''') | Inr (Some d) \<Rightarrow> (''ok'', d) | Inl e \<Rightarrow> (''failed'', served e))"

definition started_note :: "string \<Rightarrow> notice" where
  "started_note name = \<lparr>n_event = ''scheduled_run_started'',
     n_summary = ''scheduled run '' @ name @ '' started'', n_fields = [(''job'', name)]\<rparr>"

definition finished_notes :: "string \<Rightarrow> string \<Rightarrow> string \<Rightarrow> notice list" where
  "finished_notes name st recorded =
     (let fields = [(''job'', name), (''status'', st), (''detail'', recorded)]
      in \<lparr>n_event = ''scheduled_run_completed'',
           n_summary = ''scheduled run '' @ name @ '' finished: '' @ st, n_fields = fields\<rparr> #
         (if st = ''failed''
          then [\<lparr>n_event = ''scheduled_run_failed'',
             n_summary = ''scheduled run '' @ name @ '' failed: '' @ recorded, n_fields = fields\<rparr>]
          else []))"

definition record_result ::
  "instant \<Rightarrow> string \<Rightarrow> nat option \<Rightarrow> string \<Rightarrow> string \<Rightarrow> sched_db \<Rightarrow> sched_db" where
  "record_result now name run_id st detail d =
     d\<lparr>scheds := update_where (\<lambda>r. s_name r = name)
          (\<lambda>r. r\<lparr>s_finished := Some now, s_status := Some st, s_detail := Some (take 2000 detail)\<rparr>) (scheds d),
       history := (case run_id of None \<Rightarrow> history d | Some i \<Rightarrow> close_run now i st detail (history d))\<rparr>"

text \<open>\<open>scalar_one\<close> raises where the row is gone; the handler then records and announces nothing.\<close>

definition run_claimed ::
  "instant \<Rightarrow> instant \<Rightarrow> string \<Rightarrow> run_env \<Rightarrow> sched_db \<Rightarrow> sched_db \<times> notice list \<times> nat option" where
  "run_claimed clock1 clock2 name env d =
     (let (d1, run_id) =
            (if name \<in> set UNRECORDED \<or> \<not> can_open env then (d, None)
             else let (h, i) = open_run clock1 ''scheduled'' name (history d) in (d\<lparr>history := h\<rparr>, Some i));
          (st, detail) = verdict (body_result env);
          d2 = body_commits env d1
      in if \<not> can_record env \<or> sched_at name (scheds d2) = None then (d2, [started_note name], run_id)
         else (record_result clock2 name run_id st detail d2,
               started_note name # finished_notes name st (take 2000 detail), run_id))"

text \<open>\<open>_maybe_run\<close>, where the claim itself may fail: \<open>None\<close> for the whole call then.\<close>

definition maybe_run ::
  "instant \<Rightarrow> instant \<Rightarrow> instant \<Rightarrow> instant \<Rightarrow> (string \<Rightarrow> bool) \<Rightarrow> string \<Rightarrow> bool \<Rightarrow> run_env \<Rightarrow> sched_db \<Rightarrow>
   sched_db \<times> notice list" where
  "maybe_run clock0 clock1 clock2 interval locked name claim_fails env d =
     (if claim_fails then (d, [])
      else let (t, ok) = claim_due clock0 interval locked name (scheds d)
           in if ok then let (d', notes, _) = run_claimed clock1 clock2 name env (d\<lparr>scheds := t\<rparr>) in (d', notes)
              else (d\<lparr>scheds := t\<rparr>, []))"

subsection \<open>The lanes\<close>

text \<open>
  The tasks of one process: the heavy lane with the jobs it has left, whose head is the one at
  hand, and the light tasks. A job at hand is being claimed or, once claimed, running.
\<close>

datatype phase = Claiming | In_flight

record lanes =
  heavy :: "(phase \<times> string list) option"
  light :: "(string \<times> phase) list"
  running :: "string set"
  named :: "string set"

definition idle_lanes :: lanes where
  "idle_lanes = \<lparr>heavy = None, light = [], running = {}, named = {}\<rparr>"

definition heavy_jobs :: "string list \<Rightarrow> string list" where
  "heavy_jobs jobs = filter (\<lambda>n. n \<notin> set LIGHT_JOBS) jobs"

definition start_light :: "lanes \<Rightarrow> string \<Rightarrow> lanes" where
  "start_light l n =
     (if n \<notin> set LIGHT_JOBS \<or> n \<in> running l then l
      else l\<lparr>running := insert n (running l), light := light l @ [(n, Claiming)]\<rparr>)"

text \<open>\<open>_dispatch\<close>: the heavy lane only when the previous one is over, a light job unless it runs.\<close>

definition dispatch :: "string list \<Rightarrow> lanes \<Rightarrow> lanes" where
  "dispatch jobs l =
     (let l1 = (if heavy l = None \<and> heavy_jobs jobs \<noteq> [] then l\<lparr>heavy := Some (Claiming, heavy_jobs jobs)\<rparr> else l)
      in foldl start_light l1 jobs)"

definition next_heavy :: "string list \<Rightarrow> (phase \<times> string list) option" where
  "next_heavy rest = (if rest = [] then None else Some (Claiming, rest))"

definition drop_light :: "string \<Rightarrow> lanes \<Rightarrow> lanes" where
  "drop_light n l = l\<lparr>light := filter (\<lambda>(m, _). m \<noteq> n) (light l), running := running l - {n}\<rparr>"

definition phase_light :: "string \<Rightarrow> phase \<Rightarrow> (string \<times> phase) list \<Rightarrow> (string \<times> phase) list" where
  "phase_light n ph ts = map (\<lambda>(m, q). if m = n then (m, ph) else (m, q)) ts"

inductive lane_step :: "string list \<Rightarrow> lanes \<Rightarrow> lanes \<Rightarrow> bool" for jobs :: "string list" where
  tick: "lane_step jobs l (dispatch jobs l)"
| heavy_claimed: "heavy l = Some (Claiming, n # rest) \<Longrightarrow>
    lane_step jobs l (l\<lparr>heavy := Some (In_flight, n # rest), named := insert n (named l)\<rparr>)"
| heavy_not_due: "heavy l = Some (Claiming, n # rest) \<Longrightarrow> lane_step jobs l (l\<lparr>heavy := next_heavy rest\<rparr>)"
| heavy_done: "heavy l = Some (In_flight, n # rest) \<Longrightarrow>
    lane_step jobs l (l\<lparr>heavy := next_heavy rest, named := named l - {n}\<rparr>)"
| heavy_stops: "heavy l = Some (Claiming, ns) \<Longrightarrow> lane_step jobs l (l\<lparr>heavy := None\<rparr>)"
| light_claimed: "(n, Claiming) \<in> set (light l) \<Longrightarrow>
    lane_step jobs l (l\<lparr>light := phase_light n In_flight (light l), named := insert n (named l)\<rparr>)"
| light_not_due: "(n, Claiming) \<in> set (light l) \<Longrightarrow> lane_step jobs l (drop_light n l)"
| light_done: "(n, In_flight) \<in> set (light l) \<Longrightarrow>
    lane_step jobs l ((drop_light n l)\<lparr>named := named l - {n}\<rparr>)"
| stop_lanes: "lane_step jobs l idle_lanes"

text \<open>\<open>current_job\<close>.\<close>

definition current_job :: "lanes \<Rightarrow> string option" where
  "current_job l = (if named l = {} then None else Some (join '', '' (sorted_list_of_set (named l))))"

end
