(* ===== verification/Scheduler_Props.thy ===== *)
theory Scheduler_Props
  imports Scheduler Run_Props
begin

text \<open>
  The scheduler's promises: claims of one job are spaced by its interval across replicas, a run
  that is recorded reads the same in both tables and on the wire, and the lanes never run two
  heavy jobs, or one light job twice, at once.
\<close>

subsection \<open>Claims\<close>

definition one_row_per_name :: "sched_tab \<Rightarrow> bool" where
  "one_row_per_name t \<longleftrightarrow> distinct (map s_name t)"

text \<open>What else is committed to the table: a poll of any job, a run's result, the button.\<close>

datatype sched_event =
    Poll instant instant "string \<Rightarrow> bool" string
  | Result instant string string string
  | Button string

fun sched_apply :: "sched_event \<Rightarrow> sched_tab \<Rightarrow> sched_tab" where
  "sched_apply (Poll now interval locked name) t = fst (claim_due now interval locked name t)"
| "sched_apply (Result now name st detail) t = update_where (\<lambda>r. s_name r = name)
     (\<lambda>r. r\<lparr>s_finished := Some now, s_status := Some st, s_detail := Some (take 2000 detail)\<rparr>) t"
| "sched_apply (Button name) t = (case run_scheduled_job_now name t of Inl _ \<Rightarrow> t | Inr t' \<Rightarrow> t')"

lemma sched_at_update:
  assumes "\<And>r. s_name (f r) = s_name r"
  shows "sched_at n (update_where P f t) = map_option (\<lambda>r. if P r then f r else r) (sched_at n t)"
  unfolding sched_at_def using assms by (induction t) auto

lemma sched_at_ensure: "sched_at n (ensure_row m t) = (if n = m \<and> sched_at n t = None then Some (blank_sched m) else sched_at n t)"
  by (auto simp: ensure_row_def sched_at_def find_append blank_sched_def split: option.split)

lemma sched_at_name: "sched_at n t = Some r \<Longrightarrow> s_name r = n \<and> r \<in> set t"
  using find_Some_mem [of "\<lambda>r. s_name r = n" t r] by (simp add: sched_at_def)

lemma ensure_names: "one_row_per_name t \<Longrightarrow> one_row_per_name (ensure_row n t)"
  by (auto simp: one_row_per_name_def ensure_row_def sched_at_def find_None blank_sched_def)

lemma update_names: "(\<And>r. s_name (f r) = s_name r) \<Longrightarrow> one_row_per_name (update_where P f t) = one_row_per_name t"
  by (simp add: one_row_per_name_def map_update_where)

lemma sched_apply_names: "one_row_per_name t \<Longrightarrow> one_row_per_name (sched_apply e t)"
  by (cases e) (simp_all add: claim_due_def run_scheduled_job_now_def Let_def ensure_names update_names)

lemma sched_claim_row:
  "sched_at n (fst (claim_due now interval locked name t)) =
    (case sched_at n (ensure_row name t) of None \<Rightarrow> None
     | Some r \<Rightarrow> Some (if n = name \<and> sched_due now interval locked r then r\<lparr>s_started := Some now\<rparr> else r))"
  using sched_at_name [of n "ensure_row name t"]
  by (auto simp: claim_due_def Let_def sched_at_update split: option.split)

lemma claim_ok:
  assumes "one_row_per_name t"
  shows "snd (claim_due now interval locked name t) \<longleftrightarrow>
    (\<exists>r. sched_at name (ensure_row name t) = Some r \<and> sched_due now interval locked r)"
proof -
  have d: "distinct (map s_name (ensure_row name t))" using ensure_names [OF assms] by (simp add: one_row_per_name_def)
  have "sched_at name (ensure_row name t) = Some r" if "r \<in> set (ensure_row name t)" "s_name r = name" for r
    unfolding sched_at_def by (rule find_unique [OF d that])
  then have "(\<exists>r \<in> set (ensure_row name t). s_name r = name \<and> sched_due now interval locked r) \<longleftrightarrow>
      (\<exists>r. sched_at name (ensure_row name t) = Some r \<and> sched_due now interval locked r)"
    using sched_at_name [of name "ensure_row name t"] by blast
  then show ?thesis by (simp add: claim_due_def Let_def)
qed

text \<open>Once claimed at \<open>from\<close>, the start of the row never goes back, short of the button.\<close>

definition started_since :: "instant \<Rightarrow> string \<Rightarrow> sched_tab \<Rightarrow> bool" where
  "started_since from_t name t \<longleftrightarrow> (\<exists>r s. sched_at name t = Some r \<and> s_started r = Some s \<and> from_t \<le> s)"

definition later_event :: "instant \<Rightarrow> string \<Rightarrow> sched_event \<Rightarrow> bool" where
  "later_event from_t name e = (case e of Poll now _ _ _ \<Rightarrow> from_t \<le> now | Result _ _ _ _ \<Rightarrow> True | Button n \<Rightarrow> n \<noteq> name)"

lemma started_since_step:
  assumes "started_since from_t name t" and "later_event from_t name e"
  shows "started_since from_t name (sched_apply e t)"
proof -
  obtain r s where r: "sched_at name t = Some r" "s_started r = Some s" "from_t \<le> s"
    using assms(1) by (auto simp: started_since_def)
  have e: "sched_at name (ensure_row m t) = Some r" for m using r(1) by (simp add: sched_at_ensure)
  show ?thesis
  proof (cases e)
    case (Poll now interval locked m)
    with assms(2) r(2,3) show ?thesis
      by (auto simp: started_since_def sched_claim_row \<open>\<And>m. sched_at name (ensure_row m t) = Some r\<close> later_event_def)
  next
    case (Result now m st detail)
    with r show ?thesis by (auto simp: started_since_def sched_at_update)
  next
    case (Button m)
    then have "m \<noteq> s_name r" using assms(2) sched_at_name [OF r(1)] by (auto simp: later_event_def)
    with Button r e show ?thesis
      by (auto simp: started_since_def run_scheduled_job_now_def sched_at_update)
  qed
qed

lemma started_since_steps:
  "started_since from_t name t \<Longrightarrow> list_all (later_event from_t name) es \<Longrightarrow>
     started_since from_t name (fold sched_apply es t)"
  by (induction es arbitrary: t) (simp_all add: started_since_step)

lemma names_fold: "one_row_per_name t \<Longrightarrow> one_row_per_name (fold sched_apply es t)"
  by (induction es arbitrary: t) (simp_all add: sched_apply_names)



subsection \<open>One run, recorded once\<close>

text \<open>
  C25: a run that is recorded reads the same everywhere. Its row of the schedule, its row of the
  history and the announcement carry one status and one detail: what the body returned, cut at
  two thousand characters, or the class name of what it raised, and the exception's own words
  only where they were built to be served. It is announced as failed exactly when it raised.
\<close>

theorem run_reads_the_same:
  assumes "run_claimed c1 c2 name env d = (d', notices, run_id)" and "can_record env"
    and "run_id = Some i" and "sched_at name (scheds d') = Some r"
  shows "s_finished r = Some c2 \<and>
    s_status r = Some (if isl (body_result env) then ''failed'' else ''ok'') \<and>
    s_detail r = Some (take 2000 (case body_result env of
      Inl e \<Rightarrow> if served_detail e then exn_message e else exn_name e | Inr None \<Rightarrow> [] | Inr (Some x) \<Rightarrow> x)) \<and>
    (\<forall>q \<in> set (runs (history d')). r_id q = i \<longrightarrow>
       r_finished q = Some c2 \<and> Some (r_status q) = s_status r \<and> r_detail q = s_detail r) \<and>
    (\<forall>n \<in> set (tl notices). n_fields n = [(''job'', name), (''status'', the (s_status r)), (''detail'', the (s_detail r))]) \<and>
    (''scheduled_run_failed'' \<in> n_event ` set notices \<longleftrightarrow> isl (body_result env))"
proof -
  obtain st detail where v: "verdict (body_result env) = (st, detail)" by fastforce
  define d1 where "d1 = (if name \<in> set UNRECORDED \<or> \<not> can_open env then (d, None)
    else (d\<lparr>history := fst (open_run c1 ''scheduled'' name (history d))\<rparr>,
      Some (snd (open_run c1 ''scheduled'' name (history d)))))"
  define d2 where "d2 = body_commits env (fst d1)"
  have run: "run_claimed c1 c2 name env d = (if sched_at name (scheds d2) = None
      then (d2, [started_note name], snd d1)
      else (record_result c2 name (snd d1) st detail d2,
        started_note name # finished_notes name st (take 2000 detail), snd d1))"
    using assms(2) unfolding run_claimed_def d1_def d2_def by (auto simp: v Let_def split: prod.split)
  have "sched_at name (scheds d2) \<noteq> None"
  proof
    assume none: "sched_at name (scheds d2) = None"
    then have "d' = d2" using run assms(1) by simp
    with none assms(4) show False by simp
  qed
  with run assms(1,3) have d': "d' = record_result c2 name (Some i) st detail d2"
    and ns: "notices = started_note name # finished_notes name st (take 2000 detail)"
    by (auto split: if_splits)
  have "s_name r = name" using sched_at_name [OF assms(4)] by simp
  moreover obtain r0 where "sched_at name (scheds d2) = Some r0" "r = (if s_name r0 = name then
      r0\<lparr>s_finished := Some c2, s_status := Some st, s_detail := Some (take 2000 detail)\<rparr> else r0)"
    using assms(4) by (auto simp: d' record_result_def sched_at_update)
  ultimately have r: "s_finished r = Some c2" "s_status r = Some st" "s_detail r = Some (take 2000 detail)"
    by (auto split: if_splits)
  have st: "st = (if isl (body_result env) then ''failed'' else ''ok'')"
    and dt: "detail = (case body_result env of Inl e \<Rightarrow> if served_detail e then exn_message e else exn_name e
      | Inr None \<Rightarrow> [] | Inr (Some x) \<Rightarrow> x)"
    using v by (auto simp: verdict_def served_def split: sum.splits option.splits)
  have h: "\<forall>q \<in> set (runs (history d')). r_id q = i \<longrightarrow>
       r_finished q = Some c2 \<and> r_status q = st \<and> r_detail q = Some (take 2000 detail)"
  proof (intro ballI impI)
    fix q assume q: "q \<in> set (runs (history d'))" "r_id q = i"
    have "runs (history d') = update_where (\<lambda>q. r_id q = i) (\<lambda>q. q\<lparr>r_finished := Some c2, r_status := st,
        r_detail := Some (take DETAIL_WIDTH detail)\<rparr>) (runs (history d2))"
      by (simp add: d' record_result_def close_run_def)
    from q(1) [unfolded this] show "r_finished q = Some c2 \<and> r_status q = st \<and> r_detail q = Some (take 2000 detail)"
      by (rule update_where_mem) (use q(2) in \<open>simp_all add: DETAIL_WIDTH_def\<close>)
  qed
  have n: "\<forall>n \<in> set (tl notices). n_fields n = [(''job'', name), (''status'', st), (''detail'', take 2000 detail)]"
    "''scheduled_run_failed'' \<in> n_event ` set notices \<longleftrightarrow> st = ''failed''"
    by (auto simp: ns finished_notes_def started_note_def Let_def)
  from r h n show ?thesis by (simp add: st dt)
qed

definition quiet_env :: run_env where
  "quiet_env = \<lparr>can_open = True, body_result = Inl \<lparr>exn_class = OtherException, exn_name = ''OSError'',
     exn_message = ''http://10.0.0.1/x'', served_detail = False, exn_max_attempts = None\<rparr>,
     body_commits = id, can_record = True\<rparr>"

definition pruning :: sched_db where
  "pruning = \<lparr>scheds = [blank_sched ''plex_prune''], history = \<lparr>runs = [], run_next = 1\<rparr>\<rparr>"

theorem run_reads_the_same_witness:
  "\<exists>d' ns r. run_claimed 1 2 ''plex_prune'' quiet_env pruning = (d', ns, Some 1) \<and>
     sched_at ''plex_prune'' (scheds d') = Some r \<and> s_detail r = Some ''OSError''"
proof -
  have "\<exists>d' ns r. run_claimed 1 2 ''plex_prune'' quiet_env pruning = (d', ns, Some 1) \<and>
     sched_at ''plex_prune'' (scheds d') = Some r"
    by (simp add: run_claimed_def quiet_env_def pruning_def UNRECORDED_def open_run_def Let_def verdict_def
        sched_at_def blank_sched_def record_result_def)
  then obtain d' ns r where d: "run_claimed 1 2 ''plex_prune'' quiet_env pruning = (d', ns, Some 1)"
    "sched_at ''plex_prune'' (scheds d') = Some r" by blast
  from run_reads_the_same [OF d(1) _ refl d(2)] have "s_detail r = Some ''OSError''"
    by (simp add: quiet_env_def)
  with d show ?thesis by blast
qed

subsection \<open>The lanes\<close>

definition lane_inv :: "lanes \<Rightarrow> bool" where
  "lane_inv l \<longleftrightarrow> distinct (map fst (light l)) \<and> running l = fst ` set (light l) \<and>
     fst ` set (light l) \<subseteq> set LIGHT_JOBS \<and>
     (case heavy l of None \<Rightarrow> True | Some (_, ns) \<Rightarrow> ns \<noteq> [] \<and> set ns \<inter> set LIGHT_JOBS = {}) \<and>
     named l = {n. (n, In_flight) \<in> set (light l)} \<union>
       {n. \<exists>rest. heavy l = Some (In_flight, n # rest)}"

lemma start_light_inv: "lane_inv l \<Longrightarrow> lane_inv (start_light l n)"
  by (auto simp: lane_inv_def start_light_def split: option.splits)

lemma fold_light_inv: "lane_inv l \<Longrightarrow> lane_inv (foldl start_light l ns)"
  by (induction ns arbitrary: l) (simp_all add: start_light_inv)

lemma dispatch_inv: "lane_inv l \<Longrightarrow> lane_inv (dispatch jobs l)"
  unfolding dispatch_def Let_def
  by (rule fold_light_inv) (auto simp: lane_inv_def heavy_jobs_def split: option.splits)

lemma fst_phase_light [simp]: "map fst (phase_light n ph ts) = map fst ts"
  by (induction ts) (auto simp: phase_light_def)

lemma set_fst_phase [simp]: "fst ` set (phase_light n ph ts) = fst ` set ts"
  by (metis fst_phase_light list.set_map)

lemma in_flight_phase:
  assumes "(n, Claiming) \<in> set ts" and "distinct (map fst ts)"
  shows "(m, In_flight) \<in> set (phase_light n In_flight ts) \<longleftrightarrow> m = n \<or> (m, In_flight) \<in> set ts"
proof -
  have "(m, In_flight) \<in> set (phase_light n In_flight ts) \<longleftrightarrow>
      (if m = n then \<exists>q. (m, q) \<in> set ts else (m, In_flight) \<in> set ts)"
    unfolding phase_light_def
  proof (induction ts)
    case Nil
    then show ?case by simp
  next
    case (Cons t ts)
    then show ?case by (cases t) auto
  qed
  then show ?thesis using assms(1) by auto
qed

lemma drop_light_sel [simp]:
  "set (light (drop_light n l)) = {p \<in> set (light l). fst p \<noteq> n}"
  "running (drop_light n l) = running l - {n}" "heavy (drop_light n l) = heavy l" "named (drop_light n l) = named l"
  by (auto simp: drop_light_def)

lemma distinct_drop: "distinct (map fst (light l)) \<Longrightarrow> distinct (map fst (light (drop_light n l)))"
  by (simp add: drop_light_def distinct_map_filter)

lemma lane_step_inv: "lane_step jobs l l' \<Longrightarrow> lane_inv l \<Longrightarrow> lane_inv l'"
proof (induction rule: lane_step.induct)
  case (tick l)
  then show ?case by (rule dispatch_inv)
next
  case (heavy_claimed l n rest)
  then show ?case by (auto simp: lane_inv_def)
next
  case (heavy_not_due l n rest)
  then show ?case by (auto simp: lane_inv_def next_heavy_def)
next
  case (heavy_done l n rest)
  then show ?case by (auto simp: lane_inv_def next_heavy_def)
next
  case (heavy_stops l ns)
  then show ?case by (auto simp: lane_inv_def)
next
  case (light_claimed n l)
  then show ?case by (auto simp: lane_inv_def in_flight_phase split: option.splits)
next
  case (light_not_due n l)
  then have "(n, In_flight) \<notin> set (light l)"
    by (auto simp: lane_inv_def dest: eq_key_imp_eq_value)
  with light_not_due show ?case
    by (auto simp: lane_inv_def distinct_drop split: option.splits)
next
  case (light_done n l)
  then have "\<nexists>rest. heavy l = Some (In_flight, n # rest)"
    by (force simp: lane_inv_def)
  with light_done show ?case
    by (auto simp: lane_inv_def distinct_drop split: option.splits)
next
  case stop_lanes
  then show ?case by (simp add: lane_inv_def idle_lanes_def)
qed

lemma lane_steps_inv: "(lane_step jobs)\<^sup>*\<^sup>* idle_lanes l \<Longrightarrow> lane_inv l"
  by (induction rule: rtranclp_induct) (auto simp: lane_step_inv, simp add: lane_inv_def idle_lanes_def)

text \<open>
  C26: whatever the ticks, claims, endings and stops of a process, at most one heavy job is in
  flight, no light job has two tasks, the guard that keeps it so holds exactly the light tasks
  there are, and the jobs named to the lag monitor are exactly those whose claimed run is in
  flight.
\<close>

theorem lanes_never_overlap:
  assumes "(lane_step jobs)\<^sup>*\<^sup>* idle_lanes l"
  shows "distinct (map fst (light l)) \<and> running l = fst ` set (light l) \<and>
    (\<forall>n m. n \<in> named l - set LIGHT_JOBS \<and> m \<in> named l - set LIGHT_JOBS \<longrightarrow> n = m) \<and>
    named l = {n. (n, In_flight) \<in> set (light l)} \<union> {n. \<exists>rest. heavy l = Some (In_flight, n # rest)}"
proof -
  have inv: "lane_inv l" by (rule lane_steps_inv [OF assms])
  then have "n = m" if "n \<in> named l - set LIGHT_JOBS" "m \<in> named l - set LIGHT_JOBS" for n m
    using that by (force simp: lane_inv_def)
  with inv show ?thesis unfolding lane_inv_def by blast
qed

theorem lanes_never_overlap_witness:
  "\<exists>l. (lane_step [''plex_prune'', ''catch_up_drain'', ''plex_merge''])\<^sup>*\<^sup>* idle_lanes l \<and>
     named l = {''plex_prune''} \<and> running l = {''catch_up_drain''}"
proof -
  let ?jobs = "[''plex_prune'', ''catch_up_drain'', ''plex_merge'']"
  let ?l1 = "\<lparr>heavy = Some (Claiming, [''plex_prune'', ''plex_merge'']), light = [(''catch_up_drain'', Claiming)],
    running = {''catch_up_drain''}, named = {}\<rparr>"
  let ?l2 = "?l1\<lparr>heavy := Some (In_flight, [''plex_prune'', ''plex_merge'']), named := {''plex_prune''}\<rparr>"
  have "dispatch ?jobs idle_lanes = ?l1"
    by (simp add: dispatch_def idle_lanes_def heavy_jobs_def LIGHT_JOBS_def start_light_def Let_def)
  then have "lane_step ?jobs idle_lanes ?l1" using lane_step.tick [of ?jobs idle_lanes] by simp
  moreover have "lane_step ?jobs ?l1 ?l2"
    using lane_step.heavy_claimed [of ?l1 "''plex_prune''" "[''plex_merge'']" ?jobs] by simp
  ultimately have "(lane_step ?jobs)\<^sup>*\<^sup>* idle_lanes ?l2" by (meson converse_rtranclp_into_rtranclp rtranclp.rtrancl_refl)
  from lanes_never_overlap [OF this] this show ?thesis by auto
qed

end
