(* ===== verification/Retention.thy ===== *)
theory Retention
  imports Jobs
begin

text \<open>
  Retention of the history tables (\<open>scheduler/retention.py\<close>): each table is pruned in batches in
  a transaction of its own. \<open>order\<close> is the planner: the order in which a statement meets the
  rows its \<open>LIMIT\<close> cuts, which the code leaves open.
\<close>

subsection \<open>Constants\<close>

definition JOB_RETENTION_DAYS :: int where
  "JOB_RETENTION_DAYS = 30"

definition EVENT_RETENTION_DAYS :: int where
  "EVENT_RETENTION_DAYS = 90"

definition PROVIDER_CACHE_GRACE :: instant where
  "PROVIDER_CACHE_GRACE = secs (24 * 60 * 60)"

definition RETENTION_BATCH :: nat where
  "RETENTION_BATCH = 5000"

definition PRUNABLE_JOB_STATES :: "job_state list" where
  "PRUNABLE_JOB_STATES = [Done, Done_with_warnings, Dismissed]"

definition PRUNED_EVENT_SOURCES :: "string list" where
  "PRUNED_EVENT_SOURCES = [''radarr'', ''sonarr'', ''notifier'', ''actions'', ''collections'', ''playlists'']"

definition days :: "int \<Rightarrow> instant" where
  "days n = secs (n * 24 * 60 * 60)"

subsection \<open>The tables\<close>

record event_row =
  e_id :: nat
  e_source :: string
  e_received :: instant

record cache_row =
  k_key :: string
  k_expires :: instant

record history_db =
  h_jobs :: "job list"
  h_events :: "event_row list"
  h_cache :: "cache_row list"

subsection \<open>Which rows go\<close>

text \<open>\<open>_JOBS_SQL\<close>: the sub-select on the rows as the statement finds them.\<close>

definition newer_row :: "job list \<Rightarrow> job \<Rightarrow> bool" where
  "newer_row rs j \<longleftrightarrow> (\<exists>n \<in> set rs. job_kind n = ''process_item'' \<and> dedupe_key n = dedupe_key j \<and>
     job_id j < job_id n)"

definition old_job :: "instant \<Rightarrow> job list \<Rightarrow> job \<Rightarrow> bool" where
  "old_job now rs j \<longleftrightarrow> job_state j \<in> set PRUNABLE_JOB_STATES \<and>
     updated_at j < now - days JOB_RETENTION_DAYS \<and>
     (dedupe_key j = None \<or> job_kind j = ''process_item'' \<and> newer_row rs j)"

definition old_event :: "instant \<Rightarrow> event_row list \<Rightarrow> event_row \<Rightarrow> bool" where
  "old_event now rs e \<longleftrightarrow> e_source e \<in> set PRUNED_EVENT_SOURCES \<and>
     e_received e < now - days EVENT_RETENTION_DAYS"

definition old_cache :: "instant \<Rightarrow> cache_row list \<Rightarrow> cache_row \<Rightarrow> bool" where
  "old_cache now rs c \<longleftrightarrow> k_expires c < now - PROVIDER_CACHE_GRACE"

subsection \<open>The loop\<close>

definition delete_batch ::
  "('r list \<Rightarrow> 'r list) \<Rightarrow> nat \<Rightarrow> ('r \<Rightarrow> 'k) \<Rightarrow> ('r list \<Rightarrow> 'r \<Rightarrow> bool) \<Rightarrow> 'r list \<Rightarrow> 'r list" where
  "delete_batch order n key sel rs =
     (let chosen = key ` set (take n (order (filter (sel rs) rs)))
      in filter (\<lambda>r. key r \<notin> chosen) rs)"

lemma delete_batch_length: "length (delete_batch order n key sel rs) \<le> length rs"
  by (simp add: delete_batch_def Let_def)

text \<open>\<open>while True\<close>, until a statement deletes nothing.\<close>

function delete_in_batches ::
  "('r list \<Rightarrow> 'r list) \<Rightarrow> nat \<Rightarrow> ('r \<Rightarrow> 'k) \<Rightarrow> ('r list \<Rightarrow> 'r \<Rightarrow> bool) \<Rightarrow> 'r list \<Rightarrow> nat \<Rightarrow> 'r list \<times> nat" where
  "delete_in_batches order n key sel rs removed =
     (let rest = delete_batch order n key sel rs; rowcount = length rs - length rest
      in if rowcount = 0 then (rs, removed) else delete_in_batches order n key sel rest (removed + rowcount))"
  by pat_completeness auto
termination
  by (relation "measure (\<lambda>(_, _, _, _, rs, _). length rs)") auto

declare delete_in_batches.simps [simp del]

subsection \<open>apply\_retention\<close>

text \<open>
  A table whose transaction failed is left as it was and counted as \<open>None\<close>; the others go on.
  \<open>clocks\<close> are the transactions' instants, \<open>fails\<close> the tables whose transaction fails.
\<close>

definition prune_table ::
  "bool \<Rightarrow> ('r list \<Rightarrow> 'r list) \<Rightarrow> nat \<Rightarrow> ('r \<Rightarrow> 'k) \<Rightarrow> ('r list \<Rightarrow> 'r \<Rightarrow> bool) \<Rightarrow> 'r list \<Rightarrow>
   'r list \<times> nat option" where
  "prune_table fails order n key sel rs =
     (if fails then (rs, None)
      else let (rs', removed) = delete_in_batches order n key sel rs 0 in (rs', Some removed))"

record planner =
  job_order :: "job list \<Rightarrow> job list"
  event_order :: "event_row list \<Rightarrow> event_row list"
  cache_order :: "cache_row list \<Rightarrow> cache_row list"

definition apply_retention ::
  "planner \<Rightarrow> nat \<Rightarrow> (string \<Rightarrow> instant) \<Rightarrow> (string \<Rightarrow> bool) \<Rightarrow> history_db \<Rightarrow>
   history_db \<times> (string \<times> nat option) list" where
  "apply_retention p n clocks fails d =
     (let (js, a) = prune_table (fails ''jobs'') (job_order p) n job_id (old_job (clocks ''jobs'')) (h_jobs d);
          (es, b) = prune_table (fails ''events_log'') (event_order p) n e_id
            (old_event (clocks ''events_log'')) (h_events d);
          (cs, c) = prune_table (fails ''provider_cache'') (cache_order p) n k_key
            (old_cache (clocks ''provider_cache'')) (h_cache d)
      in (\<lparr>h_jobs = js, h_events = es, h_cache = cs\<rparr>,
          [(''jobs'', a), (''events_log'', b), (''provider_cache'', c)]))"

definition describe_retention :: "(string \<times> nat option) list \<Rightarrow> string" where
  "describe_retention counts =
     (let removed = List.map_filter (\<lambda>(table, n). case n of Some (Suc m) \<Rightarrow> Some (nat_digits (Suc m) @ '' '' @ table)
            | _ \<Rightarrow> None) counts;
          failed = map fst (filter (\<lambda>(_, n). n = None) counts)
      in (if removed = [] then [] else ''; retention removed '' @ join '', '' removed @ '' row(s)'') @
         (if failed = [] then [] else ''; retention failed for '' @ join '', '' failed @ '' (see the log)''))"

text \<open>\<open>_parked_by_latest_job\<close> of \<open>api/action_center.py\<close>, which the pruning must not disturb.\<close>

definition latest_job :: "job list \<Rightarrow> string \<Rightarrow> job option" where
  "latest_job rs k = first_by (\<lambda>j. - int (job_id j))
     (filter (\<lambda>j. job_kind j = ''process_item'' \<and> dedupe_key j = Some k) rs)"

definition parked_by_latest_job :: "job list \<Rightarrow> string set" where
  "parked_by_latest_job rs = {k. map_option job_state (latest_job rs k) = Some Parked}"

subsection \<open>The loop leaves exactly the rows that stay\<close>

text \<open>
  The interface the loop needs of a selection: deleting selected rows does not change which of
  the remaining ones are selected. It holds for all three statements.
\<close>

definition permuting :: "('r list \<Rightarrow> 'r list) \<Rightarrow> bool" where
  "permuting order \<longleftrightarrow> (\<forall>rs. set (order rs) = set rs \<and> length (order rs) = length rs)"

locale prunable =
  fixes key :: "'r \<Rightarrow> 'k" and sel :: "'r list \<Rightarrow> 'r \<Rightarrow> bool"
  assumes stable: "distinct (map key rs) \<Longrightarrow> set ks \<subseteq> set rs \<Longrightarrow>
      (\<And>r. r \<in> set rs \<Longrightarrow> \<not> sel rs r \<Longrightarrow> r \<in> set ks) \<Longrightarrow> r \<in> set ks \<Longrightarrow> sel ks r = sel rs r"
begin

lemma batch_keeps:
  assumes "permuting order" and "distinct (map key rs)"
  shows "set (delete_batch order n key sel rs) \<subseteq> set rs"
    and "r \<in> set rs \<Longrightarrow> \<not> sel rs r \<Longrightarrow> r \<in> set (delete_batch order n key sel rs)"
    and "distinct (map key (delete_batch order n key sel rs))"
proof -
  show "set (delete_batch order n key sel rs) \<subseteq> set rs"
    by (auto simp: delete_batch_def Let_def)
  show "distinct (map key (delete_batch order n key sel rs))"
    using assms(2) by (simp add: delete_batch_def Let_def distinct_map_filter)
  assume r: "r \<in> set rs" "\<not> sel rs r"
  have "key r \<notin> key ` set (take n (order (filter (sel rs) rs)))"
  proof
    assume "key r \<in> key ` set (take n (order (filter (sel rs) rs)))"
    then obtain q where q: "q \<in> set (take n (order (filter (sel rs) rs)))" "key q = key r" by auto
    have "set (order (filter (sel rs) rs)) = set (filter (sel rs) rs)"
      using assms(1) by (simp add: permuting_def)
    then have "q \<in> set rs" "sel rs q" using in_set_takeD [OF q(1)] by auto
    with distinct_map_inj [OF assms(2), of q r] r q(2) show False by auto
  qed
  with r show "r \<in> set (delete_batch order n key sel rs)" by (simp add: delete_batch_def Let_def)
qed

lemma batch_same:
  assumes "permuting order" and "distinct (map key rs)"
  shows "filter (\<lambda>r. \<not> sel (delete_batch order n key sel rs) r) (delete_batch order n key sel rs) =
    filter (\<lambda>r. \<not> sel rs r) rs"
proof -
  let ?b = "delete_batch order n key sel rs"
  have "sel ?b r = sel rs r" if "r \<in> set ?b" for r
    by (rule stable [OF assms(2) batch_keeps(1,2) that]) (rule assms)+
  then have "filter (\<lambda>r. \<not> sel ?b r) ?b = filter (\<lambda>r. \<not> sel rs r) ?b"
    by (intro filter_cong) auto
  also have "\<dots> = filter (\<lambda>r. \<not> sel rs r) rs"
  proof -
    have "\<not> sel rs r \<longrightarrow> key r \<notin> key ` set (take n (order (filter (sel rs) rs)))" if "r \<in> set rs" for r
      using batch_keeps(2) [OF assms that, of n] by (auto simp: delete_batch_def Let_def)
    then show ?thesis unfolding delete_batch_def Let_def filter_filter by (intro filter_cong) auto
  qed
  finally show ?thesis .
qed

lemma batch_stops:
  assumes "permuting order" and "0 < n" and "length (delete_batch order n key sel rs) = length rs"
  shows "filter (\<lambda>r. \<not> sel rs r) rs = rs"
proof -
  have "delete_batch order n key sel rs = rs"
    using assms(3) unfolding delete_batch_def Let_def
    by (metis (mono_tags, lifting) filter_True length_filter_less less_irrefl)
  then have keep: "\<forall>r \<in> set rs. key r \<notin> key ` set (take n (order (filter (sel rs) rs)))"
    by (simp add: delete_batch_def Let_def filter_id_conv)
  have "filter (sel rs) rs = []"
  proof (rule ccontr)
    assume ne: "filter (sel rs) rs \<noteq> []"
    have o: "set (order (filter (sel rs) rs)) = set (filter (sel rs) rs)"
      "length (order (filter (sel rs) rs)) = length (filter (sel rs) rs)"
      using assms(1) unfolding permuting_def by blast+
    then obtain q where "q \<in> set (take n (order (filter (sel rs) rs)))"
      using ne assms(2) by (cases "order (filter (sel rs) rs)"; cases n) auto
    moreover from this have "q \<in> set rs" using in_set_takeD o(1) by fastforce
    ultimately show False using keep by blast
  qed
  then show ?thesis by (simp add: filter_empty_conv)
qed

lemma loop_exact:
  assumes "permuting order" and "0 < n" and "distinct (map key rs)"
  shows "delete_in_batches order n key sel rs removed =
    (filter (\<lambda>r. \<not> sel rs r) rs, removed + length (filter (sel rs) rs))"
  using assms(3)
proof (induction "length rs" arbitrary: rs removed rule: less_induct)
  case less
  let ?b = "delete_batch order n key sel rs"
  have sum: "length (filter (sel xs) xs) + length (filter (\<lambda>r. \<not> sel xs r) xs) = length xs" for xs
    by (rule sum_length_filter_compl)
  show ?case
  proof (cases "length rs - length ?b = 0")
    case True
    then have "length ?b = length rs" using delete_batch_length [of order n key sel rs] by simp
    from batch_stops [OF assms(1,2) this] sum [of rs] True show ?thesis
      by (subst delete_in_batches.simps) (simp add: Let_def)
  next
    case False
    then have small: "length ?b < length rs" by simp
    have "delete_in_batches order n key sel rs removed =
        delete_in_batches order n key sel ?b (removed + (length rs - length ?b))"
      by (subst delete_in_batches.simps) (simp only: Let_def False if_False)
    also have "\<dots> = (filter (\<lambda>r. \<not> sel ?b r) ?b, removed + (length rs - length ?b) + length (filter (sel ?b) ?b))"
      by (rule less.hyps [OF small batch_keeps(3) [OF assms(1) less.prems]])
    also have "removed + (length rs - length ?b) + length (filter (sel ?b) ?b) = removed + length (filter (sel rs) rs)"
      using sum [of rs] sum [of ?b] small batch_same [OF assms(1) less.prems, of n] by simp
    finally show ?thesis by (simp add: batch_same [OF assms(1) less.prems])
  qed
qed

end

text \<open>A job row keeps a newer row of its key: the newest one is never selected.\<close>

lemma newest_stays:
  assumes "newer_row rs j" and "set ks \<subseteq> set rs" and "\<And>r. r \<in> set rs \<Longrightarrow> \<not> old_job now rs r \<Longrightarrow> r \<in> set ks"
    and "dedupe_key j \<noteq> None"
  shows "newer_row ks j"
proof -
  let ?N = "filter (\<lambda>n. job_kind n = ''process_item'' \<and> dedupe_key n = dedupe_key j) rs"
  from assms(1) obtain m where m: "m \<in> set ?N" "job_id j < job_id m" by (auto simp: newer_row_def)
  then obtain top where top: "top \<in> set ?N" "\<forall>n \<in> set ?N. job_id n \<le> job_id top"
    using arg_max_nat_lemma [of "\<lambda>n. n \<in> set ?N" m job_id "Suc (Max (job_id ` set ?N))"]
    by (metis (no_types, lifting) List.finite_set Max_ge finite_imageI imageI le_imp_less_Suc)
  have "\<not> newer_row rs top" using top by (auto simp: newer_row_def not_less [symmetric])
  then have "\<not> old_job now rs top" using top(1) assms(4) by (auto simp: old_job_def)
  then have "top \<in> set ks" using assms(3) top(1) by auto
  moreover have "job_id j < job_id top" using m top(2) by (meson le_less_trans not_le)
  ultimately show ?thesis using top(1) by (auto simp: newer_row_def)
qed

interpretation jobs_prune: prunable job_id "old_job now" for now
proof
  fix rs ks :: "job list" and j
  assume ks: "set ks \<subseteq> set rs" "\<And>r. r \<in> set rs \<Longrightarrow> \<not> old_job now rs r \<Longrightarrow> r \<in> set ks" and "j \<in> set ks"
  have "newer_row ks j \<Longrightarrow> newer_row rs j" using ks(1) by (auto simp: newer_row_def)
  moreover have "newer_row rs j \<Longrightarrow> dedupe_key j \<noteq> None \<Longrightarrow> newer_row ks j"
    by (rule newest_stays [OF _ ks])
  ultimately show "old_job now ks j = old_job now rs j" by (auto simp: old_job_def)
qed

interpretation events_prune: prunable e_id "old_event now" for now
  by unfold_locales (simp add: old_event_def)

interpretation cache_prune: prunable k_key "old_cache now" for now
  by unfold_locales (simp add: old_cache_def)

end
