(* ===== verification/Retention_Props.thy ===== *)
theory Retention_Props
  imports Retention
begin

text \<open>
  What retention promises: its loops end with exactly the rows that stay, however the planner
  orders a batch, and the newest job of every key is among them.
\<close>

definition wf_history :: "history_db \<Rightarrow> bool" where
  "wf_history d \<longleftrightarrow> distinct (map job_id (h_jobs d)) \<and> distinct (map e_id (h_events d)) \<and>
     distinct (map k_key (h_cache d))"

definition fair :: "planner \<Rightarrow> bool" where
  "fair p \<longleftrightarrow> permuting (job_order p) \<and> permuting (event_order p) \<and> permuting (cache_order p)"

definition pruned :: "bool \<Rightarrow> ('r \<Rightarrow> bool) \<Rightarrow> 'r list \<Rightarrow> 'r list \<times> nat option" where
  "pruned fails old rs = (if fails then (rs, None) else (filter (\<lambda>r. \<not> old r) rs, Some (length (filter old rs))))"

lemma apply_retention_exact:
  assumes "fair p" and "0 < n" and "wf_history d"
  shows "apply_retention p n clocks fails d =
    (let (js, a) = pruned (fails ''jobs'') (old_job (clocks ''jobs'') (h_jobs d)) (h_jobs d);
         (es, b) = pruned (fails ''events_log'') (old_event (clocks ''events_log'') (h_events d)) (h_events d);
         (cs, c) = pruned (fails ''provider_cache'') (old_cache (clocks ''provider_cache'') (h_cache d)) (h_cache d)
     in (\<lparr>h_jobs = js, h_events = es, h_cache = cs\<rparr>,
         [(''jobs'', a), (''events_log'', b), (''provider_cache'', c)]))"
proof -
  have js: "prune_table f (job_order p) n job_id (old_job now) (h_jobs d) = pruned f (old_job now (h_jobs d)) (h_jobs d)" for f now
    using jobs_prune.loop_exact [OF _ assms(2), of "job_order p" "h_jobs d" now 0] assms(1,3)
    by (simp add: prune_table_def pruned_def fair_def wf_history_def)
  have es: "prune_table f (event_order p) n e_id (old_event now) (h_events d) = pruned f (old_event now (h_events d)) (h_events d)" for f now
    using events_prune.loop_exact [OF _ assms(2), of "event_order p" "h_events d" now 0] assms(1,3)
    by (simp add: prune_table_def pruned_def fair_def wf_history_def)
  have cs: "prune_table f (cache_order p) n k_key (old_cache now) (h_cache d) = pruned f (old_cache now (h_cache d)) (h_cache d)" for f now
    using cache_prune.loop_exact [OF _ assms(2), of "cache_order p" "h_cache d" now 0] assms(1,3)
    by (simp add: prune_table_def pruned_def fair_def wf_history_def)
  show ?thesis unfolding apply_retention_def js es cs by simp
qed

text \<open>
  C27: retention ends, and leaves exactly the rows that are not old: for every table whose
  transaction holds, the rows deleted are those the statement selects on the table as it was
  before the first batch, and the count reported is theirs, whichever rows each \<open>LIMIT\<close> took;
  a table whose transaction fails is untouched and reported as failed, and stops no other.
\<close>

theorem retention_is_exact:
  assumes "fair p" and "0 < n" and "wf_history d"
  shows "apply_retention p n clocks fails d =
    (let (js, a) = pruned (fails ''jobs'') (old_job (clocks ''jobs'') (h_jobs d)) (h_jobs d);
         (es, b) = pruned (fails ''events_log'') (old_event (clocks ''events_log'') (h_events d)) (h_events d);
         (cs, c) = pruned (fails ''provider_cache'') (old_cache (clocks ''provider_cache'') (h_cache d)) (h_cache d)
     in (\<lparr>h_jobs = js, h_events = es, h_cache = cs\<rparr>,
         [(''jobs'', a), (''events_log'', b), (''provider_cache'', c)]))"
  by (rule apply_retention_exact [OF assms])

definition backwards :: planner where
  "backwards = \<lparr>job_order = rev, event_order = rev, cache_order = rev\<rparr>"

definition full_history :: history_db where
  "full_history = \<lparr>h_jobs = [(new_job 1 0 ''process_item'' [] (Some ''k'') 0)\<lparr>job_state := Done\<rparr>,
      (new_job 2 0 ''process_item'' [] (Some ''k'') 0)\<lparr>job_state := Done\<rparr>],
    h_events = [\<lparr>e_id = 1, e_source = ''radarr'', e_received = 0\<rparr>, \<lparr>e_id = 2, e_source = ''prune'', e_received = 0\<rparr>],
    h_cache = []\<rparr>"

lemma full_history_ok: "fair backwards" "wf_history full_history"
  by (simp_all add: fair_def permuting_def backwards_def wf_history_def full_history_def new_job_def)

theorem retention_is_exact_witness:
  "snd (apply_retention backwards 1 (\<lambda>_. days 100) (\<lambda>t. t = ''provider_cache'') full_history) =
     [(''jobs'', Some 1), (''events_log'', Some 1), (''provider_cache'', None)]"
  by (subst retention_is_exact [OF full_history_ok(1) _ full_history_ok(2)])
    (simp_all add: pruned_def full_history_def old_job_def old_event_def newer_row_def new_job_def days_def
      PRUNABLE_JOB_STATES_def PRUNED_EVENT_SOURCES_def JOB_RETENTION_DAYS_def EVENT_RETENTION_DAYS_def secs_def)

subsection \<open>The newest job of a key\<close>

lemma latest_job_iff:
  assumes "distinct (map job_id rs)"
  shows "latest_job rs k = Some j \<longleftrightarrow> j \<in> set rs \<and> job_kind j = ''process_item'' \<and> dedupe_key j = Some k \<and>
    (\<forall>n \<in> set rs. job_kind n = ''process_item'' \<and> dedupe_key n = Some k \<longrightarrow> job_id n \<le> job_id j)"
    (is "_ \<longleftrightarrow> ?top j")
proof
  assume l: "latest_job rs k = Some j"
  from first_by_Some [OF l [unfolded latest_job_def]] show "?top j" by auto
next
  assume top: "?top j"
  then have "latest_job rs k \<noteq> None" by (auto simp: latest_job_def filter_empty_conv)
  then obtain q where q: "latest_job rs k = Some q" by blast
  from first_by_Some [OF q [unfolded latest_job_def]]
  have "q \<in> set rs" "job_kind q = ''process_item''" "dedupe_key q = Some k" "job_id j \<le> job_id q"
    using top by auto
  with top have "job_id q = job_id j" by (auto intro: le_antisym)
  with distinct_map_inj [OF assms, of q j] \<open>q \<in> set rs\<close> top q show "latest_job rs k = Some j" by simp
qed

text \<open>
  C28: retention never changes which job is the newest of its key, so a key reads as blocked
  before a pass exactly when it does after it: no delete promotes an older parked job. Live,
  parked and failed jobs, and events of an audit source, are never deleted.
\<close>

theorem retention_keeps_the_newest:
  assumes "fair p" and "0 < n" and "wf_history d" and "apply_retention p n clocks fails d = (d', counts)"
  shows "latest_job (h_jobs d') k = latest_job (h_jobs d) k \<and>
    parked_by_latest_job (h_jobs d') = parked_by_latest_job (h_jobs d) \<and>
    (\<forall>j \<in> set (h_jobs d). job_state j \<notin> {Done, Done_with_warnings, Dismissed} \<longrightarrow> j \<in> set (h_jobs d')) \<and>
    (\<forall>e \<in> set (h_events d). e_source e \<notin> set PRUNED_EVENT_SOURCES \<longrightarrow> e \<in> set (h_events d'))"
proof -
  let ?now = "clocks ''jobs''"
  have ex: "h_jobs d' = fst (pruned (fails ''jobs'') (old_job ?now (h_jobs d)) (h_jobs d))"
    "h_events d' = fst (pruned (fails ''events_log'') (old_event (clocks ''events_log'') (h_events d)) (h_events d))"
    using assms(4) apply_retention_exact [OF assms(1-3), of clocks fails] by (auto split: prod.splits)
  have d: "distinct (map job_id (h_jobs d))" using assms(3) by (simp add: wf_history_def)
  then have d': "distinct (map job_id (h_jobs d'))" by (simp add: ex pruned_def distinct_map_filter)
  have keep: "latest_job (h_jobs d') k = latest_job (h_jobs d) k" for k
  proof (cases "latest_job (h_jobs d) k")
    case None
    then have "\<forall>j \<in> set (h_jobs d). \<not> (job_kind j = ''process_item'' \<and> dedupe_key j = Some k)"
      by (simp add: latest_job_def filter_empty_conv)
    then show ?thesis using None by (auto simp: latest_job_def filter_empty_conv ex pruned_def)
  next
    case (Some j)
    then have top: "j \<in> set (h_jobs d)" "job_kind j = ''process_item''" "dedupe_key j = Some k"
      "\<forall>n \<in> set (h_jobs d). job_kind n = ''process_item'' \<and> dedupe_key n = Some k \<longrightarrow> job_id n \<le> job_id j"
      unfolding latest_job_iff [OF d] by blast+
    then have "\<not> old_job ?now (h_jobs d) j" by (auto simp: old_job_def newer_row_def not_less)
    then have "latest_job (h_jobs d') k = Some j"
      unfolding latest_job_iff [OF d'] using top by (auto simp: ex pruned_def)
    with Some show ?thesis by simp
  qed
  moreover have "parked_by_latest_job (h_jobs d') = parked_by_latest_job (h_jobs d)"
    by (simp add: parked_by_latest_job_def keep)
  ultimately show ?thesis
    by (auto simp: ex pruned_def old_job_def old_event_def PRUNABLE_JOB_STATES_def)
qed

theorem retention_keeps_the_newest_witness:
  "\<exists>d' counts. apply_retention backwards 1 (\<lambda>_. days 100) (\<lambda>_. False) full_history = (d', counts) \<and>
     parked_by_latest_job (h_jobs d') = parked_by_latest_job (h_jobs full_history)"
proof -
  obtain d' counts where r: "apply_retention backwards 1 (\<lambda>_. days 100) (\<lambda>_. False) full_history = (d', counts)"
    by fastforce
  from retention_keeps_the_newest [OF full_history_ok(1) _ full_history_ok(2) r] r show ?thesis by simp
qed

end
