(* ===== verification/Guard.thy ===== *)
theory Guard
  imports Text "HOL-Library.Word"
begin

text \<open>
  The guard in front of every address an operator types (\<open>net/guard.py\<close>). An address is a
  word of 32 or of 128 bits; the categories are those of Python's \<open>ipaddress\<close> module, with the
  tables of the release the service runs on (3.14). A URL and its \<open>join\<close> are httpx's, so
  they are arguments, and so are the resolver's answers and the responses of the other end.
\<close>

subsection \<open>Addresses\<close>

datatype ip = V4 "32 word" | V6 "128 word"

definition in_net4 :: "32 word \<Rightarrow> 32 word \<times> nat \<Rightarrow> bool" where
  "in_net4 a n = (drop_bit (32 - snd n) a = drop_bit (32 - snd n) (fst n))"

definition in_net6 :: "128 word \<Rightarrow> 128 word \<times> nat \<Rightarrow> bool" where
  "in_net6 a n = (drop_bit (128 - snd n) a = drop_bit (128 - snd n) (fst n))"

definition quad :: "int \<Rightarrow> int \<Rightarrow> int \<Rightarrow> int \<Rightarrow> 32 word" where
  "quad a b c d = word_of_int (((a * 256 + b) * 256 + c) * 256 + d)"

text \<open>The two most significant groups of an IPv6 network, and the rest zero.\<close>

definition groups :: "int \<Rightarrow> int \<Rightarrow> int \<Rightarrow> 128 word" where
  "groups a b c = word_of_int (((a * 65536 + b) * 65536 + c) * 2 ^ 80)"

definition private4 :: "(32 word \<times> nat) list" where
  "private4 = [(quad 0 0 0 0, 8), (quad 10 0 0 0, 8), (quad 127 0 0 0, 8), (quad 169 254 0 0, 16),
     (quad 172 16 0 0, 12), (quad 192 0 0 0, 24), (quad 192 0 0 170, 31), (quad 192 0 2 0, 24),
     (quad 192 168 0 0, 16), (quad 198 18 0 0, 15), (quad 198 51 100 0, 24),
     (quad 203 0 113 0, 24), (quad 240 0 0 0, 4), (quad 255 255 255 255, 32)]"

definition private4_exceptions :: "(32 word \<times> nat) list" where
  "private4_exceptions = [(quad 192 0 0 9, 32), (quad 192 0 0 10, 32)]"

definition private6 :: "(128 word \<times> nat) list" where
  "private6 = [(1, 128), (0, 128), (281470681743360, 96), (groups 0x64 0xff9b 1, 48),
     (groups 0x100 0 0, 64), (groups 0x2001 0 0, 23), (groups 0x2001 0xdb8 0, 32),
     (groups 0x2002 0 0, 16), (groups 0x3fff 0 0, 20), (groups 0xfc00 0 0, 7),
     (groups 0xfe80 0 0, 10)]"

definition private6_exceptions :: "(128 word \<times> nat) list" where
  "private6_exceptions = [(groups 0x2001 1 0 + 1, 128), (groups 0x2001 1 0 + 2, 128),
     (groups 0x2001 3 0, 32), (groups 0x2001 4 0x112, 48), (groups 0x2001 0x20 0, 28),
     (groups 0x2001 0x30 0, 28)]"

definition reserved6 :: "(128 word \<times> nat) list" where
  "reserved6 = [(0, 8), (groups 0x100 0 0, 8), (groups 0x200 0 0, 7), (groups 0x400 0 0, 6),
     (groups 0x800 0 0, 5), (groups 0x1000 0 0, 4), (groups 0x4000 0 0, 3),
     (groups 0x6000 0 0, 3), (groups 0x8000 0 0, 3), (groups 0xa000 0 0, 3),
     (groups 0xc000 0 0, 3), (groups 0xe000 0 0, 4), (groups 0xf000 0 0, 5),
     (groups 0xf800 0 0, 6), (groups 0xfe00 0 0, 9)]"

text \<open>\<open>ipv4_mapped\<close>: \<open>::ffff:0:0/96\<close>.\<close>

definition ipv4_mapped :: "128 word \<Rightarrow> 32 word option" where
  "ipv4_mapped a = (if drop_bit 32 a = 0xffff then Some (ucast a) else None)"

text \<open>The properties of an address, each delegating to the mapped one where there is one.\<close>

definition via_mapped :: "(32 word \<Rightarrow> bool) \<Rightarrow> (128 word \<Rightarrow> bool) \<Rightarrow> ip \<Rightarrow> bool" where
  "via_mapped p4 p6 ip = (case ip of V4 a \<Rightarrow> p4 a
     | V6 a \<Rightarrow> (case ipv4_mapped a of Some m \<Rightarrow> p4 m | None \<Rightarrow> p6 a))"

definition is_loopback :: "ip \<Rightarrow> bool" where
  "is_loopback = via_mapped (\<lambda>a. in_net4 a (quad 127 0 0 0, 8)) (\<lambda>a. a = 1)"

definition is_link_local :: "ip \<Rightarrow> bool" where
  "is_link_local = via_mapped (\<lambda>a. in_net4 a (quad 169 254 0 0, 16)) (\<lambda>a. in_net6 a (groups 0xfe80 0 0, 10))"

definition is_private :: "ip \<Rightarrow> bool" where
  "is_private = via_mapped
     (\<lambda>a. list_ex (in_net4 a) private4 \<and> \<not> list_ex (in_net4 a) private4_exceptions)
     (\<lambda>a. list_ex (in_net6 a) private6 \<and> \<not> list_ex (in_net6 a) private6_exceptions)"

definition is_reserved :: "ip \<Rightarrow> bool" where
  "is_reserved = via_mapped (\<lambda>a. in_net4 a (quad 240 0 0 0, 4)) (\<lambda>a. list_ex (in_net6 a) reserved6)"

definition is_multicast :: "ip \<Rightarrow> bool" where
  "is_multicast = via_mapped (\<lambda>a. in_net4 a (quad 224 0 0 0, 4)) (\<lambda>a. in_net6 a (groups 0xff00 0 0, 8))"

definition is_unspecified :: "ip \<Rightarrow> bool" where
  "is_unspecified = via_mapped (\<lambda>a. a = 0) (\<lambda>a. a = 0)"

subsection \<open>ip\_address\<close>

definition parse_octet :: "string \<Rightarrow> nat option" where
  "parse_octet s = (if s = [] \<or> \<not> list_all is_digit s \<or> 3 < length s \<or> s \<noteq> ''0'' \<and> hd s = CHR ''0'' \<or> 255 < value_of s
     then None else Some (value_of s))"

definition parse_v4 :: "string \<Rightarrow> int option" where
  "parse_v4 s = (let octets = split_on CHR ''.'' s in
     if length octets \<noteq> 4 then None
     else map_option (foldl (\<lambda>a d. a * 256 + int d) 0) (those_of parse_octet octets))"

definition hex_value :: "char \<Rightarrow> int option" where
  "hex_value c = (let n = int (code c) in
     if is_digit c then Some (n - 48)
     else if 65 \<le> n \<and> n \<le> 70 then Some (n - 55)
     else if 97 \<le> n \<and> n \<le> 102 then Some (n - 87) else None)"

text \<open>\<open>_parse_hextet\<close>; \<open>int('', 16)\<close> raises as the other failures do.\<close>

definition parse_hextet :: "string \<Rightarrow> int option" where
  "parse_hextet s = (if s = [] \<or> 4 < length s then None
     else map_option (foldl (\<lambda>a h. a * 16 + h) 0) (those_of hex_value s))"

text \<open>The parts of an address with its IPv4 tail, if it has one, as two groups.\<close>

definition hextets :: "string list \<Rightarrow> int list option" where
  "hextets parts = (if parts \<noteq> [] \<and> CHR ''.'' \<in> set (last parts)
     then (case (those_of parse_hextet (butlast parts), parse_v4 (last parts)) of
       (Some hs, Some q) \<Rightarrow> Some (hs @ [q div 65536, q mod 65536]) | _ \<Rightarrow> None)
     else those_of parse_hextet parts)"

definition from_hextets :: "int list \<Rightarrow> 128 word" where
  "from_hextets hs = word_of_int (foldl (\<lambda>a h. a * 65536 + h) 0 hs)"

text \<open>
  \<open>_ip_int_from_string\<close>: at most one \<open>::\<close>, which stands for at least one group of zeroes and is
  the only place where the text may open or close with a colon.
\<close>

definition parse_v6 :: "string \<Rightarrow> 128 word option" where
  "parse_v6 s = (let parts = split_on CHR '':'' s;
       gaps = filter (\<lambda>i. parts ! i = []) [1 ..< length parts - 1];
       extra = (if CHR ''.'' \<in> set (last parts) then 1 else 0)
     in if length parts < 3 \<or> 9 < length parts + extra then None
     else (case gaps of
       [] \<Rightarrow> if length parts + extra \<noteq> 8 then None else map_option from_hextets (hextets parts)
     | [g] \<Rightarrow> (let above = take g parts; below = drop (Suc g) parts;
           hi = (if above = [[]] then [] else above);
           lo = (if below = [[]] then [] else below)
         in case (those_of parse_hextet hi, hextets lo) of
              (Some hs, Some ls) \<Rightarrow> if length hs + length ls \<ge> 8 then None
                else Some (from_hextets (hs @ replicate (8 - (length hs + length ls)) 0 @ ls))
            | _ \<Rightarrow> None)
     | _ \<Rightarrow> None))"

text \<open>\<open>_split_scope_id\<close>: the scope is dropped; it may be neither empty nor hold another \<open>%\<close>.\<close>

definition without_scope :: "string \<Rightarrow> string option" where
  "without_scope s = (case split_on CHR ''%'' s of [a] \<Rightarrow> Some a
     | [a, z] \<Rightarrow> if z = [] then None else Some a | _ \<Rightarrow> None)"

definition ip_address :: "string \<Rightarrow> ip option" where
  "ip_address s = (case parse_v4 s of Some n \<Rightarrow> Some (V4 (word_of_int n))
     | None \<Rightarrow> if CHR ''/'' \<in> set s then None
               else (case without_scope s of None \<Rightarrow> None | Some a \<Rightarrow> map_option V6 (parse_v6 a)))"

subsection \<open>The guard\<close>

definition ALLOWED_SCHEMES :: "string list" where
  "ALLOWED_SCHEMES = [''http'', ''https'']"

definition MAX_REDIRECTS :: nat where
  "MAX_REDIRECTS = 3"

definition REDIRECT_STATUSES :: "int list" where
  "REDIRECT_STATUSES = [301, 302, 303, 307, 308]"

definition SHARED_ADDRESS_SPACE :: "32 word \<times> nat" where
  "SHARED_ADDRESS_SPACE = (quad 100 64 0 0, 10)"

definition default_port :: "string \<Rightarrow> nat" where
  "default_port scheme = (if scheme = ''https'' then 443 else 80)"

text \<open>The first category in the code's order.\<close>

definition blocked_category :: "ip \<Rightarrow> string option" where
  "blocked_category ip = map_option fst (List.find (\<lambda>c. snd c ip)
     [(''loopback'', is_loopback), (''link-local'', is_link_local), (''private'', is_private),
      (''reserved'', is_reserved), (''multicast'', is_multicast), (''unspecified'', is_unspecified)])"

definition ip_refusal :: "ip \<Rightarrow> string option" where
  "ip_refusal ip = (case blocked_category ip of
     Some name \<Rightarrow> Some (''the host resolves to a '' @ name @ '' address'')
   | None \<Rightarrow>
     (case (case ip of V6 a \<Rightarrow> ipv4_mapped a | V4 a \<Rightarrow> Some a) of
        Some a \<Rightarrow> if in_net4 a SHARED_ADDRESS_SPACE
          then Some ''the host resolves to a shared address space (CGNAT, RFC 6598) address'' else None
      | None \<Rightarrow> None))"

definition address_refusal :: "string \<Rightarrow> string option" where
  "address_refusal address = (case ip_address address of
     None \<Rightarrow> Some ''an address that could not be classified'' | Some ip \<Rightarrow> ip_refusal ip)"

record url =
  u_scheme :: string
  u_host :: string
  u_port :: "nat option"
  u_path :: string

text \<open>The two refusals, and a transport error of httpx, which is not one of them.\<close>

datatype fetch_error = TargetRefused string | BodyRefused string | HttpError

definition hop_text :: "nat \<Rightarrow> string" where
  "hop_text hop = '' (hop '' @ nat_digits hop @ '')''"

text \<open>\<open>url.port or _DEFAULT_PORTS[url.scheme]\<close>.\<close>

definition port_of :: "url \<Rightarrow> nat" where
  "port_of u = (case u_port u of None \<Rightarrow> default_port (u_scheme u)
     | Some p \<Rightarrow> if p = 0 then default_port (u_scheme u) else p)"

text \<open>\<open>resolve_host\<close> answers \<open>None\<close> for an \<open>OSError\<close>.\<close>

definition validate_target ::
  "(string \<Rightarrow> nat \<Rightarrow> string list option) \<Rightarrow> url \<Rightarrow> nat \<Rightarrow> fetch_error + unit" where
  "validate_target resolve_host u hop =
     (if u_scheme u \<notin> set ALLOWED_SCHEMES
      then Inl (TargetRefused (''the scheme is not http or https'' @ hop_text hop))
      else if u_host u = [] then Inl (TargetRefused (''the URL has no host'' @ hop_text hop))
      else (case resolve_host (u_host u) (port_of u) of
        None \<Rightarrow> Inl (TargetRefused (''the host does not resolve'' @ hop_text hop))
      | Some [] \<Rightarrow> Inl (TargetRefused (''the host does not resolve'' @ hop_text hop))
      | Some addresses \<Rightarrow> (case List.find (\<lambda>a. address_refusal a \<noteq> None) addresses of
           None \<Rightarrow> Inr ()
         | Some a \<Rightarrow> Inl (TargetRefused (the (address_refusal a) @ hop_text hop)))))"

subsection \<open>Keeping a body\<close>

record http_answer =
  r_status :: int
  r_location :: "string option"
  r_type :: "string option"
  r_chunks :: "8 word list list"
  r_broken :: bool

text \<open>
  Chunk by chunk, until one passes the cap. The file holds what was written before; \<open>r_broken\<close>
  is a body whose stream fails after its last chunk.
\<close>

fun write_chunks :: "int \<Rightarrow> 8 word list \<Rightarrow> 8 word list list \<Rightarrow> 8 word list \<times> bool" where
  "write_chunks cap written [] = (written, True)"
| "write_chunks cap written (chunk # cs) =
     (if cap < int (length written + length chunk) then (written, False)
      else write_chunks cap (written @ chunk) cs)"

definition media_type :: "http_answer \<Rightarrow> string" where
  "media_type r = lower (strip (hd (split_on CHR '';'' (case r_type r of None \<Rightarrow> [] | Some t \<Rightarrow> t))))"

text \<open>What is in the file afterwards (\<open>None\<close> if it was not opened), and the verdict.\<close>

definition store_body ::
  "int \<Rightarrow> string list \<Rightarrow> http_answer \<Rightarrow> 8 word list option \<times> (fetch_error + unit)" where
  "store_body max_bytes content_types r =
     (if 400 \<le> r_status r then (None, Inl (BodyRefused (''status '' @ int_digits (r_status r))))
      else if media_type r \<notin> set content_types
      then (None, Inl (BodyRefused ''content type outside the artwork allowlist''))
      else (case write_chunks max_bytes [] (r_chunks r) of (written, fits) \<Rightarrow>
        (Some written,
         if \<not> fits then Inl (BodyRefused ''image exceeded the size cap'')
         else if r_broken r then Inl HttpError
         else if written = [] then Inl (BodyRefused ''empty body'') else Inr ())))"

subsection \<open>Following redirects\<close>

record download =
  d_requests :: "(nat \<times> url) list"
  d_file :: "8 word list option"
  d_result :: "fetch_error + unit"

definition refused_at :: "(nat \<times> url) list \<Rightarrow> fetch_error \<Rightarrow> download" where
  "refused_at made e = \<lparr>d_requests = made, d_file = None, d_result = Inl e\<rparr>"

text \<open>
  The loop from \<open>hop\<close> on, with \<open>fuel\<close> hops left of the range: \<open>made\<close> are the requests so far.
  The resolver is asked anew at every hop, and \<open>respond\<close> is the other end's answer to the
  request of that hop (\<open>None\<close> for a transport error).
\<close>

fun follow ::
  "(nat \<Rightarrow> string \<Rightarrow> nat \<Rightarrow> string list option) \<Rightarrow> (url \<Rightarrow> string \<Rightarrow> url option) \<Rightarrow>
   (nat \<Rightarrow> url \<Rightarrow> http_answer option) \<Rightarrow> int \<Rightarrow> string list \<Rightarrow> nat \<Rightarrow> nat \<Rightarrow> (nat \<times> url) list \<Rightarrow> url \<Rightarrow> download" where
  "follow res join_url respond cap types 0 hop made current =
     refused_at made (TargetRefused (''more than '' @ nat_digits MAX_REDIRECTS @ '' redirects''))"
| "follow res join_url respond cap types (Suc fuel) hop made current =
     (case validate_target (res hop) current hop of
        Inl e \<Rightarrow> refused_at made e
      | Inr _ \<Rightarrow>
        (let made' = made @ [(hop, current)] in
         case respond hop current of
           None \<Rightarrow> refused_at made' HttpError
         | Some r \<Rightarrow>
           if r_status r \<in> set REDIRECT_STATUSES
           then (case r_location r of
               None \<Rightarrow> refused_at made' (TargetRefused (''a redirect carrying no location'' @ hop_text hop))
             | Some l \<Rightarrow>
               if l = [] then refused_at made' (TargetRefused (''a redirect carrying no location'' @ hop_text hop))
               else (case join_url current l of
                   None \<Rightarrow> refused_at made' (TargetRefused (''a redirect location that does not parse'' @ hop_text hop))
                 | Some u \<Rightarrow> follow res join_url respond cap types fuel (Suc hop) made' u))
           else (case store_body cap types r of (f, verdict) \<Rightarrow>
             \<lparr>d_requests = made', d_file = f, d_result = verdict\<rparr>)))"

definition guarded_download ::
  "(nat \<Rightarrow> string \<Rightarrow> nat \<Rightarrow> string list option) \<Rightarrow> (string \<Rightarrow> url option) \<Rightarrow> (url \<Rightarrow> string \<Rightarrow> url option) \<Rightarrow>
   (nat \<Rightarrow> url \<Rightarrow> http_answer option) \<Rightarrow> int \<Rightarrow> string list \<Rightarrow> string \<Rightarrow> download" where
  "guarded_download res parse_url join_url respond max_bytes content_types text =
     (case parse_url text of
        None \<Rightarrow> refused_at [] (TargetRefused ''the source is not a parsable URL'')
      | Some u \<Rightarrow> follow res join_url respond max_bytes content_types (MAX_REDIRECTS + 1) 0 [] u)"

end
