(* ===== verification/Guard_Props.thy ===== *)
theory Guard_Props
  imports Guard
begin

text \<open>
  What the guard lets through: the categories of an address as intervals, and what every
  request of a guarded download is known to satisfy.
\<close>

subsection \<open>Networks as intervals\<close>

definition between :: "int \<Rightarrow> int \<Rightarrow> int \<Rightarrow> bool" where
  "between n l u \<longleftrightarrow> l \<le> n \<and> n < u"

lemma div_eq_interval:
  fixes n d q :: int
  assumes "0 < d"
  shows "n div d = q \<longleftrightarrow> between n (q * d) ((q + 1) * d)"
proof
  assume "n div d = q"
  then have "n = q * d + n mod d" using div_mult_mod_eq [of n d] by simp
  with assms show "between n (q * d) ((q + 1) * d)" unfolding between_def
    using pos_mod_sign [OF assms, of n] pos_mod_bound [OF assms, of n] by (simp add: algebra_simps)
next
  assume "between n (q * d) ((q + 1) * d)"
  then have "n = q * d + (n - q * d)" "0 \<le> n - q * d" "n - q * d < d"
    by (simp_all add: between_def algebra_simps)
  then show "n div d = q" by (metis add.commute div_pos_pos_trivial assms div_mult_self1 less_irrefl add_0)
qed

lemma uint_drop_bit: "uint (drop_bit k (a::'a::len word)) = uint a div 2 ^ k"
  by (simp only: unsigned_drop_bit_eq) (simp only: take_bit_int_eq_self uint_ge_0 uint_lt2p drop_bit_eq_div)

lemma drop_bit_interval:
  fixes a b :: "'a::len word"
  shows "drop_bit k a = drop_bit k b \<longleftrightarrow>
    between (uint a) (uint b div 2 ^ k * 2 ^ k) ((uint b div 2 ^ k + 1) * 2 ^ k)"
  unfolding word_uint_eq_iff uint_drop_bit by (simp add: div_eq_interval)

lemma in_net4_interval:
  "in_net4 a (b, len) \<longleftrightarrow> between (uint a) (uint b div 2 ^ (32 - len) * 2 ^ (32 - len))
     ((uint b div 2 ^ (32 - len) + 1) * 2 ^ (32 - len))"
  by (simp add: in_net4_def drop_bit_interval)

lemma in_net6_interval:
  "in_net6 a (b, len) \<longleftrightarrow> between (uint a) (uint b div 2 ^ (128 - len) * 2 ^ (128 - len))
     ((uint b div 2 ^ (128 - len) + 1) * 2 ^ (128 - len))"
  by (simp add: in_net6_def drop_bit_interval)

lemma between_merge:
  "l \<le> m \<Longrightarrow> m \<le> u \<Longrightarrow> between n l m \<or> between n m u \<longleftrightarrow> between n l u"
  "l \<le> m \<Longrightarrow> m \<le> u \<Longrightarrow> between n l m \<or> between n m u \<or> R \<longleftrightarrow> between n l u \<or> R"
  by (auto simp: between_def)

subsection \<open>The categories\<close>

text \<open>The IPv4 ranges the guard means to refuse, as first address and number of addresses.\<close>

definition forbidden4 :: "int \<Rightarrow> bool" where
  "forbidden4 n \<longleftrightarrow> between n 0 0x1000000 \<or> between n 0xa000000 0xb000000 \<or>
     between n 0x64400000 0x64800000 \<or> between n 0x7f000000 0x80000000 \<or>
     between n 0xa9fe0000 0xa9ff0000 \<or> between n 0xac100000 0xac200000 \<or>
     between n 0xc0000000 0xc0000100 \<and> n \<noteq> 0xc0000009 \<and> n \<noteq> 0xc000000a \<or>
     between n 0xc0000200 0xc0000300 \<or> between n 0xc0a80000 0xc0a90000 \<or>
     between n 0xc6120000 0xc6140000 \<or> between n 0xc6336400 0xc6336500 \<or>
     between n 0xcb007100 0xcb007200 \<or> between n 0xe0000000 0x100000000"

text \<open>What passes of IPv6: global unicast less its special ranges, and the site-local block.\<close>

definition passes6 :: "int \<Rightarrow> bool" where
  "passes6 n \<longleftrightarrow> between n (0xfec0 * 2 ^ 112) (0xff00 * 2 ^ 112) \<or>
     between n (0x2000 * 2 ^ 112) (0x4000 * 2 ^ 112) \<and>
     \<not> between n (0x2002 * 2 ^ 112) (0x2003 * 2 ^ 112) \<and>
     \<not> between n (0x20010db8 * 2 ^ 96) (0x20010db9 * 2 ^ 96) \<and>
     \<not> between n (0x3fff0 * 2 ^ 108) (0x3fff1 * 2 ^ 108) \<and>
     (between n (0x2001 * 2 ^ 112) (0x20010200 * 2 ^ 96) \<longrightarrow>
        between n (0x20010001 * 2 ^ 96 + 1) (0x20010001 * 2 ^ 96 + 3) \<or>
        between n (0x20010003 * 2 ^ 96) (0x20010004 * 2 ^ 96) \<or>
        between n (0x200100040112 * 2 ^ 80) (0x200100040113 * 2 ^ 80) \<or>
        between n (0x2001002 * 2 ^ 100) (0x2001004 * 2 ^ 100))"

definition passes :: "ip \<Rightarrow> bool" where
  "passes ip = via_mapped (\<lambda>a. \<not> forbidden4 (uint a)) (\<lambda>a. passes6 (uint a)) ip"

lemma blocked_None: "blocked_category ip = None \<longleftrightarrow> \<not> is_loopback ip \<and> \<not> is_link_local ip \<and>
    \<not> is_private ip \<and> \<not> is_reserved ip \<and> \<not> is_multicast ip \<and> \<not> is_unspecified ip"
  by (simp add: blocked_category_def)

lemmas categories = is_loopback_def is_link_local_def is_private_def is_reserved_def
  is_multicast_def is_unspecified_def via_mapped_def

lemma between_sub: "between n l u \<Longrightarrow> l' \<le> l \<Longrightarrow> u \<le> u' \<Longrightarrow> between n l' u'"
  by (simp add: between_def)

lemma between_apart: "between n l u \<Longrightarrow> u \<le> l' \<or> u' \<le> l \<Longrightarrow> \<not> between n l' u'"
  by (auto simp: between_def)

lemma v4_passes: "ip_refusal (V4 a) = None \<longleftrightarrow> \<not> forbidden4 (uint a)"
proof -
  let ?n = "uint a"
  have b: "0 \<le> ?n" "?n < 0x100000000" using uint_lt2p [of a] by simp_all
  have r: "ip_refusal (V4 a) = None \<longleftrightarrow> blocked_category (V4 a) = None \<and> \<not> in_net4 a SHARED_ADDRESS_SPACE"
    by (simp add: ip_refusal_def split: option.split)
  have parts: "between ?n 3221225642 3221225644 \<Longrightarrow> between ?n 3221225472 3221225728"
    "between ?n 4294967295 4294967296 \<Longrightarrow> between ?n 4026531840 4294967296"
    "?n = 0 \<Longrightarrow> between ?n 0 16777216"
    "between ?n 3758096384 4294967296 \<longleftrightarrow> between ?n 3758096384 4026531840 \<or> between ?n 4026531840 4294967296"
    by (auto simp: between_def)
  show ?thesis
  proof (cases "?n = 0xc0000009 \<or> ?n = 0xc000000a")
    case True
    then show ?thesis unfolding r
      by (elim disjE) (simp_all add: blocked_None categories private4_def private4_exceptions_def
          quad_def in_net4_interval SHARED_ADDRESS_SPACE_def forbidden4_def between_def flip: uint_0_iff)
  next
    case False
    then have "\<not> between ?n 3221225481 3221225482" "\<not> between ?n 3221225482 3221225483"
      by (auto simp: between_def)
    with False show ?thesis unfolding r forbidden4_def
      by (simp add: blocked_None categories private4_def private4_exceptions_def
          quad_def in_net4_interval SHARED_ADDRESS_SPACE_def flip: uint_0_iff) (use parts in blast)
  qed
qed

lemma uint_1: "a = 1 \<longleftrightarrow> uint (a :: 128 word) = 1"
  by (simp add: word_uint_eq_iff)

lemma private6_ranges: "list_ex (in_net6 a) private6 \<longleftrightarrow>
    between (uint a) 1 2 \<or> between (uint a) 0 1 \<or> between (uint a) 281470681743360 281474976710656 \<or>
    between (uint a) (0x64ff9b0001 * 2 ^ 80) (0x64ff9b0002 * 2 ^ 80) \<or>
    between (uint a) (0x100 * 2 ^ 112) (0x100 * 2 ^ 112 + 2 ^ 64) \<or>
    between (uint a) (0x2001 * 2 ^ 112) (0x20010200 * 2 ^ 96) \<or>
    between (uint a) (0x20010db8 * 2 ^ 96) (0x20010db9 * 2 ^ 96) \<or>
    between (uint a) (0x2002 * 2 ^ 112) (0x2003 * 2 ^ 112) \<or>
    between (uint a) (0x3fff0 * 2 ^ 108) (0x3fff1 * 2 ^ 108) \<or>
    between (uint a) (0xfc00 * 2 ^ 112) (0xfe00 * 2 ^ 112) \<or>
    between (uint a) (0xfe80 * 2 ^ 112) (0xfec0 * 2 ^ 112)"
  by (simp add: private6_def groups_def in_net6_interval)

lemma exceptions6_ranges: "list_ex (in_net6 a) private6_exceptions \<longleftrightarrow>
    between (uint a) (0x20010001 * 2 ^ 96 + 1) (0x20010001 * 2 ^ 96 + 3) \<or>
    between (uint a) (0x20010003 * 2 ^ 96) (0x20010004 * 2 ^ 96) \<or>
    between (uint a) (0x200100040112 * 2 ^ 80) (0x200100040113 * 2 ^ 80) \<or>
    between (uint a) (0x2001002 * 2 ^ 100) (0x2001004 * 2 ^ 100)"
  by (simp add: private6_exceptions_def groups_def in_net6_interval between_merge)

lemma reserved6_ranges: "list_ex (in_net6 a) reserved6 \<longleftrightarrow> between (uint a) 0 (0x2000 * 2 ^ 112) \<or>
    between (uint a) (0x4000 * 2 ^ 112) (0xfc00 * 2 ^ 112) \<or> between (uint a) (0xfe00 * 2 ^ 112) (0xfe80 * 2 ^ 112)"
  by (simp add: reserved6_def groups_def in_net6_interval between_merge)

lemma scopes6_ranges: "in_net6 a (groups 0xfe80 0 0, 10) \<longleftrightarrow> between (uint a) (0xfe80 * 2 ^ 112) (0xfec0 * 2 ^ 112)"
  "in_net6 a (groups 0xff00 0 0, 8) \<longleftrightarrow> between (uint a) (0xff00 * 2 ^ 112) (2 ^ 128)"
  by (simp_all add: groups_def in_net6_interval)

lemma v6_passes:
  assumes "ipv4_mapped a = None"
  shows "blocked_category (V6 a) = None \<longleftrightarrow> passes6 (uint a)"
proof -
  let ?n = "uint a"
  have b: "0 \<le> ?n" "?n < 2 ^ 128" using uint_lt2p [of a] by simp_all
  note atoms = blocked_None categories private6_ranges exceptions6_ranges reserved6_ranges scopes6_ranges assms
    uint_1 uint_0_iff [symmetric]
  consider "between ?n 0 (0x2000 * 2 ^ 112)" | "between ?n (0x2000 * 2 ^ 112) (0x4000 * 2 ^ 112)"
    | "between ?n (0x4000 * 2 ^ 112) (0xfe80 * 2 ^ 112)" | "between ?n (0xfe80 * 2 ^ 112) (0xfec0 * 2 ^ 112)"
    | "between ?n (0xfec0 * 2 ^ 112) (0xff00 * 2 ^ 112)" | "between ?n (0xff00 * 2 ^ 112) (2 ^ 128)"
    unfolding between_def using b by linarith
  then show ?thesis
  proof cases
    case 1
    with between_apart [OF this] show ?thesis by (simp add: atoms passes6_def)
  next
    case 2
    note far = between_apart [OF this]
    from 2 have "?n \<noteq> 0" "?n \<noteq> 1" by (auto simp: between_def)
    with far have specials: "blocked_category (V6 a) = None \<longleftrightarrow>
        \<not> between ?n (0x2001 * 2 ^ 112) (0x20010200 * 2 ^ 96) \<and> \<not> between ?n (0x20010db8 * 2 ^ 96) (0x20010db9 * 2 ^ 96) \<and>
        \<not> between ?n (0x2002 * 2 ^ 112) (0x2003 * 2 ^ 112) \<and> \<not> between ?n (0x3fff0 * 2 ^ 108) (0x3fff1 * 2 ^ 108) \<or>
        list_ex (in_net6 a) private6_exceptions"
      by (simp add: atoms)
    from 2 far have near: "between ?n (0x2000 * 2 ^ 112) (0x4000 * 2 ^ 112)" "\<not> between ?n (0xfec0 * 2 ^ 112) (0xff00 * 2 ^ 112)"
      by simp_all
    show ?thesis
    proof (cases "between ?n (0x2001 * 2 ^ 112) (0x20010200 * 2 ^ 96)")
      case True
      then have "\<not> between ?n (0x20010db8 * 2 ^ 96) (0x20010db9 * 2 ^ 96)" "\<not> between ?n (0x2002 * 2 ^ 112) (0x2003 * 2 ^ 112)"
        "\<not> between ?n (0x3fff0 * 2 ^ 108) (0x3fff1 * 2 ^ 108)"
        by (simp_all add: between_def)
      with True specials near show ?thesis by (simp add: exceptions6_ranges passes6_def)
    next
      case False
      then have "\<not> list_ex (in_net6 a) private6_exceptions"
        by (auto simp: exceptions6_ranges between_def)
      with False specials near show ?thesis by (simp add: passes6_def) blast
    qed
  next
    case 3
    then have "between ?n (0x4000 * 2 ^ 112) (0xfc00 * 2 ^ 112) \<or> between ?n (0xfc00 * 2 ^ 112) (0xfe00 * 2 ^ 112) \<or>
        between ?n (0xfe00 * 2 ^ 112) (0xfe80 * 2 ^ 112)"
      unfolding between_def by linarith
    with between_apart [OF 3] show ?thesis by (elim disjE) (simp_all add: atoms passes6_def)
  next
    case 4
    with between_apart [OF this] show ?thesis by (simp add: atoms passes6_def)
  next
    case 5
    moreover from this have "?n \<noteq> 0" "?n \<noteq> 1" by (auto simp: between_def)
    ultimately show ?thesis using between_apart [OF 5] by (simp add: atoms passes6_def)
  next
    case 6
    with between_apart [OF this] show ?thesis by (simp add: atoms passes6_def)
  qed
qed

lemma mapped_refusal: "ipv4_mapped a = Some m \<Longrightarrow> ip_refusal (V6 a) = ip_refusal (V4 m)"
  by (simp add: ip_refusal_def blocked_category_def categories)

lemma v6_refusal: "ipv4_mapped a = None \<Longrightarrow> ip_refusal (V6 a) = None \<longleftrightarrow> passes6 (uint a)"
  using v6_passes [of a] by (cases "blocked_category (V6 a)") (simp_all add: ip_refusal_def)

lemma ip_refusal_passes: "ip_refusal ip = None \<longleftrightarrow> passes ip"
  by (cases ip) (auto simp: passes_def via_mapped_def v4_passes mapped_refusal v6_refusal split: option.split)

text \<open>
  C33: the guard refuses exactly what it should, up to one block. An IPv4 address passes iff it
  is in none of the thirteen special ranges (cloud metadata, loopback, the private networks,
  CGNAT among them); an IPv4-mapped IPv6 address is judged, with the same words, as the IPv4
  address it maps; any other IPv6 address passes iff it is global unicast outside the special
  ranges, or site-local (\<open>fec0::/10\<close>, the one private block the categories miss). NAT64
  (\<open>64:ff9b::/96\<close>) and 6to4 (\<open>2002::/16\<close>) literals never pass.
\<close>

theorem refusals_exact:
  "(ip_refusal ip = None \<longleftrightarrow> passes ip) \<and>
   (\<forall>a m. ipv4_mapped a = Some m \<longrightarrow> ip_refusal (V6 a) = ip_refusal (V4 m)) \<and>
   (\<forall>a. between (uint a) (0x64ff9b * 2 ^ 96) (0x64ff9b * 2 ^ 96 + 2 ^ 32) \<or> between (uint a) (0x2002 * 2 ^ 112) (0x2003 * 2 ^ 112) \<longrightarrow>
      ip_refusal (V6 a) \<noteq> None) \<and>
   (\<forall>a. between (uint a) (0xfec0 * 2 ^ 112) (0xff00 * 2 ^ 112) \<longrightarrow> ip_refusal (V6 a) = None)"
proof -
  have big: "ipv4_mapped a = None" if "2 ^ 48 \<le> uint a" for a
  proof -
    have "uint (drop_bit 32 a) = uint a div 2 ^ 32" by (rule uint_drop_bit)
    with that have "uint (drop_bit 32 a) \<noteq> 0xffff" by auto
    then have "drop_bit 32 a \<noteq> 0xffff" by (auto simp: word_uint_eq_iff)
    then show ?thesis by (simp add: ipv4_mapped_def)
  qed
  have "ip_refusal (V6 a) \<noteq> None" if "between (uint a) (0x64ff9b * 2 ^ 96) (0x64ff9b * 2 ^ 96 + 2 ^ 32) \<or>
      between (uint a) (0x2002 * 2 ^ 112) (0x2003 * 2 ^ 112)" for a
  proof -
    from that have "ipv4_mapped a = None" by (intro big) (auto simp: between_def)
    moreover from that have "\<not> passes6 (uint a)"
      by (elim disjE) (simp_all add: passes6_def between_def)
    ultimately show ?thesis using v6_refusal by blast
  qed
  moreover have "ip_refusal (V6 a) = None" if "between (uint a) (0xfec0 * 2 ^ 112) (0xff00 * 2 ^ 112)" for a
  proof -
    from that have "ipv4_mapped a = None" by (intro big) (auto simp: between_def)
    from v6_refusal [OF this] that show ?thesis by (auto simp: passes6_def)
  qed
  ultimately show ?thesis using mapped_refusal ip_refusal_passes by blast
qed

theorem refusals_exact_witness:
  "ip_refusal (V6 (word_of_int (0xfec0 * 2 ^ 112))) = None \<and>
   ip_refusal (V6 (word_of_int (0x2002 * 2 ^ 112 + 1))) \<noteq> None"
proof
  have "between (uint (word_of_int (0xfec0 * 2 ^ 112) :: 128 word)) (0xfec0 * 2 ^ 112) (0xff00 * 2 ^ 112)"
    by (simp add: between_def)
  with refusals_exact show "ip_refusal (V6 (word_of_int (0xfec0 * 2 ^ 112))) = None" by blast
  have "between (uint (word_of_int (0x2002 * 2 ^ 112 + 1) :: 128 word)) (0x2002 * 2 ^ 112) (0x2003 * 2 ^ 112)"
    by (simp add: between_def)
  with refusals_exact show "ip_refusal (V6 (word_of_int (0x2002 * 2 ^ 112 + 1))) \<noteq> None" by blast
qed

subsection \<open>A guarded download\<close>

text \<open>What a URL has to show before it is asked for, given what the resolver says.\<close>

definition cleared :: "(string \<Rightarrow> nat \<Rightarrow> string list option) \<Rightarrow> url \<Rightarrow> bool" where
  "cleared resolve_host u \<longleftrightarrow> u_scheme u \<in> {''http'', ''https''} \<and> u_host u \<noteq> [] \<and>
     (\<exists>as. resolve_host (u_host u) (port_of u) = Some as \<and> as \<noteq> [] \<and>
        (\<forall>a \<in> set as. \<exists>ip. ip_address a = Some ip \<and> passes ip))"

lemma address_refusal_None: "address_refusal a = None \<longleftrightarrow> (\<exists>ip. ip_address a = Some ip \<and> passes ip)"
  by (simp add: address_refusal_def ip_refusal_passes split: option.split)

lemma validate_target_Inr: "validate_target resolve_host u hop = Inr x \<longleftrightarrow> cleared resolve_host u"
proof -
  have "(case List.find (\<lambda>a. address_refusal a \<noteq> None) as of None \<Rightarrow> Inr () | Some a \<Rightarrow> Inl (g a)) = (Inr x :: fetch_error + unit) \<longleftrightarrow>
      (\<forall>a \<in> set as. address_refusal a = None)" for as g
    using find_None [of "\<lambda>a. address_refusal a \<noteq> None" as] by (auto split: option.split)
  then show ?thesis unfolding validate_target_def cleared_def address_refusal_None [symmetric]
    by (auto simp: ALLOWED_SCHEMES_def split: option.split list.split)
qed

text \<open>A body on disk never passes the cap, and is whole where it was kept.\<close>

lemma write_chunks_spec:
  assumes "write_chunks cap w cs = (bs, fits)" and "int (length w) \<le> max 0 cap"
  shows "int (length bs) \<le> max 0 cap \<and> (fits \<longrightarrow> bs = w @ concat cs)"
  using assms by (induction cap w cs rule: write_chunks.induct) (auto split: if_splits)

definition kept_whole :: "int \<Rightarrow> string list \<Rightarrow> http_answer \<Rightarrow> 8 word list option \<Rightarrow> bool" where
  "kept_whole cap types r file \<longleftrightarrow> r_status r < 400 \<and> media_type r \<in> set types \<and> \<not> r_broken r \<and>
     concat (r_chunks r) \<noteq> [] \<and> int (length (concat (r_chunks r))) \<le> cap \<and> file = Some (concat (r_chunks r))"

lemma store_body_spec:
  assumes "store_body cap types r = (file, verdict)"
  shows "(\<forall>bs. file = Some bs \<longrightarrow> int (length bs) \<le> max 0 cap) \<and>
    (verdict = Inr () \<longrightarrow> kept_whole cap types r file)"
proof (cases "400 \<le> r_status r \<or> media_type r \<notin> set types")
  case True
  then show ?thesis using assms by (auto simp: store_body_def split: if_splits prod.splits)
next
  case False
  obtain bs fits where w: "write_chunks cap [] (r_chunks r) = (bs, fits)" by fastforce
  from write_chunks_spec [OF w] have bs: "int (length bs) \<le> max 0 cap" "fits \<longrightarrow> bs = concat (r_chunks r)" by auto
  then have "int (length bs) \<le> cap" if "bs \<noteq> []" using that by (cases bs) (simp_all add: max_def split: if_splits)
  with bs False w assms show ?thesis
    by (auto simp: store_body_def kept_whole_def simp del: concat_eq_Nil_conv split: if_splits)
qed

definition guarded :: "(nat \<Rightarrow> string \<Rightarrow> nat \<Rightarrow> string list option) \<Rightarrow> (nat \<Rightarrow> url \<Rightarrow> http_answer option) \<Rightarrow>
    int \<Rightarrow> string list \<Rightarrow> nat \<Rightarrow> download \<Rightarrow> bool" where
  "guarded res respond cap types most d \<longleftrightarrow>
     map fst (d_requests d) = [0 ..< length (d_requests d)] \<and> length (d_requests d) \<le> most \<and>
     (\<forall>(hop, u) \<in> set (d_requests d). cleared (res hop) u) \<and>
     (\<forall>bs. d_file d = Some bs \<longrightarrow> int (length bs) \<le> max 0 cap) \<and>
     (d_result d = Inr () \<longrightarrow> (\<exists>hop u r. d_requests d \<noteq> [] \<and> last (d_requests d) = (hop, u) \<and>
        respond hop u = Some r \<and> r_status r \<notin> set REDIRECT_STATUSES \<and> kept_whole cap types r (d_file d)))"

lemma follow_guarded:
  assumes "map fst made = [0 ..< hop]" and "\<forall>(h, u) \<in> set made. cleared (res h) u"
  shows "guarded res respond cap types (hop + fuel) (follow res join_url respond cap types fuel hop made current)"
  using assms
proof (induction fuel arbitrary: hop made current)
  case 0
  then have "length made = hop" by (metis length_map length_upt minus_nat.diff_0)
  with 0 show ?case by (simp add: guarded_def refused_at_def)
next
  case (Suc fuel)
  then have len: "length made = hop" by (metis length_map length_upt minus_nat.diff_0)
  show ?case
  proof (cases "validate_target (res hop) current hop")
    case (Inl e)
    with Suc.prems len show ?thesis by (simp add: guarded_def refused_at_def)
  next
    case (Inr x)
    then have c: "cleared (res hop) current" by (simp add: validate_target_Inr)
    let ?made = "made @ [(hop, current)]"
    have made: "map fst ?made = [0 ..< Suc hop]" "\<forall>(h, u) \<in> set ?made. cleared (res h) u" "length ?made = Suc hop"
      using Suc.prems c len by auto
    have refused: "guarded res respond cap types (hop + Suc fuel) (refused_at ?made e)" for e
      using made by (simp add: guarded_def refused_at_def)
    show ?thesis
    proof (cases "respond hop current")
      case None
      with Inr refused show ?thesis by simp
    next
      case (Some r)
      show ?thesis
      proof (cases "r_status r \<in> set REDIRECT_STATUSES")
        case True
        with Inr Some refused Suc.IH [OF made(1,2)] show ?thesis by (auto simp: Let_def split: option.split)
      next
        case False
        obtain f v where sb: "store_body cap types r = (f, v)" by fastforce
        from store_body_spec [OF this] False Inr Some sb made show ?thesis by (simp add: guarded_def)
      qed
    qed
  qed
qed


end
