(* ===== verification/Prune.thy ===== *)
theory Prune
  imports Items Intake Pause
begin

text \<open>
  The prune job (\<open>scheduler/prune.py\<close>): which rows of \<open>media_items\<close> no server resolves any more,
  which of them may go without taking a living row along, and their deletion beside a live
  worker pool. Other transactions commit between the job's statements: \<open>env n\<close> is what they do
  to the database before its \<open>n\<close>th one. The media servers' answers and the servers that could be
  built are arguments; an exception is its class name, as the job reports it.
\<close>

subsection \<open>What a prune works on\<close>

record audit =
  au_item :: nat
  au_row :: media_item
  au_native :: "string option"
  au_refs :: "(string \<times> string) list"
  au_renders :: nat

text \<open>\<open>pn_renders\<close> holds the item of every row of \<open>renders\<close>.\<close>

record prune_db =
  pn_items :: items_db
  pn_renders :: "nat list"
  pn_audits :: "audit list"
  pn_queue :: jobs_db

record prune_candidate =
  c_row :: media_item
  c_native :: "string option"
  c_refs :: "(string \<times> string) list"

record stale_ref =
  st_id :: nat
  st_item :: nat
  st_server :: string
  st_updated :: instant

record prune_scan =
  sc_prunable :: "prune_candidate list"
  sc_gone :: nat
  sc_held :: nat
  sc_total :: nat
  sc_excluded :: nat
  sc_stale :: "stale_ref list"

record prune_config =
  pc_apply :: bool
  pc_max_prunes :: int
  pc_max_share :: rat
  pc_max_orphans :: int

definition directory_count :: "prune_candidate list \<Rightarrow> nat" where
  "directory_count cs = length (filter (\<lambda>c. mi_kind (c_row c) \<in> {''movie'', ''show''}) cs)"

definition intent_for :: "media_item \<Rightarrow> string \<Rightarrow> string option \<Rightarrow> intent" where
  "intent_for m server native = \<lparr>in_kind = mi_kind m, in_title = mi_title m, in_tmdb = mi_tmdb m,
     in_tvdb = mi_tvdb m, in_imdb = mi_imdb m, in_year = mi_year m, in_season = mi_season m,
     in_episode = mi_episode m,
     in_refs = (case native of None \<Rightarrow> [] | Some v \<Rightarrow> if v = [] then [] else [(server, v)])\<rparr>"

text \<open>\<open>_ancestors\<close>: nearest first, and guarded against a cycle.\<close>

function walk_up :: "media_item list \<Rightarrow> nat list \<Rightarrow> media_item \<Rightarrow> nat list" where
  "walk_up rows seen m = (case mi_parent m of
     None \<Rightarrow> []
   | Some p \<Rightarrow> if p \<in> set seen then []
       else p # (case item_by_id rows p of None \<Rightarrow> [] | Some q \<Rightarrow> walk_up rows (p # seen) q))"
  by pat_completeness auto
termination
proof (relation "measure (\<lambda>(rows, seen, m). card (mi_id ` set rows - set seen))", goal_cases)
  case (2 rows seen m p q)
  then have "p \<in> mi_id ` set rows - set seen"
    using find_Some_mem [of "\<lambda>m. mi_id m = p" rows q] by (auto simp: item_by_id_def)
  then have "card (mi_id ` set rows - set (p # seen)) < card (mi_id ` set rows - set seen)"
    by (intro psubset_card_mono) auto
  then show ?case by simp
qed simp

declare walk_up.simps [simp del]

definition ancestors :: "media_item list \<Rightarrow> media_item \<Rightarrow> nat list" where
  "ancestors rows m = walk_up rows [mi_id m] m"

subsection \<open>The scan\<close>

type_synonym probe = "string \<Rightarrow> intent list \<Rightarrow> string + bool list"

text \<open>The refs of a server joined with their items.\<close>

definition refs_on :: "items_db \<Rightarrow> string \<Rightarrow> (server_ref \<times> media_item) list" where
  "refs_on db server = concat (map (\<lambda>r. if ref_server r = server
     then (case item_by_id (it_rows db) (ref_item r) of None \<Rightarrow> [] | Some m \<Rightarrow> [(r, m)]) else []) (sr_rows db))"

definition excluded_on :: "(string \<times> string list) list \<Rightarrow> string \<Rightarrow> string list" where
  "excluded_on excluded server = (case map_of excluded server of None \<Rightarrow> [] | Some ls \<Rightarrow> ls)"

definition stale_of :: "string \<Rightarrow> string list \<Rightarrow> (server_ref \<times> media_item) list \<Rightarrow> bool list \<Rightarrow> stale_ref list" where
  "stale_of server gone_libraries rows flags =
     map (\<lambda>((r, m), ok). \<lparr>st_id = ref_id r, st_item = mi_id m, st_server = server, st_updated = ref_updated r\<rparr>)
       (filter (\<lambda>((r, m), ok). \<not> (ok \<and> ref_library r \<notin> set gone_libraries)) (zip rows flags))"

text \<open>\<open>_scan_stale_refs\<close>: servers with no ref are not asked; \<open>zip(strict=True)\<close>.\<close>

fun scan_stale_refs ::
  "probe \<Rightarrow> (string \<times> string list) list \<Rightarrow> items_db \<Rightarrow> string list \<Rightarrow> string + stale_ref list" where
  "scan_stale_refs exists_many excluded db [] = Inr []"
| "scan_stale_refs exists_many excluded db (server # servers) =
     (let rows = refs_on db server in
      if rows = [] then scan_stale_refs exists_many excluded db servers
      else bind_sum (exists_many server (map (\<lambda>(r, m). intent_for m server (Some (ref_native r))) rows)) (\<lambda>flags.
        if length flags \<noteq> length rows then Inl ''ValueError''
        else bind_sum (scan_stale_refs exists_many excluded db servers) (\<lambda>rest.
          Inr (stale_of server (excluded_on excluded server) rows flags @ rest))))"

definition candidates_of :: "items_db \<Rightarrow> prune_candidate list" where
  "candidates_of db = map (\<lambda>m. \<lparr>c_row = m, c_native = native_id_of (sr_rows db) ''plex'' (mi_id m),
     c_refs = refs_for (sr_rows db) (mi_id m)\<rparr>) (sort_key mi_id (it_rows db))"

text \<open>The items that still hold a ref that was not found stale, as it is now.\<close>

definition remaining_ids :: "stale_ref list \<Rightarrow> server_ref list \<Rightarrow> nat list" where
  "remaining_ids found rs = map ref_item
     (filter (\<lambda>r. (ref_id r, ref_updated r) \<notin> (\<lambda>s. (st_id s, st_updated s)) ` set found) rs)"

definition prune_plan ::
  "prune_candidate list \<Rightarrow> (string \<times> string list) list \<Rightarrow> stale_ref list \<Rightarrow> server_ref list \<Rightarrow> prune_scan" where
  "prune_plan cands excluded found rs =
     (let rows = map c_row cands;
          reachable = (\<lambda>c. mi_id (c_row c) \<in> set (remaining_ids found rs));
          gone = map (mi_id \<circ> c_row) (filter (\<lambda>c. \<not> reachable c) cands);
          held = concat (map (\<lambda>c. ancestors rows (c_row c)) (filter reachable cands));
          prunable = sort_key (\<lambda>c. - int (length (ancestors rows (c_row c))))
            (filter (\<lambda>c. mi_id (c_row c) \<in> set gone \<and> mi_id (c_row c) \<notin> set held) cands);
          all_excluded = concat (map snd excluded)
      in \<lparr>sc_prunable = prunable, sc_gone = length gone,
          sc_held = length (filter (\<lambda>i. i \<in> set held) gone), sc_total = length cands,
          sc_excluded = length (filter (\<lambda>c. mi_library (c_row c) \<in> set all_excluded) prunable),
          sc_stale = found\<rparr>)"

text \<open>
  \<open>find_prunable\<close>: the rows and their ids are read from \<open>db0\<close>, the refs to probe from \<open>db1\<close>, and
  the refs that are left from \<open>db2\<close>.
\<close>

definition find_prunable ::
  "probe \<Rightarrow> (string \<times> string list) list \<Rightarrow> string list \<Rightarrow> items_db \<Rightarrow> items_db \<Rightarrow> items_db \<Rightarrow> string + prune_scan" where
  "find_prunable exists_many excluded servers db0 db1 db2 =
     (if it_rows db0 = [] then Inr \<lparr>sc_prunable = [], sc_gone = 0, sc_held = 0, sc_total = 0, sc_excluded = 0, sc_stale = []\<rparr>
      else bind_sum (scan_stale_refs exists_many excluded db1 servers) (\<lambda>found.
        Inr (prune_plan (candidates_of db0) excluded found (sr_rows db2))))"

definition implausible_prune_count :: "int \<Rightarrow> int \<Rightarrow> prune_config \<Rightarrow> refusal option" where
  "implausible_prune_count prunable totl cfg =
     (if prunable \<noteq> 0 \<and> prunable > pc_max_prunes cfg then Some (Over_cap prunable totl (pc_max_prunes cfg))
      else
        let share = (if totl \<noteq> 0 then of_int prunable / of_int totl else 0)
        in if totl \<ge> SHARE_CHECK_MIN_ITEMS \<and> share > pc_max_share cfg
           then Some (Over_share prunable totl (pc_max_share cfg)) else None)"

subsection \<open>Deleting rows\<close>

text \<open>The ids a delete takes along: \<open>ON DELETE CASCADE\<close> on \<open>parent_id\<close>.\<close>

definition children_of :: "media_item list \<Rightarrow> nat list \<Rightarrow> nat list" where
  "children_of rows ids = map mi_id (filter (\<lambda>m. mi_id m \<notin> set ids \<and>
     (case mi_parent m of None \<Rightarrow> False | Some p \<Rightarrow> p \<in> set ids)) rows)"

function cascade :: "media_item list \<Rightarrow> nat list \<Rightarrow> nat list" where
  "cascade rows ids = (let more = children_of rows ids in if more = [] then ids else cascade rows (more @ ids))"
  by pat_completeness auto
termination
proof (relation "measure (\<lambda>(rows, ids). card (mi_id ` set rows - set ids))", goal_cases)
  case (2 rows ids more)
  then have "hd more \<in> set more" by simp
  with 2(1) obtain m where "m \<in> set rows" "mi_id m \<notin> set ids" "mi_id m \<in> set more"
    by (auto simp: children_of_def)
  then have "card (mi_id ` set rows - set (more @ ids)) < card (mi_id ` set rows - set ids)"
    by (intro psubset_card_mono) auto
  then show ?case by simp
qed simp

declare cascade.simps [simp del]

definition delete_item :: "nat \<Rightarrow> prune_db \<Rightarrow> prune_db" where
  "delete_item i db =
     (let dead = set (cascade (it_rows (pn_items db)) [i]); t = pn_items db
      in db\<lparr>pn_items := t\<lparr>it_rows := filter (\<lambda>m. mi_id m \<notin> dead) (it_rows t),
                sr_rows := filter (\<lambda>r. ref_item r \<notin> dead) (sr_rows t)\<rparr>,
            pn_renders := filter (\<lambda>x. x \<notin> dead) (pn_renders db)\<rparr>)"

definition audit_of :: "prune_candidate \<Rightarrow> nat \<Rightarrow> audit" where
  "audit_of c render_count = \<lparr>au_item = mi_id (c_row c), au_row = c_row c, au_native = c_native c,
     au_refs = c_refs c, au_renders = render_count\<rparr>"

definition shield :: "prune_candidate \<Rightarrow> nat list \<Rightarrow> nat list" where
  "shield c blocked = (case mi_parent (c_row c) of None \<Rightarrow> blocked | Some p \<Rightarrow> p # blocked)"

text \<open>\<open>retire\<close>, from statement \<open>n\<close> on: the database, the ids deleted and the rows skipped.\<close>

fun retire ::
  "(nat \<Rightarrow> prune_db \<Rightarrow> prune_db) \<Rightarrow> nat \<Rightarrow> prune_candidate list \<Rightarrow> nat list \<Rightarrow> prune_db \<Rightarrow> prune_db \<times> nat list \<times> nat" where
  "retire env n [] blocked db = (db, [], 0)"
| "retire env n (c # cs) blocked db =
     (if mi_id (c_row c) \<in> set blocked
      then (case retire env n cs (shield c blocked) db of (db', pruned, skipped) \<Rightarrow> (db', pruned, Suc skipped))
      else
        let db1 = env n db;
            render_count = length (filter (\<lambda>x. x = mi_id (c_row c)) (pn_renders db1));
            db2 = env (Suc n) db1
        in if \<exists>m \<in> set (it_rows (pn_items db2)). mi_id m = mi_id (c_row c) \<and> mi_updated m = mi_updated (c_row c)
           then (let db3 = delete_item (mi_id (c_row c)) db2;
                     db4 = db3\<lparr>pn_audits := pn_audits db3 @ [audit_of c render_count]\<rparr>
                 in (case retire env (n + 2) cs blocked db4 of
                       (db', pruned, skipped) \<Rightarrow> (db', mi_id (c_row c) # pruned, skipped)))
           else (case retire env (n + 2) cs (shield c blocked) db2 of
                   (db', pruned, skipped) \<Rightarrow> (db', pruned, Suc skipped)))"

text \<open>\<open>_retire_stale_refs\<close>: refs of rows that went are gone already.\<close>

fun retire_stale_refs :: "stale_ref list \<Rightarrow> nat list \<Rightarrow> items_db \<Rightarrow> items_db \<times> nat" where
  "retire_stale_refs [] pruned db = (db, 0)"
| "retire_stale_refs (s # ss) pruned db =
     (if st_item s \<in> set pruned then retire_stale_refs ss pruned db
      else
        let hit = (\<lambda>r. ref_id r = st_id s \<and> ref_updated r = st_updated s);
            db1 = db\<lparr>sr_rows := filter (\<lambda>r. \<not> hit r) (sr_rows db)\<rparr>
        in (case retire_stale_refs ss pruned db1 of
              (db', count) \<Rightarrow> (db', length (filter hit (sr_rows db)) + count)))"

text \<open>
  \<open>->>\<close> of a JSON document: the text of a string, and for other values the server's rendering
  of them.
\<close>

definition astext :: "(json \<Rightarrow> string) \<Rightarrow> json \<Rightarrow> string option" where
  "astext render v = (case v of JNull \<Rightarrow> None | JStr s \<Rightarrow> Some s | _ \<Rightarrow> Some (render v))"

definition names_native :: "(json \<Rightarrow> string) \<Rightarrow> string list \<Rightarrow> job \<Rightarrow> bool" where
  "names_native render natives j \<longleftrightarrow>
     (\<exists>v \<in> set natives. astext render (case get (job_payload j) ''refs'' of JObj kvs \<Rightarrow> get kvs ''plex'' | _ \<Rightarrow> JNull) = Some v \<or>
        astext render (get (job_payload j) ''rating_key'') = Some v)"

definition queued_for :: "(json \<Rightarrow> string) \<Rightarrow> (nat \<Rightarrow> bool) \<Rightarrow> string list \<Rightarrow> job \<Rightarrow> bool" where
  "queued_for render locked natives j \<longleftrightarrow> job_kind j = ''process_item'' \<and>
     job_state j \<in> {Pending, Deferred, Parked} \<and> names_native render natives j \<and> \<not> locked (job_id j)"

definition dismiss_jobs_for ::
  "(json \<Rightarrow> string) \<Rightarrow> instant \<Rightarrow> (nat \<Rightarrow> bool) \<Rightarrow> string list \<Rightarrow> jobs_db \<Rightarrow> jobs_db \<times> nat" where
  "dismiss_jobs_for render now locked natives db =
     (if natives = [] then (db, 0)
      else (db\<lparr>db_rows := update_where (queued_for render locked natives)
               (\<lambda>j. j\<lparr>job_state := Dismissed, updated_at := now\<rparr>) (db_rows db)\<rparr>,
            length (filter (queued_for render locked natives) (db_rows db))))"

subsection \<open>The job\<close>

definition cleanup_cap_warning :: "nat \<Rightarrow> prune_config \<Rightarrow> bool" where
  "cleanup_cap_warning directories cfg \<longleftrightarrow> int directories > pc_max_orphans cfg"

text \<open>The summaries, with the numbers their text is built from.\<close>

datatype prune_report =
    Unhealthy "string list"
  | Refused refusal
  | Dry_run nat nat nat nat nat nat bool
  | Pruned nat nat nat nat nat nat nat bool nat

text \<open>
  \<open>make_prune_job .. run\<close>. \<open>factory\<close> names the servers that could be connected. The result is
  \<open>PruneRefused\<close> with the class of what interrupted the scan, or a report.
\<close>

definition prune_job ::
  "(nat \<Rightarrow> prune_db \<Rightarrow> prune_db) \<Rightarrow> (json \<Rightarrow> string) \<Rightarrow> instant \<Rightarrow> (nat \<Rightarrow> bool) \<Rightarrow> string list \<Rightarrow>
   string + string list \<Rightarrow> probe \<Rightarrow> (string \<times> string list) list \<Rightarrow> prune_config \<Rightarrow> prune_db \<Rightarrow>
   prune_db \<times> (string + prune_report)" where
  "prune_job env render now locked unhealthy factory exists_many excluded cfg db =
     (if unhealthy \<noteq> [] then (db, Inr (Unhealthy unhealthy))
      else (case refuse_if_empty (it_rows (pn_items db)) ''media_items'' of
        Some r \<Rightarrow> (db, Inr (Refused r))
      | None \<Rightarrow>
        let db0 = env 0 db; db1 = env 1 db0; db2 = env 2 db1 in
        (case bind_sum factory (\<lambda>servers.
             find_prunable exists_many excluded servers (pn_items db0) (pn_items db1) (pn_items db2)) of
          Inl class \<Rightarrow> (db2, Inl class)
        | Inr scan \<Rightarrow>
          (case implausible_prune_count (int (length (sc_prunable scan))) (int (sc_total scan)) cfg of
             Some r \<Rightarrow> (db2, Inr (Refused r))
           | None \<Rightarrow>
             if \<not> pc_apply cfg
             then (db2, Inr (Dry_run (length (sc_prunable scan)) (sc_total scan) (sc_excluded scan) (sc_held scan)
               (length (sc_stale scan)) (directory_count (sc_prunable scan))
               (cleanup_cap_warning (directory_count (sc_prunable scan)) cfg)))
             else (case retire env 3 (sc_prunable scan) [] db2 of (db3, pruned, skipped) \<Rightarrow>
               (case retire_stale_refs (sc_stale scan) pruned (pn_items db3) of (items', retired) \<Rightarrow>
                 let deleted = filter (\<lambda>c. mi_id (c_row c) \<in> set pruned) (sc_prunable scan);
                     natives = concat (map (\<lambda>c. case c_native c of None \<Rightarrow> [] | Some v \<Rightarrow> [v]) deleted);
                     (queue', dismissed) = dismiss_jobs_for render now locked natives (pn_queue db3);
                     excluded_pruned = length (filter (\<lambda>c. mi_library (c_row c) \<in> set (concat (map snd excluded))) deleted)
                 in (db3\<lparr>pn_items := items', pn_queue := queue'\<rparr>,
                     Inr (Pruned (length pruned) (sc_total scan) excluded_pruned (sc_held scan) retired dismissed
                       (directory_count deleted) (cleanup_cap_warning (directory_count deleted) cfg) skipped))))))))"

end
