(* ===== verification/Items_Props.thy ===== *)
theory Items_Props
  imports Items
begin

text \<open>
  The two item tables as an upsert leaves them: one row per key, one id per item and server,
  rows that keep their id when their file is replaced, and children that find their parent.
\<close>

subsection \<open>The invariant of the tables\<close>

definition one_per :: "('r \<Rightarrow> 'k) \<Rightarrow> 'r list \<Rightarrow> bool" where
  "one_per key rs \<longleftrightarrow> (\<forall>r \<in> set rs. \<forall>q \<in> set rs. key r = key q \<longrightarrow> r = q)"

lemma one_perD: "one_per key rs \<Longrightarrow> r \<in> set rs \<Longrightarrow> q \<in> set rs \<Longrightarrow> key r = key q \<Longrightarrow> r = q"
  by (simp add: one_per_def)

lemma one_per_subset: "one_per key rs \<Longrightarrow> set qs \<subseteq> set rs \<Longrightarrow> one_per key qs"
  by (auto simp: one_per_def)

lemma one_per_update:
  assumes "one_per key rs" and "\<And>r. key (f r) = key r"
  shows "one_per key (update_where P f rs)"
  unfolding one_per_def
proof (intro ballI impI)
  fix r q assume "r \<in> set (update_where P f rs)" "q \<in> set (update_where P f rs)" and eq: "key r = key q"
  then obtain a b where a: "a \<in> set rs" "r = (if P a then f a else a)" and b: "b \<in> set rs" "q = (if P b then f b else b)"
    by (auto simp: set_update_where)
  with eq have "key a = key b" by (simp add: assms(2) split: if_splits)
  with assms(1) a(1) b(1) have "a = b" by (rule one_perD)
  with a b show "r = q" by simp
qed

lemma one_per_snoc:
  assumes "one_per key rs" and "\<forall>r \<in> set rs. key r \<noteq> key x"
  shows "one_per key (rs @ [x])"
  unfolding one_per_def
proof (intro ballI impI)
  fix r q assume "r \<in> set (rs @ [x])" "q \<in> set (rs @ [x])" "key r = key q"
  then consider "r \<in> set rs" "q \<in> set rs" | "r = x" "q = x" | "r \<in> set rs" "key r = key x" | "q \<in> set rs" "key q = key x"
    by auto
  then show "r = q" using assms one_perD [OF assms(1)] \<open>key r = key q\<close> by cases auto
qed

definition native_key :: "server_ref \<Rightarrow> string \<times> string" where
  "native_key r = (ref_server r, ref_native r)"

definition slot_key :: "server_ref \<Rightarrow> nat \<times> string" where
  "slot_key r = (ref_item r, ref_server r)"

definition refs_ok :: "nat set \<Rightarrow> nat \<Rightarrow> server_ref list \<Rightarrow> bool" where
  "refs_ok ids nxt rs \<longleftrightarrow> one_per native_key rs \<and> one_per slot_key rs \<and>
     distinct (map ref_id rs) \<and> (\<forall>r \<in> set rs. ref_id r < nxt \<and> ref_item r \<in> ids)"

definition items_ok :: "nat \<Rightarrow> media_item list \<Rightarrow> bool" where
  "items_ok nxt rows \<longleftrightarrow> distinct (map mi_id rows) \<and> one_per mi_identity rows \<and>
     (\<forall>m \<in> set rows. mi_id m < nxt \<and> (\<forall>p. mi_parent m = Some p \<longrightarrow> p \<in> mi_id ` set rows))"

definition items_inv :: "items_db \<Rightarrow> bool" where
  "items_inv db \<longleftrightarrow> items_ok (it_next db) (it_rows db) \<and>
     refs_ok (mi_id ` set (it_rows db)) (sr_next db) (sr_rows db)"

subsection \<open>One id per item and server\<close>

lemma point_ref_moved:
  assumes "\<exists>r \<in> set (sr_rows db). native_key r = (rs_server it, rs_native it)"
  shows "sr_rows (point_ref now item it db) = update_where
      (\<lambda>r. native_key r = (rs_server it, rs_native it))
      (\<lambda>r. r\<lparr>ref_item := item, ref_library := rs_library it, ref_updated := now\<rparr>) (sr_rows db)"
  using assms by (simp add: point_ref_def native_key_def Let_def)

lemma point_ref_added:
  assumes "\<not> (\<exists>r \<in> set (sr_rows db). native_key r = (rs_server it, rs_native it))"
  shows "sr_rows (point_ref now item it db) = sr_rows db @ [\<lparr>ref_id = sr_next db, ref_item = item,
      ref_server = rs_server it, ref_native = rs_native it, ref_library = rs_library it, ref_updated = now\<rparr>]"
  using assms by (auto simp: point_ref_def native_key_def Let_def)

lemma upsert_server_ref_simps [simp]:
  "it_rows (upsert_server_ref now item it db) = it_rows db"
  "it_next (upsert_server_ref now item it db) = it_next db"
  "sr_next (upsert_server_ref now item it db) = Suc (sr_next db)"
  by (simp_all add: upsert_server_ref_def point_ref_def Let_def)

text \<open>What a row of the result is: the one just resolved, or an untouched one elsewhere.\<close>

lemma upsert_server_ref_mem:
  assumes "refs_ok ids (sr_next db) (sr_rows db)"
    and "r \<in> set (sr_rows (upsert_server_ref now item it db))"
  obtains (here) "native_key r = (rs_server it, rs_native it)" "slot_key r = (item, rs_server it)"
      "ref_library r = rs_library it" "ref_updated r = now"
  | (elsewhere) "r \<in> set (sr_rows db)" "native_key r \<noteq> (rs_server it, rs_native it)"
      "slot_key r \<noteq> (item, rs_server it)"
proof -
  have r: "r \<in> set (sr_rows (point_ref now item it db))"
    and keep: "\<not> (ref_item r = item \<and> ref_server r = rs_server it \<and> ref_native r \<noteq> rs_native it)"
    using assms(2) by (auto simp: upsert_server_ref_def Let_def)
  have "native_key r = (rs_server it, rs_native it) \<and> slot_key r = (item, rs_server it) \<and>
      ref_library r = rs_library it \<and> ref_updated r = now \<or>
    r \<in> set (sr_rows db) \<and> native_key r \<noteq> (rs_server it, rs_native it)"
  proof (cases "\<exists>r \<in> set (sr_rows db). native_key r = (rs_server it, rs_native it)")
    case True
    note moved = point_ref_moved [OF True]
    from r show ?thesis unfolding moved
      by (rule update_where_mem) (auto simp: native_key_def slot_key_def)
  next
    case False
    note added = point_ref_added [OF False]
    from r False added show ?thesis by (auto simp: native_key_def slot_key_def)
  qed
  then show ?thesis using keep here elsewhere by (auto simp: native_key_def slot_key_def)
qed

lemma upsert_server_ref_has:
  "\<exists>r \<in> set (sr_rows (upsert_server_ref now item it db)). native_key r = (rs_server it, rs_native it)"
proof -
  have "\<exists>r \<in> set (sr_rows (point_ref now item it db)). native_key r = (rs_server it, rs_native it)"
  proof (cases "\<exists>r \<in> set (sr_rows db). native_key r = (rs_server it, rs_native it)")
    case True
    then obtain r where r: "r \<in> set (sr_rows db)" "native_key r = (rs_server it, rs_native it)" by blast
    show ?thesis unfolding point_ref_moved [OF True]
      by (rule rev_bexI [OF update_where_hit [where P = "\<lambda>r. native_key r = (rs_server it, rs_native it)", OF r]])
        (use r(2) in \<open>simp add: native_key_def\<close>)
  next
    case False
    then show ?thesis unfolding point_ref_added [OF False] by (simp add: native_key_def)
  qed
  then show ?thesis by (auto simp: upsert_server_ref_def Let_def native_key_def)
qed

lemma upsert_server_ref_ok:
  assumes "refs_ok ids (sr_next db) (sr_rows db)" and "item \<in> ids"
  shows "refs_ok ids (Suc (sr_next db)) (sr_rows (upsert_server_ref now item it db))"
proof -
  let ?rs = "sr_rows (point_ref now item it db)" and ?out = "sr_rows (upsert_server_ref now item it db)"
  have nk: "one_per native_key (sr_rows db)" and sk: "one_per slot_key (sr_rows db)"
    and ids: "distinct (map ref_id (sr_rows db))"
    and fk: "r \<in> set (sr_rows db) \<Longrightarrow> ref_id r < Suc (sr_next db) \<and> ref_id r \<noteq> sr_next db \<and> ref_item r \<in> ids" for r
    using assms(1) by (auto simp: refs_ok_def)
  have sub: "set ?out \<subseteq> set ?rs" by (auto simp: upsert_server_ref_def Let_def)
  have point: "one_per native_key ?rs \<and> distinct (map ref_id ?rs) \<and> (\<forall>r \<in> set ?rs. ref_id r < Suc (sr_next db) \<and> ref_item r \<in> ids)"
  proof (cases "\<exists>r \<in> set (sr_rows db). native_key r = (rs_server it, rs_native it)")
    case True
    note moved = point_ref_moved [OF True]
    have "\<forall>r \<in> set ?rs. ref_id r < Suc (sr_next db) \<and> ref_item r \<in> ids"
      unfolding moved set_update_where using fk assms(2) by (auto dest: fk)
    moreover have "map ref_id ?rs = map ref_id (sr_rows db)"
      unfolding moved by (rule map_update_where) simp
    moreover have "one_per native_key ?rs"
      unfolding moved by (rule one_per_update [OF nk]) (simp add: native_key_def)
    ultimately show ?thesis using ids by simp
  next
    case False
    note added = point_ref_added [OF False]
    have "\<forall>r \<in> set ?rs. ref_id r < Suc (sr_next db) \<and> ref_item r \<in> ids"
      unfolding added using fk assms(2) less_SucI by auto
    moreover have "distinct (map ref_id ?rs)" unfolding added using ids fk by fastforce
    moreover have "one_per native_key ?rs"
      unfolding added using nk False by (intro one_per_snoc) (auto simp: native_key_def)
    ultimately show ?thesis by blast
  qed
  have "distinct (map ref_id ?out)"
    using point by (simp add: upsert_server_ref_def Let_def distinct_map_filter)
  moreover have out_nk: "one_per native_key ?out" using point sub one_per_subset by blast
  moreover have "one_per slot_key ?out"
    unfolding one_per_def
  proof (intro ballI impI)
    fix r q assume r: "r \<in> set ?out" and q: "q \<in> set ?out" and eq: "slot_key r = slot_key q"
    from assms(1) r show "r = q"
    proof (cases rule: upsert_server_ref_mem)
      case here
      note rr = here
      from assms(1) q show ?thesis
        by (cases rule: upsert_server_ref_mem) (use rr eq r q one_perD [OF out_nk r q] in auto)
    next
      case elsewhere
      note rr = elsewhere
      from assms(1) q show ?thesis
        by (cases rule: upsert_server_ref_mem) (use rr eq one_perD [OF sk] in auto)
    qed
  qed
  moreover have "\<forall>r \<in> set ?out. ref_id r < Suc (sr_next db) \<and> ref_item r \<in> ids" using point sub by blast
  ultimately show ?thesis by (simp add: refs_ok_def)
qed


subsection \<open>One row per key\<close>

lemma items_by_id:
  assumes "items_ok n rows" and "m \<in> set rows"
  shows "item_by_id rows (mi_id m) = Some m"
  using assms find_unique [of mi_id rows m "mi_id m"] by (simp add: items_ok_def item_by_id_def)

lemma item_with_key_Some: "item_with_key rows key = Some m \<Longrightarrow> m \<in> set rows \<and> mi_identity m = key"
  using find_Some_mem [of "\<lambda>m. mi_identity m = key" rows m] by (simp add: item_with_key_def)

lemma item_with_key_None: "item_with_key rows key = None \<longleftrightarrow> (\<forall>m \<in> set rows. mi_identity m \<noteq> key)"
  by (simp add: item_with_key_def find_None)

lemma item_with_key_unique:
  assumes "items_ok n rows" and "m \<in> set rows" and "mi_identity m = key"
  shows "item_with_key rows key = Some m"
proof (cases "item_with_key rows key")
  case None
  with assms show ?thesis by (simp add: item_with_key_None)
next
  case (Some q)
  from item_with_key_Some [OF this] assms Some show ?thesis
    using one_perD [of mi_identity rows q m] by (auto simp: items_ok_def)
qed

lemma items_ok_update:
  assumes "items_ok n rows" and "n \<le> n'" and "\<And>m. mi_id (f m) = mi_id m"
    and "\<And>m p. m \<in> set rows \<Longrightarrow> P m \<Longrightarrow> mi_parent (f m) = Some p \<Longrightarrow> p \<in> mi_id ` set rows"
    and "one_per mi_identity (update_where P f rows)"
  shows "items_ok n' (update_where P f rows)"
proof -
  have ids: "map mi_id (update_where P f rows) = map mi_id rows" by (rule map_update_where) (rule assms(3))
  have set_ids: "mi_id ` set (update_where P f rows) = mi_id ` set rows" by (rule image_update_where) (rule assms(3))
  have "mi_id m < n' \<and> (\<forall>p. mi_parent m = Some p \<longrightarrow> p \<in> mi_id ` set rows)" if "m \<in> set (update_where P f rows)" for m
    using that
  proof (rule update_where_mem)
    fix q assume "q \<in> set rows" "P q" "m = f q"
    then show ?thesis using assms(1,2) assms(4) [of q] assms(3) [of q] by (auto simp: items_ok_def)
  next
    assume "m \<in> set rows"
    then show ?thesis using assms(1,2) by (auto simp: items_ok_def)
  qed
  then show ?thesis using assms(1,5) ids set_ids by (simp add: items_ok_def)
qed

text \<open>What re-keying does: nothing, or one row moves onto a key no row has.\<close>

definition rekeyed :: "instant \<Rightarrow> nat \<Rightarrow> string \<Rightarrow> items_db \<Rightarrow> items_db" where
  "rekeyed now i key db = db\<lparr>it_rows := update_where (\<lambda>r. mi_id r = i)
     (\<lambda>r. r\<lparr>mi_identity := key, mi_updated := now\<rparr>) (it_rows db)\<rparr>"

lemma rekey_cases:
  assumes "rekey_in_place now it key db = db'"
  obtains (same) "db' = db"
  | (moved) m where "m \<in> set (it_rows db)" "item_id_for (sr_rows db) (rs_server it) (rs_native it) = Some (mi_id m)"
      "item_with_key (it_rows db) key = None" "db' = rekeyed now (mi_id m) key db"
proof (cases "item_id_for (sr_rows db) (rs_server it) (rs_native it)")
  case None
  with assms same show ?thesis by (simp add: rekey_in_place_def)
next
  case (Some i)
  show ?thesis
  proof (cases "item_by_id (it_rows db) i")
    case None
    with assms same Some show ?thesis by (simp add: rekey_in_place_def)
  next
    case (Some m)
    then have "m \<in> set (it_rows db)" "mi_id m = i"
      using find_Some_mem [of "\<lambda>m. mi_id m = i" "it_rows db" m] by (simp_all add: item_by_id_def)
    have "rekey_in_place now it key db = db \<or>
        item_with_key (it_rows db) key = None \<and> rekey_in_place now it key db = rekeyed now i key db"
      by (simp add: rekey_in_place_def rekeyed_def Some \<open>item_id_for _ _ _ = Some i\<close> split: if_split)
    with assms same moved [OF \<open>m \<in> set (it_rows db)\<close>] \<open>mi_id m = i\<close> \<open>item_id_for _ _ _ = Some i\<close>
    show ?thesis by auto
  qed
qed

lemma rekeyed_inv:
  assumes "items_inv db" and "item_with_key (it_rows db) key = None"
  shows "items_inv (rekeyed now i key db)"
proof -
  let ?P = "\<lambda>r. mi_id r = i" and ?f = "\<lambda>r. r\<lparr>mi_identity := key, mi_updated := now\<rparr> :: media_item"
  have ok: "items_ok (it_next db) (it_rows db)" using assms(1) by (simp add: items_inv_def)
  have "one_per mi_identity (update_where ?P ?f (it_rows db))"
    unfolding one_per_def
  proof (intro ballI impI)
    fix r q assume "r \<in> set (update_where ?P ?f (it_rows db))" "q \<in> set (update_where ?P ?f (it_rows db))"
      and eq: "mi_identity r = mi_identity q"
    then obtain a b where a: "a \<in> set (it_rows db)" "r = (if ?P a then ?f a else a)"
      and b: "b \<in> set (it_rows db)" "q = (if ?P b then ?f b else b)" by (auto simp: set_update_where)
    have "a = b"
    proof (cases "?P a \<or> ?P b")
      case True
      with a b eq assms(2) have "mi_id a = mi_id b" by (auto simp: item_with_key_None split: if_splits)
      with ok a(1) b(1) show ?thesis by (auto simp: items_ok_def intro: distinct_map_inj)
    next
      case False
      with a b eq ok one_perD [of mi_identity "it_rows db" a b] show ?thesis by (auto simp: items_ok_def)
    qed
    with a b show "r = q" by simp
  qed
  then have "items_ok (it_next db) (it_rows (rekeyed now i key db))"
    using ok unfolding rekeyed_def
    by (simp, intro items_ok_update) (auto simp: items_ok_def)
  moreover have "mi_id ` set (it_rows (rekeyed now i key db)) = mi_id ` set (it_rows db)"
    unfolding rekeyed_def by (simp add: image_update_where)
  ultimately show ?thesis using assms(1) by (simp add: items_inv_def rekeyed_def)
qed

lemma rekey_inv:
  assumes "items_inv db"
  shows "items_inv (rekey_in_place now it key db)"
proof (rule rekey_cases [OF refl, of now it key db])
  assume "rekey_in_place now it key db = db"
  with assms show ?thesis by simp
next
  fix m assume "item_with_key (it_rows db) key = None" "rekey_in_place now it key db = rekeyed now (mi_id m) key db"
  with rekeyed_inv [OF assms] show ?thesis by simp
qed

lemma rekey_keeps [simp]:
  "sr_rows (rekey_in_place now it key db) = sr_rows db"
  "sr_next (rekey_in_place now it key db) = sr_next db"
  "map mi_id (it_rows (rekey_in_place now it key db)) = map mi_id (it_rows db)"
  by (rule rekey_cases [OF refl, of now it key db];
      simp add: rekeyed_def map_update_where)+

subsection \<open>Writing a row\<close>

lemma refresh_item_simps [simp]:
  "mi_id (refresh_item now parent it m) = mi_id m"
  "mi_identity (refresh_item now parent it m) = mi_identity m"
  "mi_parent (refresh_item now parent it m) = (if parent = None then mi_parent m else parent)"
  by (simp_all add: refresh_item_def)

lemma write_item_spec:
  assumes "items_inv db" and "write_item now key parent it db = (db', i)"
    and "\<And>p. parent = Some p \<Longrightarrow> p \<in> mi_id ` set (it_rows db)"
  shows "items_inv db' \<and> sr_rows db' = sr_rows db \<and>
    (\<exists>m \<in> set (it_rows db'). mi_id m = i \<and> mi_identity m = key \<and> mi_updated m = now \<and>
       mi_library m = rs_library it \<and> mi_kind m = rs_kind it \<and> (parent \<noteq> None \<longrightarrow> mi_parent m = parent)) \<and>
    (\<forall>m \<in> set (it_rows db). mi_id m \<noteq> i \<longrightarrow> m \<in> set (it_rows db')) \<and>
    mi_id ` set (it_rows db') = insert i (mi_id ` set (it_rows db))"
proof -
  have ok: "items_ok (it_next db) (it_rows db)" and
    refs: "refs_ok (mi_id ` set (it_rows db)) (sr_next db) (sr_rows db)"
    using assms(1) by (auto simp: items_inv_def)
  show ?thesis
  proof (cases "item_with_key (it_rows db) key")
    case (Some m)
    let ?rows = "update_where (\<lambda>r. mi_identity r = key) (refresh_item now parent it) (it_rows db)"
    from Some assms(2) have db': "db' = db\<lparr>it_next := Suc (it_next db), it_rows := ?rows\<rparr>" and i: "i = mi_id m"
      by (auto simp: write_item_def)
    from item_with_key_Some [OF Some] have m: "m \<in> set (it_rows db)" "mi_identity m = key" by auto
    have "items_ok (Suc (it_next db)) ?rows"
    proof (rule items_ok_update [OF ok])
      show "one_per mi_identity ?rows" using ok by (intro one_per_update) (auto simp: items_ok_def)
    qed (use assms(3) ok in \<open>auto simp: items_ok_def split: if_splits\<close>)
    moreover have ids: "mi_id ` set ?rows = mi_id ` set (it_rows db)" by (rule image_update_where) simp
    moreover have "refresh_item now parent it m \<in> set ?rows" using m by (intro update_where_hit)
    moreover have "q \<in> set ?rows" if "q \<in> set (it_rows db)" "mi_id q \<noteq> i" for q
    proof (rule update_where_miss [OF that(1)])
      show "mi_identity q \<noteq> key"
        using ok that m i one_perD [of mi_identity "it_rows db" q m] by (auto simp: items_ok_def)
    qed
    moreover have "i \<in> mi_id ` set (it_rows db)" using m i by auto
    ultimately show ?thesis using refs m i unfolding db'
      by (auto simp: items_inv_def refresh_item_def intro!: bexI [of _ "refresh_item now parent it m"])
  next
    case None
    let ?m = "fresh_item (it_next db) now key parent it"
    from None assms(2) have db': "db' = db\<lparr>it_next := Suc (it_next db), it_rows := it_rows db @ [?m]\<rparr>" and i: "i = it_next db"
      by (auto simp: write_item_def)
    have "one_per mi_identity (it_rows db @ [?m])"
      using ok None by (intro one_per_snoc) (auto simp: items_ok_def item_with_key_None fresh_item_def)
    moreover have "it_next db \<notin> mi_id ` set (it_rows db)" using ok by (auto simp: items_ok_def)
    ultimately have "items_ok (Suc (it_next db)) (it_rows db @ [?m])"
      using ok assms(3) by (auto simp: items_ok_def fresh_item_def less_Suc_eq)
    moreover have "refs_ok (insert (it_next db) (mi_id ` set (it_rows db))) (sr_next db) (sr_rows db)"
      using refs by (auto simp: refs_ok_def)
    ultimately show ?thesis unfolding db' i
      by (auto simp: items_inv_def fresh_item_def)
  qed
qed

subsection \<open>The upsert\<close>

lemma native_id_of_slot:
  assumes "one_per slot_key rs" and "r \<in> set rs" and "slot_key r = (item, server)"
  shows "native_id_of rs server item = Some (ref_native r)"
proof -
  have r: "r \<in> set (filter (\<lambda>r. ref_item r = item \<and> ref_server r = server) rs)"
    using assms(2,3) by (simp add: slot_key_def)
  then obtain q where q: "first_by (\<lambda>r. - int (ref_id r)) (filter (\<lambda>r. ref_item r = item \<and> ref_server r = server) rs) = Some q"
    by (metis first_by_None empty_iff empty_set not_None_eq)
  from first_by_Some(1) [OF q] have "q \<in> set rs" "slot_key q = slot_key r"
    using assms(3) by (auto simp: slot_key_def)
  with assms(1,2) have "q = r" by (metis one_perD)
  with q show ?thesis by (simp add: native_id_of_def)
qed

lemma item_id_for_native:
  assumes "one_per native_key rs" and "r \<in> set rs" and "native_key r = (server, native)"
  shows "item_id_for rs server native = Some (ref_item r)"
proof (cases "List.find (\<lambda>r. ref_server r = server \<and> ref_native r = native) rs")
  case None
  with assms(2,3) show ?thesis by (auto simp: find_None native_key_def)
next
  case (Some q)
  from find_Some_mem [OF this] assms have "q = r"
    by (intro one_perD [OF assms(1)]) (auto simp: native_key_def)
  with Some show ?thesis by (simp add: item_id_for_def)
qed

lemma upsert_media_item_steps:
  assumes "upsert_media_item now it db = Inr (db', i)"
  obtains key parent db2 where "identity_key_for it = Inr key"
    and "parent = (case projr (parent_identity_key_for it) of None \<Rightarrow> None
       | Some k \<Rightarrow> map_option mi_id (item_with_key (it_rows (rekey_in_place now it key db)) k))"
    and "write_item now key parent it (rekey_in_place now it key db) = (db2, i)"
    and "db' = upsert_server_ref now i it db2"
proof -
  from assms obtain key pk where key: "identity_key_for it = Inr key" and pk: "parent_identity_key_for it = Inr pk"
    by (auto simp: upsert_media_item_def bind_sum_Inr Let_def)
  obtain db2 j where w: "write_item now key (case pk of None \<Rightarrow> None
       | Some k \<Rightarrow> map_option mi_id (item_with_key (it_rows (rekey_in_place now it key db)) k)) it
      (rekey_in_place now it key db) = (db2, j)" by fastforce
  with assms key pk have "db' = upsert_server_ref now i it db2" "j = i"
    by (auto simp: upsert_media_item_def Let_def)
  with that key pk w show ?thesis by simp
qed

lemma parent_is_row:
  assumes "p = (case k of None \<Rightarrow> None | Some k \<Rightarrow> map_option mi_id (item_with_key rows k))"
    and "p = Some q"
  shows "q \<in> mi_id ` set rows"
proof -
  from assms obtain key m where "item_with_key rows key = Some m" "q = mi_id m"
    by (auto split: option.splits simp: map_option_case)
  with item_with_key_Some [of rows key m] show ?thesis by blast
qed

lemma upsert_tables:
  assumes "items_inv db" and "upsert_media_item now it db = Inr (db', i)"
  shows "items_inv db' \<and>
    (\<exists>m \<in> set (it_rows db'). mi_id m = i \<and> identity_key_for it = Inr (mi_identity m) \<and> mi_updated m = now \<and>
       mi_library m = rs_library it \<and> mi_kind m = rs_kind it) \<and>
    item_id_for (sr_rows db') (rs_server it) (rs_native it) = Some i \<and>
    native_id_of (sr_rows db') (rs_server it) i = Some (rs_native it) \<and>
    (\<forall>m \<in> set (it_rows db). mi_id m \<noteq> i \<longrightarrow> m \<in> set (it_rows db')) \<and>
    mi_id ` set (it_rows db') = insert i (mi_id ` set (it_rows db)) \<and>
    (\<forall>r \<in> set (sr_rows db). native_key r \<noteq> (rs_server it, rs_native it) \<and> slot_key r \<noteq> (i, rs_server it) \<longrightarrow>
       r \<in> set (sr_rows db'))"
proof -
  obtain key parent db2 where key: "identity_key_for it = Inr key"
    and parent: "parent = (case projr (parent_identity_key_for it) of None \<Rightarrow> None
       | Some k \<Rightarrow> map_option mi_id (item_with_key (it_rows (rekey_in_place now it key db)) k))"
    and w: "write_item now key parent it (rekey_in_place now it key db) = (db2, i)"
    and db': "db' = upsert_server_ref now i it db2"
    using assms(2) by (rule upsert_media_item_steps)
  let ?db1 = "rekey_in_place now it key db"
  have ids1: "mi_id ` set (it_rows ?db1) = mi_id ` set (it_rows db)" by (metis list.set_map rekey_keeps(3))
  note ws = write_item_spec [OF rekey_inv [OF assms(1)] w parent_is_row [OF parent]]
  from ws obtain m where m: "m \<in> set (it_rows db2)" "mi_id m = i" "mi_identity m = key" "mi_updated m = now"
      "mi_library m = rs_library it" "mi_kind m = rs_kind it" by blast
  have refs2: "refs_ok (mi_id ` set (it_rows db2)) (sr_next db2) (sr_rows db2)" using ws by (auto simp: items_inv_def)
  have i: "i \<in> mi_id ` set (it_rows db2)" using m by auto
  have inv: "items_inv db'"
    using ws upsert_server_ref_ok [OF refs2 i] by (simp add: db' items_inv_def)
  then have refs: "one_per native_key (sr_rows db')" "one_per slot_key (sr_rows db')"
    by (auto simp: items_inv_def refs_ok_def)
  obtain r where r: "r \<in> set (sr_rows db')" "native_key r = (rs_server it, rs_native it)"
    using upsert_server_ref_has [of now i it db2] by (auto simp: db')
  then have slot: "slot_key r = (i, rs_server it)"
    using upsert_server_ref_mem [OF refs2, of r now i it] by (auto simp: db')
  have others: "q \<in> set (it_rows db')" if "q \<in> set (it_rows db)" "mi_id q \<noteq> i" for q
  proof -
    have "q \<in> set (it_rows ?db1)"
    proof (rule rekey_cases [OF refl, of now it key db])
      assume "?db1 = db" with that show ?thesis by simp
    next
      fix p assume p: "p \<in> set (it_rows db)" "item_with_key (it_rows db) key = None" "?db1 = rekeyed now (mi_id p) key db"
      have "p\<lparr>mi_identity := key, mi_updated := now\<rparr> \<in> set (it_rows ?db1)"
        unfolding p(3) rekeyed_def
        using update_where_hit [of p "it_rows db" "\<lambda>r. mi_id r = mi_id p" "\<lambda>r. r\<lparr>mi_identity := key, mi_updated := now\<rparr>"] p(1) by simp
      then have "item_with_key (it_rows ?db1) key = Some (p\<lparr>mi_identity := key, mi_updated := now\<rparr>)"
        using rekey_inv [OF assms(1), of now it key] by (intro item_with_key_unique) (auto simp: items_inv_def)
      then have "mi_id p = i" using w by (auto simp: write_item_def)
      with that p show ?thesis unfolding p(3) rekeyed_def by (auto intro: update_where_miss)
    qed
    with ws that show ?thesis by (simp add: db')
  qed
  have far: "q \<in> set (sr_rows db')" if "q \<in> set (sr_rows db)" "native_key q \<noteq> (rs_server it, rs_native it)" "slot_key q \<noteq> (i, rs_server it)" for q
  proof -
    have "q \<in> set (sr_rows db2)" using ws that by simp
    with that(2) have "q \<in> set (sr_rows (point_ref now i it db2))"
      by (cases "\<exists>r \<in> set (sr_rows db2). native_key r = (rs_server it, rs_native it)")
        (simp_all add: point_ref_moved point_ref_added update_where_miss)
    with that show ?thesis by (auto simp: db' upsert_server_ref_def Let_def slot_key_def)
  qed
  show ?thesis
  proof (intro conjI)
    show "item_id_for (sr_rows db') (rs_server it) (rs_native it) = Some i"
      using item_id_for_native [OF refs(1) r] slot by (simp add: slot_key_def)
    show "native_id_of (sr_rows db') (rs_server it) i = Some (rs_native it)"
      using native_id_of_slot [OF refs(2) r(1) slot] r(2) by (simp add: native_key_def)
    show "mi_id ` set (it_rows db') = insert i (mi_id ` set (it_rows db))" using ws ids1 by (simp add: db')
    show "\<exists>m \<in> set (it_rows db'). mi_id m = i \<and> identity_key_for it = Inr (mi_identity m) \<and> mi_updated m = now \<and>
       mi_library m = rs_library it \<and> mi_kind m = rs_kind it"
      using m by (intro bexI [of _ m]) (simp_all add: db' key)
  qed (use inv others far in auto)
qed

subsection \<open>Examples\<close>

definition no_items :: items_db where
  "no_items = \<lparr>it_rows = [], it_next = 1, sr_rows = [], sr_next = 1\<rparr>"

definition film :: "string \<Rightarrow> string \<Rightarrow> resolved_item" where
  "film native path = \<lparr>rs_server = ''plex'', rs_native = native, rs_library = ''Movies'', rs_kind = ''movie'',
     rs_title = ''The Matrix'', rs_year = Some 1999, rs_season = None, rs_episode = None, rs_root = ''The Matrix (1999)'',
     rs_file = Some path, rs_tmdb = Some 603, rs_tvdb = None, rs_imdb = None, rs_parent_tmdb = None,
     rs_parent_tvdb = None, rs_parent_imdb = None\<rparr>"

definition show_part :: "string \<Rightarrow> string \<Rightarrow> string \<Rightarrow> int option \<Rightarrow> resolved_item" where
  "show_part server native kind episode = \<lparr>rs_server = server, rs_native = native, rs_library = ''Shows'', rs_kind = kind,
     rs_title = ''Chapter'', rs_year = None, rs_season = Some 1, rs_episode = episode, rs_root = ''Show'',
     rs_file = None, rs_tmdb = Some 7, rs_tvdb = None, rs_imdb = None, rs_parent_tmdb = Some 7,
     rs_parent_tvdb = None, rs_parent_imdb = None\<rparr>"

lemma no_items_inv: "items_inv no_items"
  by (simp add: items_inv_def items_ok_def refs_ok_def one_per_def no_items_def)

definition film_db :: items_db where
  "film_db = (case upsert_media_item 5 (film ''42'' ''/m/a.mkv'') no_items of Inr (db, _) \<Rightarrow> db | Inl _ \<Rightarrow> no_items)"

lemma film_added: "upsert_media_item 5 (film ''42'' ''/m/a.mkv'') no_items = Inr (film_db, 1)"
  by code_simp

lemma film_replaced: "\<exists>db. upsert_media_item 9 (film ''42'' ''/m/b.mkv'') film_db = Inr (db, 1)"
proof -
  have "case upsert_media_item 9 (film ''42'' ''/m/b.mkv'') film_db of Inr (db, i) \<Rightarrow> i = 1 | Inl _ \<Rightarrow> False"
    by code_simp
  then show ?thesis by (auto split: sum.splits)
qed

text \<open>
  C30: an upsert keeps the tables and says where the item is. From tables with one row per
  identity, unique (server, native id) pairs, one id per item and server, and no dangling
  parent or item, an upsert that has a key leads to such tables, in which the item's row has
  that key and is stamped, the server's id leads to the row and the row to the id; every other
  row, every id of another server and every id of another item that was not this one is
  untouched, and no row is lost.
\<close>

theorem upsert_keeps_tables:
  assumes "items_inv db" and "upsert_media_item now it db = Inr (db', i)"
  shows "items_inv db' \<and>
    (\<exists>m \<in> set (it_rows db'). mi_id m = i \<and> identity_key_for it = Inr (mi_identity m) \<and> mi_updated m = now \<and>
       mi_library m = rs_library it \<and> mi_kind m = rs_kind it) \<and>
    item_id_for (sr_rows db') (rs_server it) (rs_native it) = Some i \<and>
    native_id_of (sr_rows db') (rs_server it) i = Some (rs_native it) \<and>
    (\<forall>m \<in> set (it_rows db). mi_id m \<noteq> i \<longrightarrow> m \<in> set (it_rows db')) \<and>
    mi_id ` set (it_rows db') = insert i (mi_id ` set (it_rows db)) \<and>
    (\<forall>r \<in> set (sr_rows db). native_key r \<noteq> (rs_server it, rs_native it) \<and> slot_key r \<noteq> (i, rs_server it) \<longrightarrow>
       r \<in> set (sr_rows db'))"
  using assms by (rule upsert_tables)

theorem upsert_keeps_tables_witness:
  "items_inv film_db \<and> item_id_for (sr_rows film_db) ''plex'' ''42'' = Some 1"
  using upsert_keeps_tables [OF no_items_inv film_added] by (simp add: film_def)

subsection \<open>Keys\<close>

lemma split_fields:
  assumes "CHR '':'' \<notin> set kind" "CHR '':'' \<notin> set ns" "CHR '':'' \<notin> set v" "CHR '':'' \<notin> set c"
  shows "split_max CHR '':'' 4 (five_fields kind ns v c f) = [kind, ns, v, c, f]"
  using assms by (simp add: five_fields_def numeral_eq_Suc split_max_field del: split_max.simps) (simp add: split_max.simps)

lemma parent_key_of_season:
  assumes "rs_kind e = ''episode''" and "rs_kind s = ''season''"
    and "rs_parent_tmdb e = rs_tmdb s" and "rs_parent_tvdb e = rs_tvdb s" and "rs_parent_imdb e = rs_imdb s"
    and "rs_season e = rs_season s" and "rs_root e = rs_root s"
    and "identity_key_for s = Inr key" and "rs_root s \<noteq> [] \<or> truthy_int (rs_tmdb s)"
  shows "parent_identity_key_for e = Inr (Some key)"
proof -
  have "identity_key ''season'' (rs_tmdb s) (rs_tvdb s) (rs_imdb s) (rs_season s) None None (Some (rs_root s)) None =
      identity_key_for s"
    using assms(2) by (simp add: identity_key_for_def identity_key_def coords_of_def file_of_def FILE_BEARING_def
        path_field_def Let_def cong: option.case_cong split: option.split)
  with assms show ?thesis by (auto simp: parent_identity_key_for_def truthy_int_def)
qed

text \<open>The first field of a key is the kind.\<close>

lemma key_kind:
  assumes "identity_key kind tmdb tvdb imdb season episode file folder legacy = Inr key"
  obtains rest where "key = kind @ CHR '':'' # rest"
  using assms by (auto simp: identity_key_def five_fields_def Let_def split: option.splits prod.splits if_splits)

lemma kind_field: "CHR '':'' \<notin> set kind \<Longrightarrow> hd (split_max CHR '':'' 4 (kind @ CHR '':'' # rest)) = kind"
  by (simp add: numeral_eq_Suc split_max_field del: split_max.simps)

lemma other_kind_is_no_replacement:
  assumes "CHR '':'' \<notin> set k" "CHR '':'' \<notin> set k'" "k \<noteq> k'"
  shows "\<not> is_file_replacement (k @ CHR '':'' # rest) (k' @ CHR '':'' # rest')"
proof
  let ?a = "split_max CHR '':'' 4 (k @ CHR '':'' # rest)" and ?b = "split_max CHR '':'' 4 (k' @ CHR '':'' # rest')"
  assume "is_file_replacement (k @ CHR '':'' # rest) (k' @ CHR '':'' # rest')"
  then have "take 4 ?a = take 4 ?b" "?a \<noteq> []" "?b \<noteq> []" by (auto simp: is_file_replacement_def Let_def)
  then have "hd ?a = hd ?b" by (metis hd_take zero_less_numeral)
  with assms kind_field show False by metis
qed

lemma rekey_keeps_other_kinds:
  assumes "identity_key_for it = Inr key" and "CHR '':'' \<notin> set (rs_kind it)"
    and "m \<in> set (it_rows db)" and "mi_identity m = k @ CHR '':'' # rest" and "CHR '':'' \<notin> set k" and "k \<noteq> rs_kind it"
    and "items_inv db"
  shows "m \<in> set (it_rows (rekey_in_place now it key db))"
proof (cases "item_id_for (sr_rows db) (rs_server it) (rs_native it) = Some (mi_id m)")
  case True
  obtain rest' where key: "key = rs_kind it @ CHR '':'' # rest'"
    using assms(1) unfolding identity_key_for_def by (rule key_kind)
  have "mi_identity m \<noteq> rs_kind it @ '':legacy:plex:'' @ rs_native it"
  proof
    assume "mi_identity m = rs_kind it @ '':legacy:plex:'' @ rs_native it"
    then have "k @ CHR '':'' # rest = rs_kind it @ CHR '':'' # (''legacy:plex:'' @ rs_native it)"
      using assms(4) by simp
    with assms(2,5,6) kind_field show False by metis
  qed
  moreover have "\<not> is_file_replacement (mi_identity m) key"
    unfolding assms(4) key using assms(2,5,6) by (intro other_kind_is_no_replacement) auto
  moreover have "item_by_id (it_rows db) (mi_id m) = Some m"
    using items_by_id assms(3,7) by (auto simp: items_inv_def)
  ultimately have "rekey_in_place now it key db = db" using True by (simp add: rekey_in_place_def)
  with assms(3) show ?thesis by simp
next
  case False
  show ?thesis
  proof (rule rekey_cases [OF refl, of now it key db])
    assume "rekey_in_place now it key db = db" with assms(3) show ?thesis by simp
  next
    fix p assume "item_id_for (sr_rows db) (rs_server it) (rs_native it) = Some (mi_id p)"
      and eq: "rekey_in_place now it key db = rekeyed now (mi_id p) key db"
    with False have "mi_id m \<noteq> mi_id p" by auto
    with assms(3) show ?thesis unfolding eq rekeyed_def by (simp add: update_where_miss)
  qed
qed

text \<open>
  C31: a row survives the replacement of its file, and a second file is a second row. If the
  server id of what was resolved leads to row \<open>j\<close>, whose key differs from the new one at most in
  the file, and no other row has the new key, then the upsert writes row \<open>j\<close> and adds none, so
  whatever hangs on its id stays; if that server id is unknown and no row has the key, a row is
  added and every other is left as it is, however alike its key.
\<close>

theorem replacement_keeps_the_row:
  assumes "items_inv db" and "upsert_media_item now it db = Inr (db', i)"
    and "identity_key_for it = Inr (five_fields kind ns v c f')"
    and "list_all (\<lambda>s. CHR '':'' \<notin> set s) [kind, ns, v, c]"
  shows "(\<forall>j m f. item_id_for (sr_rows db) (rs_server it) (rs_native it) = Some j \<and> m \<in> set (it_rows db) \<and> mi_id m = j \<and>
      mi_identity m = five_fields kind ns v c f \<and>
      (\<forall>q \<in> set (it_rows db). mi_identity q = five_fields kind ns v c f' \<longrightarrow> q = m) \<longrightarrow>
      i = j \<and> length (it_rows db') = length (it_rows db)) \<and>
    (item_id_for (sr_rows db) (rs_server it) (rs_native it) = None \<and>
     (\<forall>q \<in> set (it_rows db). mi_identity q \<noteq> five_fields kind ns v c f') \<longrightarrow>
      i \<notin> mi_id ` set (it_rows db) \<and> (\<exists>m. it_rows db' = it_rows db @ [m] \<and> mi_id m = i))"
proof -
  let ?key = "five_fields kind ns v c f'"
  obtain parent db2 where w: "write_item now ?key parent it (rekey_in_place now it ?key db) = (db2, i)"
    and db': "db' = upsert_server_ref now i it db2"
    using assms(2,3) by (elim upsert_media_item_steps) auto
  have ok: "items_ok (it_next db) (it_rows db)" using assms(1) by (simp add: items_inv_def)
  have len: "length (it_rows (rekey_in_place now it ?key db)) = length (it_rows db)"
    by (metis length_map rekey_keeps(3))
  have same: "i = mi_id m \<and> length (it_rows db') = length (it_rows db)"
    if j: "item_id_for (sr_rows db) (rs_server it) (rs_native it) = Some (mi_id m)" and m: "m \<in> set (it_rows db)"
      and mk: "mi_identity m = five_fields kind ns v c f"
      and none: "\<forall>q \<in> set (it_rows db). mi_identity q = ?key \<longrightarrow> q = m" for m f
  proof -
    have "item_with_key (it_rows (rekey_in_place now it ?key db)) ?key \<noteq> None \<and>
        (\<forall>q. item_with_key (it_rows (rekey_in_place now it ?key db)) ?key = Some q \<longrightarrow> mi_id q = mi_id m)"
    proof (cases "f = f'")
      case True
      with mk have "rekey_in_place now it ?key db = db"
        using j items_by_id [OF ok m] by (simp add: rekey_in_place_def)
      with True mk item_with_key_unique [OF ok m] show ?thesis by simp
    next
      case False
      have "is_file_replacement (mi_identity m) ?key"
        using assms(4) False by (simp add: mk is_file_replacement_def split_fields)
      moreover have nk: "mi_identity m \<noteq> ?key" using mk False by (simp add: five_fields_def)
      moreover have "item_with_key (it_rows db) ?key = None" using none nk by (auto simp: item_with_key_None)
      ultimately have r: "rekey_in_place now it ?key db = rekeyed now (mi_id m) ?key db"
        using j items_by_id [OF ok m] by (simp add: rekey_in_place_def rekeyed_def)
      let ?m = "m\<lparr>mi_identity := ?key, mi_updated := now\<rparr>"
      have "?m \<in> set (it_rows (rekey_in_place now it ?key db))" unfolding r rekeyed_def
        using update_where_hit [of m "it_rows db" "\<lambda>r. mi_id r = mi_id m" "\<lambda>r. r\<lparr>mi_identity := ?key, mi_updated := now\<rparr>"] m by simp
      then have "item_with_key (it_rows (rekey_in_place now it ?key db)) ?key = Some ?m"
        using rekey_inv [OF assms(1), of now it ?key] by (intro item_with_key_unique) (auto simp: items_inv_def)
      then show ?thesis by simp
    qed
    with w len show ?thesis by (auto simp: write_item_def db' split: option.splits)
  qed
  have added: "i \<notin> mi_id ` set (it_rows db) \<and> (\<exists>m. it_rows db' = it_rows db @ [m] \<and> mi_id m = i)"
    if "item_id_for (sr_rows db) (rs_server it) (rs_native it) = None" "\<forall>q \<in> set (it_rows db). mi_identity q \<noteq> ?key"
  proof -
    from that(1) have "rekey_in_place now it ?key db = db" by (simp add: rekey_in_place_def)
    with w that(2) have "i = it_next db" "it_rows db2 = it_rows db @ [fresh_item i now ?key parent it]"
      by (auto simp: write_item_def item_with_key_None [symmetric] split: option.splits)
    moreover have "it_next db \<notin> mi_id ` set (it_rows db)" using ok by (auto simp: items_ok_def)
    moreover have "mi_id (fresh_item i now ?key parent it) = i" by (simp add: fresh_item_def)
    ultimately show ?thesis by (simp add: db')
  qed
  show ?thesis
  proof (rule conjI; intro allI impI; elim conjE)
    fix j m f assume a: "item_id_for (sr_rows db) (rs_server it) (rs_native it) = Some j"
      and b: "m \<in> set (it_rows db)" and c: "mi_id m = j" and d: "mi_identity m = five_fields kind ns v c f"
      and e: "\<forall>q \<in> set (it_rows db). mi_identity q = ?key \<longrightarrow> q = m"
    show "i = j \<and> length (it_rows db') = length (it_rows db)"
      unfolding c [symmetric] by (rule same [OF a [folded c] b d e])
  qed (rule added)
qed

theorem replacement_keeps_the_row_witness:
  "\<exists>db'. upsert_media_item 9 (film ''42'' ''/m/b.mkv'') film_db = Inr (db', 1) \<and>
     length (it_rows db') = length (it_rows film_db)"
proof -
  obtain db' where u: "upsert_media_item 9 (film ''42'' ''/m/b.mkv'') film_db = Inr (db', 1)"
    using film_replaced by blast
  have inv: "items_inv film_db" using upsert_tables [OF no_items_inv film_added] by blast
  have key: "identity_key_for (film ''42'' ''/m/b.mkv'') = Inr (five_fields ''movie'' ''tmdb'' ''603'' [] ''b.mkv'')"
    by code_simp
  obtain m where rows: "it_rows film_db = [m]" and id: "item_id_for (sr_rows film_db) ''plex'' ''42'' = Some (mi_id m)"
    and mk: "mi_identity m = five_fields ''movie'' ''tmdb'' ''603'' [] ''a.mkv''"
  proof -
    have "(case it_rows film_db of [m] \<Rightarrow> item_id_for (sr_rows film_db) ''plex'' ''42'' = Some (mi_id m) \<and>
        mi_identity m = five_fields ''movie'' ''tmdb'' ''603'' [] ''a.mkv'' | _ \<Rightarrow> False)" by code_simp
    then show ?thesis using that by (auto split: list.splits)
  qed
  have "length (it_rows db') = length (it_rows film_db)"
    using replacement_keeps_the_row [OF inv u key] id rows mk by (simp add: film_def) blast
  with u show ?thesis by blast
qed

text \<open>
  Children find their parent. If a season is upserted and then an episode that carries the
  season's provider ids as its parent's, its number and its folder, from whichever servers, then
  the episode's row hangs below the season's.
\<close>

theorem episode_finds_season:
  assumes "items_inv db" and "upsert_media_item t1 s db = Inr (db1, p)" and "upsert_media_item t2 e db1 = Inr (db2, i)"
    and "rs_kind s = ''season''" and "rs_kind e = ''episode''"
    and "rs_parent_tmdb e = rs_tmdb s" and "rs_parent_tvdb e = rs_tvdb s" and "rs_parent_imdb e = rs_imdb s"
    and "rs_season e = rs_season s" and "rs_root e = rs_root s" and "rs_root s \<noteq> [] \<or> truthy_int (rs_tmdb s)"
  shows "\<exists>m \<in> set (it_rows db2). mi_id m = i \<and> mi_parent m = Some p"
proof -
  note first = upsert_tables [OF assms(1,2)]
  then obtain m where m: "m \<in> set (it_rows db1)" "mi_id m = p" "identity_key_for s = Inr (mi_identity m)" by blast
  have inv: "items_inv db1" using first by blast
  obtain key parent db' where key: "identity_key_for e = Inr key"
    and parent: "parent = (case projr (parent_identity_key_for e) of None \<Rightarrow> None
       | Some k \<Rightarrow> map_option mi_id (item_with_key (it_rows (rekey_in_place t2 e key db1)) k))"
    and w: "write_item t2 key parent e (rekey_in_place t2 e key db1) = (db', i)"
    and db2: "db2 = upsert_server_ref t2 i e db'"
    using assms(3) by (rule upsert_media_item_steps)
  have pk: "parent_identity_key_for e = Inr (Some (mi_identity m))"
    using parent_key_of_season [OF assms(5,4,6-10) m(3) assms(11)] .
  obtain rest where "mi_identity m = ''season'' @ CHR '':'' # rest"
    using m(3) assms(4) unfolding identity_key_for_def by (metis key_kind)
  then have "m \<in> set (it_rows (rekey_in_place t2 e key db1))"
    using rekey_keeps_other_kinds [OF key _ m(1) _ _ _ inv, of "''season''" rest] assms(5) by simp
  then have "parent = Some p"
    using parent pk rekey_inv [OF inv, of t2 e key] m(2) item_with_key_unique [of _ _ m] by (auto simp: items_inv_def)
  with write_item_spec [OF rekey_inv [OF inv] w parent_is_row [OF parent]] show ?thesis
    by (auto simp: db2)
qed
theorem episode_finds_season_witness:
  "\<exists>db1 db2 p i. upsert_media_item 5 (show_part ''plex'' ''70'' ''season'' None) no_items = Inr (db1, p) \<and>
     upsert_media_item 6 (show_part ''jellyfin'' ''ab'' ''episode'' (Some 2)) db1 = Inr (db2, i) \<and>
     (\<exists>m \<in> set (it_rows db2). mi_id m = i \<and> mi_parent m = Some p)"
proof -
  let ?s = "show_part ''plex'' ''70'' ''season'' None" and ?e = "show_part ''jellyfin'' ''ab'' ''episode'' (Some 2)"
  have "(case upsert_media_item 5 ?s no_items of Inl _ \<Rightarrow> False
      | Inr (db1, p) \<Rightarrow> (case upsert_media_item 6 ?e db1 of Inl _ \<Rightarrow> False | Inr _ \<Rightarrow> True))" by code_simp
  then obtain db1 p db2 i where u: "upsert_media_item 5 ?s no_items = Inr (db1, p)" "upsert_media_item 6 ?e db1 = Inr (db2, i)"
    by (auto split: sum.splits)
  have "\<exists>m \<in> set (it_rows db2). mi_id m = i \<and> mi_parent m = Some p"
    by (rule episode_finds_season [OF no_items_inv u]) (simp_all add: show_part_def)
  with u show ?thesis by blast
qed

end
