(* ===== verification/Prune_Props.thy ===== *)
theory Prune_Props
  imports Prune Items_Props
begin

text \<open>
  Why a prune loses nothing that lives: the ancestors of a row in a table without cycles, the
  candidates as a set closed under children, and the deletes beside other writers.
\<close>

subsection \<open>Ancestors\<close>

definition forest :: "(nat \<Rightarrow> nat) \<Rightarrow> media_item list \<Rightarrow> bool" where
  "forest depth rows \<longleftrightarrow> distinct (map mi_id rows) \<and>
     (\<forall>m \<in> set rows. \<forall>p. mi_parent m = Some p \<longrightarrow> p \<in> mi_id ` set rows \<and> depth p < depth (mi_id m))"

lemma forest_by_id: "forest depth rows \<Longrightarrow> m \<in> set rows \<Longrightarrow> item_by_id rows (mi_id m) = Some m"
  using find_unique [of mi_id rows m "mi_id m"] by (simp add: forest_def item_by_id_def)

lemma forest_parent:
  assumes "forest depth rows" and "m \<in> set rows" and "mi_parent m = Some p"
  obtains q where "q \<in> set rows" "mi_id q = p" "depth p < depth (mi_id m)"
  using assms unfolding forest_def by blast

lemma walk_up_any:
  assumes "forest depth rows" and "m \<in> set rows" and "\<forall>s \<in> set seen. depth (mi_id m) \<le> depth s"
  shows "walk_up rows seen m = ancestors rows m"
  using assms(2,3)
proof (induction "depth (mi_id m)" arbitrary: m seen rule: less_induct)
  case less
  show ?case
  proof (cases "mi_parent m")
    case None
    then show ?thesis by (simp add: ancestors_def walk_up.simps [of rows _ m])
  next
    case (Some p)
    obtain q where q: "q \<in> set rows" "mi_id q = p" "depth p < depth (mi_id m)"
      using assms(1) less.prems(1) Some by (rule forest_parent)
    have "p \<notin> set seen" using q(3) less.prems(2) by force
    moreover have "p \<noteq> mi_id m" using q(3) by auto
    moreover have "item_by_id rows p = Some q" using forest_by_id [OF assms(1) q(1)] q(2) by simp
    moreover have "\<forall>s \<in> set seen. depth (mi_id q) \<le> depth s"
      using less.prems(2) q(2,3) by (meson less_imp_le order.trans)
    then have "walk_up rows (p # seen) q = ancestors rows q" "walk_up rows [p, mi_id m] q = ancestors rows q"
      using q by (auto intro!: less.hyps)
    ultimately show ?thesis using Some by (simp add: ancestors_def walk_up.simps [of rows _ m])
  qed
qed

lemma ancestors_step:
  assumes "forest depth rows" and "m \<in> set rows" and "mi_parent m = Some p" and "q \<in> set rows" and "mi_id q = p"
  shows "ancestors rows m = p # ancestors rows q"
proof -
  have "depth p < depth (mi_id m)" using assms(1-3) by (auto simp: forest_def)
  then have "p \<noteq> mi_id m" "depth p < depth (mi_id m)" by auto
  moreover have "item_by_id rows p = Some q" using forest_by_id [OF assms(1,4)] assms(5) by simp
  moreover have "walk_up rows [p, mi_id m] q = ancestors rows q"
    using assms calculation by (intro walk_up_any) auto
  ultimately show ?thesis using assms(3) by (simp add: ancestors_def [of rows m] walk_up.simps [of rows _ m])
qed

lemma ancestors_root: "mi_parent m = None \<Longrightarrow> ancestors rows m = []"
  by (simp add: ancestors_def walk_up.simps [of rows _ m])

lemma ancestors_closed:
  assumes "forest depth rows" and "m \<in> set rows" and "mi_id q \<in> set (ancestors rows m)" and "q \<in> set rows"
    and "mi_parent q = Some p"
  shows "p \<in> set (ancestors rows m)"
  using assms(2,3)
proof (induction "depth (mi_id m)" arbitrary: m rule: less_induct)
  case less
  show ?case
  proof (cases "mi_parent m")
    case None
    with less.prems show ?thesis by (simp add: ancestors_root)
  next
    case (Some u)
    obtain v where v: "v \<in> set rows" "mi_id v = u" "depth u < depth (mi_id m)"
      using assms(1) less.prems(1) Some by (rule forest_parent)
    note step = ancestors_step [OF assms(1) less.prems(1) Some v(1,2)]
    show ?thesis
    proof (cases "mi_id q = u")
      case True
      then have "q = v" using forest_by_id [OF assms(1) assms(4)] forest_by_id [OF assms(1) v(1)] v(2) by simp
      moreover obtain w where "w \<in> set rows" "mi_id w = p" using assms(1,4,5) by (rule forest_parent)
      ultimately have "p \<in> set (ancestors rows v)" using ancestors_step [OF assms(1) v(1)] assms(5) by simp
      then show ?thesis by (simp add: step)
    next
      case False
      with less.prems(2) step less.hyps [of v] v show ?thesis by simp
    qed
  qed
qed

subsection \<open>The plan\<close>

lemma plan_mem:
  "c \<in> set (sc_prunable (prune_plan cands excluded found rs)) \<longleftrightarrow> c \<in> set cands \<and>
     mi_id (c_row c) \<in> (mi_id \<circ> c_row) ` {d \<in> set cands. mi_id (c_row d) \<notin> set (remaining_ids found rs)} \<and>
     (\<forall>d \<in> set cands. mi_id (c_row d) \<in> set (remaining_ids found rs) \<longrightarrow>
        mi_id (c_row c) \<notin> set (ancestors (map c_row cands) (c_row d)))"
  by (auto simp: prune_plan_def Let_def)

lemma plan_unreachable:
  "c \<in> set (sc_prunable (prune_plan cands excluded found rs)) \<Longrightarrow> mi_id (c_row c) \<notin> set (remaining_ids found rs)"
  by (auto simp: plan_mem)

text \<open>The children of a candidate are candidates, and they come before it.\<close>

lemma plan_children:
  assumes "forest depth (map c_row cands)" and "sc_prunable (prune_plan cands excluded found rs) = before @ c # rest"
    and "d \<in> set cands" and "mi_parent (c_row d) = Some (mi_id (c_row c))"
  shows "d \<in> set before"
proof -
  let ?rows = "map c_row cands" and ?P = "sc_prunable (prune_plan cands excluded found rs)"
  let ?len = "\<lambda>c. length (ancestors ?rows (c_row c))"
  have "c \<in> set ?P" using assms(2) by simp
  then have c: "c \<in> set cands" "mi_id (c_row c) \<notin> set (remaining_ids found rs)"
    "\<And>e. e \<in> set cands \<Longrightarrow> mi_id (c_row e) \<in> set (remaining_ids found rs) \<Longrightarrow>
       mi_id (c_row c) \<notin> set (ancestors ?rows (c_row e))"
    by (auto simp: plan_mem)
  have rows: "c_row c \<in> set ?rows" "c_row d \<in> set ?rows" using c(1) assms(3) by auto
  note step = ancestors_step [OF assms(1) rows(2) assms(4) rows(1) refl]
  have "mi_id (c_row d) \<notin> set (remaining_ids found rs)"
    using c(3) [OF assms(3)] by (auto simp: step)
  moreover have "mi_id (c_row d) \<notin> set (ancestors ?rows (c_row e))"
    if "e \<in> set cands" "mi_id (c_row e) \<in> set (remaining_ids found rs)" for e
    using ancestors_closed [OF assms(1) _ _ rows(2) assms(4), of "c_row e"] c(3) [OF that] that(1) by auto
  ultimately have "d \<in> set ?P" using assms(3) by (auto simp: plan_mem)
  moreover have "d \<notin> set (c # rest)"
  proof
    assume d: "d \<in> set (c # rest)"
    have "sorted (map (\<lambda>c. - int (?len c)) ?P)" by (simp add: prune_plan_def Let_def)
    then have "sorted (map (\<lambda>c. - int (?len c)) (c # rest))" unfolding assms(2) by (simp add: sorted_append)
    with d have "?len d \<le> ?len c" by auto
    with step show False by simp
  qed
  ultimately show ?thesis unfolding assms(2) by auto
qed

subsection \<open>Other writers\<close>

text \<open>
  What the transactions beside a prune may do to the items: insert rows under new ids, and write
  a row, which stamps it. They delete no row, give no known row another parent, and write no
  audit of a prune.
\<close>

definition other_writers :: "prune_db \<Rightarrow> prune_db \<Rightarrow> bool" where
  "other_writers db db' \<longleftrightarrow> pn_audits db' = pn_audits db \<and>
     it_next (pn_items db) \<le> it_next (pn_items db') \<and> 
     (distinct (map mi_id (it_rows (pn_items db))) \<longrightarrow> distinct (map mi_id (it_rows (pn_items db')))) \<and>
     (\<forall>m \<in> set (it_rows (pn_items db)). \<exists>m' \<in> set (it_rows (pn_items db')). mi_id m' = mi_id m \<and>
        (m = m' \<or> mi_updated m < mi_updated m')) \<and>
     (\<forall>m' \<in> set (it_rows (pn_items db')). mi_id m' < it_next (pn_items db) \<longrightarrow>
        (\<exists>m \<in> set (it_rows (pn_items db)). mi_id m = mi_id m' \<and> mi_parent m = mi_parent m' \<and>
           (m = m' \<or> mi_updated m < mi_updated m')))"

text \<open>The only writer of the table is one of them, as long as it fills in no parent.\<close>

lemma upsert_is_other_writer:
  assumes "items_inv (pn_items db)" and "upsert_media_item now it (pn_items db) = Inr (t, i)"
    and "\<forall>m \<in> set (it_rows (pn_items db)). mi_updated m < now"
    and "\<forall>m \<in> set (it_rows (pn_items db)). \<forall>m' \<in> set (it_rows t). mi_id m = i \<and> mi_id m' = i \<longrightarrow> mi_parent m' = mi_parent m"
    and "it_next (pn_items db) \<le> it_next t" and "i < it_next (pn_items db) \<longrightarrow> i \<in> mi_id ` set (it_rows (pn_items db))"
  shows "other_writers db (db\<lparr>pn_items := t\<rparr>)"
proof -
  let ?old = "it_rows (pn_items db)"
  note u = upsert_tables [OF assms(1,2)]
  then have inv: "items_inv t" by blast
  then have dist: "distinct (map mi_id (it_rows t))" by (simp add: items_inv_def items_ok_def)
  from u obtain w where w: "w \<in> set (it_rows t)" "mi_id w = i" "mi_updated w = now" by blast
  have keep: "m \<in> set (it_rows t)" if "m \<in> set ?old" "mi_id m \<noteq> i" for m using u that by blast
  have "\<exists>m' \<in> set (it_rows t). mi_id m' = mi_id m \<and> (m = m' \<or> mi_updated m < mi_updated m')" if "m \<in> set ?old" for m
    using that keep w assms(3) by (cases "mi_id m = i") auto
  moreover have "\<exists>m \<in> set ?old. mi_id m = mi_id m' \<and> mi_parent m = mi_parent m' \<and> (m = m' \<or> mi_updated m < mi_updated m')"
    if m': "m' \<in> set (it_rows t)" "mi_id m' < it_next (pn_items db)" for m'
  proof (cases "mi_id m' = i")
    case True
    then have "m' = w" using distinct_map_inj [OF dist m'(1) w(1)] w(2) by simp
    obtain m where "m \<in> set ?old" "mi_id m = i" using assms(6) True m'(2) by auto
    with assms(3,4) m'(1) True \<open>m' = w\<close> w show ?thesis by (intro bexI [of _ m]) auto
  next
    case False
    have "mi_id m' \<in> insert i (mi_id ` set ?old)" using u m'(1) by (metis imageI)
    with False obtain m where "m \<in> set ?old" "mi_id m = mi_id m'" by auto
    with False keep [of m] distinct_map_inj [OF dist, of m m'] m'(1) show ?thesis by (intro bexI [of _ m]) auto
  qed
  ultimately show ?thesis using assms(5) dist by (simp add: other_writers_def)
qed

text \<open>What is left of the rows \<open>known\<close> at the scan: themselves, or a later version.\<close>

definition later_versions :: "media_item list \<Rightarrow> prune_db \<Rightarrow> bool" where
  "later_versions known db \<longleftrightarrow> (\<forall>m \<in> set known. mi_id m < it_next (pn_items db)) \<and>
     distinct (map mi_id (it_rows (pn_items db))) \<and>
     (\<forall>m' \<in> set (it_rows (pn_items db)). mi_id m' \<in> mi_id ` set known \<longrightarrow>
        (\<exists>m \<in> set known. mi_id m = mi_id m' \<and> mi_parent m = mi_parent m' \<and> (m = m' \<or> mi_updated m < mi_updated m')))"

abbreviation present :: "prune_db \<Rightarrow> nat set" where
  "present db \<equiv> mi_id ` set (it_rows (pn_items db))"

lemma later_versions_step:
  assumes "later_versions known db" and "other_writers db db'"
  shows "later_versions known db'"
proof -
  have "\<exists>m \<in> set known. mi_id m = mi_id m' \<and> mi_parent m = mi_parent m' \<and> (m = m' \<or> mi_updated m < mi_updated m')"
    if m': "m' \<in> set (it_rows (pn_items db'))" "mi_id m' \<in> mi_id ` set known" for m'
  proof -
    have "mi_id m' < it_next (pn_items db)" using assms(1) m'(2) by (auto simp: later_versions_def)
    then obtain q where q: "q \<in> set (it_rows (pn_items db))" "mi_id q = mi_id m'" "mi_parent q = mi_parent m'"
        "q = m' \<or> mi_updated q < mi_updated m'"
      using assms(2) m'(1) unfolding other_writers_def by blast
    have "mi_id q \<in> mi_id ` set known" using m'(2) q(2) by simp
    then obtain m where m: "m \<in> set known" "mi_id m = mi_id q" "mi_parent m = mi_parent q" "m = q \<or> mi_updated m < mi_updated q"
      using assms(1) q(1) unfolding later_versions_def by blast
    from m(4) q(4) have "m = m' \<or> mi_updated m < mi_updated m'" by (elim disjE) simp_all
    with m(1-3) q(2,3) show ?thesis by (intro bexI [OF _ m(1)]) simp
  qed
  moreover have "\<forall>m \<in> set known. mi_id m < it_next (pn_items db')"
    using assms unfolding later_versions_def other_writers_def by (meson less_le_trans)
  ultimately show ?thesis using assms by (simp add: later_versions_def other_writers_def)
qed

lemma present_step:
  assumes "later_versions known db" and "other_writers db db'" and "i \<in> mi_id ` set known"
  shows "i \<in> present db' \<longleftrightarrow> i \<in> present db"
proof -
  have "i < it_next (pn_items db)" using assms(1,3) by (auto simp: later_versions_def)
  show ?thesis
  proof
    assume "i \<in> present db'"
    then obtain m' where "m' \<in> set (it_rows (pn_items db'))" "i = mi_id m'" by blast
    moreover from this obtain m where "m \<in> set (it_rows (pn_items db))" "mi_id m = mi_id m'"
      using assms(2) \<open>i < it_next (pn_items db)\<close> unfolding other_writers_def by blast
    ultimately show "i \<in> present db" by (metis imageI)
  next
    assume "i \<in> present db"
    then obtain m where "m \<in> set (it_rows (pn_items db))" "i = mi_id m" by blast
    moreover from this obtain m' where "m' \<in> set (it_rows (pn_items db'))" "mi_id m' = mi_id m"
      using assms(2) unfolding other_writers_def by blast
    ultimately show "i \<in> present db'" by (metis imageI)
  qed
qed


subsection \<open>Deletes\<close>

lemma cascade_within:
  assumes "set ids \<subseteq> S"
    and "\<And>m p. m \<in> set rows \<Longrightarrow> mi_parent m = Some p \<Longrightarrow> p \<in> S \<Longrightarrow> mi_id m \<in> S"
  shows "set (cascade rows ids) \<subseteq> S"
  using assms
proof (induction rows ids rule: cascade.induct)
  case (1 rows ids)
  have "set (children_of rows ids) \<subseteq> S"
    using "1.prems" by (auto simp: children_of_def split: option.splits)
  with 1 show ?case by (subst cascade.simps) (auto simp: Let_def)
qed

lemma cascade_self: "i \<in> set ids \<Longrightarrow> i \<in> set (cascade rows ids)"
proof (induction rows ids rule: cascade.induct)
  case (1 rows ids)
  then show ?case by (subst cascade.simps) (auto simp: Let_def)
qed

text \<open>The work of \<open>retire\<close> is sound at a point of the pass: what it has done and has left.\<close>

definition pass_ok :: "media_item list \<Rightarrow> prune_candidate list \<Rightarrow> nat list \<Rightarrow> prune_db \<Rightarrow> bool" where
  "pass_ok known before blocked db \<longleftrightarrow> later_versions known db \<and>
     (\<forall>d \<in> set before. mi_id (c_row d) \<in> present db \<longrightarrow>
        (\<forall>p. mi_parent (c_row d) = Some p \<longrightarrow> p \<in> set blocked))"

definition closed_plan :: "media_item list \<Rightarrow> prune_candidate list \<Rightarrow> bool" where
  "closed_plan known plan \<longleftrightarrow> distinct (map mi_id known) \<and>
     (\<forall>m \<in> set known. \<forall>p. mi_parent m = Some p \<longrightarrow> p \<in> mi_id ` set known) \<and>
     (\<forall>c \<in> set plan. c_row c \<in> set known) \<and>
     (\<forall>before c rest m. plan = before @ c # rest \<longrightarrow> m \<in> set known \<longrightarrow> mi_parent m = Some (mi_id (c_row c)) \<longrightarrow>
        (\<exists>d \<in> set before. c_row d = m))"

lemma pass_ok_step:
  assumes "pass_ok known before blocked db" and "other_writers db db'" and "\<forall>d \<in> set before. c_row d \<in> set known"
  shows "pass_ok known before blocked db'"
  using assms later_versions_step present_step [OF _ assms(2)] unfolding pass_ok_def by (metis imageI)

lemma delete_alone:
  assumes "closed_plan known (before @ c # rest)" and "pass_ok known before blocked db"
    and "mi_id (c_row c) \<notin> set blocked" and "i \<in> mi_id ` set known"
  shows "i \<in> present (delete_item (mi_id (c_row c)) db) \<longleftrightarrow> i \<in> present db \<and> i \<noteq> mi_id (c_row c)"
proof -
  let ?c = "mi_id (c_row c)" and ?rows = "it_rows (pn_items db)"
  let ?S = "{x. x = ?c \<or> x \<notin> mi_id ` set known}"
  have "set (cascade ?rows [?c]) \<subseteq> ?S"
  proof (rule cascade_within)
    fix m p assume m: "m \<in> set ?rows" "mi_parent m = Some p" "p \<in> ?S"
    show "mi_id m \<in> ?S"
    proof (rule ccontr)
      assume "mi_id m \<notin> ?S"
      then have known: "mi_id m \<in> mi_id ` set known" "mi_id m \<noteq> ?c" by auto
      then obtain q where q: "q \<in> set known" "mi_id q = mi_id m" "mi_parent q = Some p"
        using assms(2) m(1,2) unfolding pass_ok_def later_versions_def by (metis (no_types, lifting))
      then have "p \<in> mi_id ` set known" using assms(1) by (auto simp: closed_plan_def)
      with m(3) have "p = ?c" by simp
      then obtain d where "d \<in> set before" "c_row d = q"
        using assms(1) q unfolding closed_plan_def by metis
      moreover have "mi_id q \<in> present db" using m(1) q(2) by (metis imageI)
      ultimately have "?c \<in> set blocked" using assms(2) q(3) \<open>p = ?c\<close> by (auto simp: pass_ok_def)
      with assms(3) show False by blast
    qed
  qed simp
  then have "i \<in> set (cascade ?rows [?c]) \<longleftrightarrow> i = ?c" using assms(4) cascade_self [of ?c "[?c]" ?rows] by auto
  then show ?thesis by (auto simp: delete_item_def Let_def)
qed

lemma delete_item_keeps [simp]:
  "it_next (pn_items (delete_item i db)) = it_next (pn_items db)"
  "pn_audits (delete_item i db) = pn_audits db" "pn_queue (delete_item i db) = pn_queue db"
  by (simp_all add: delete_item_def Let_def)

lemma delete_item_sub: "set (it_rows (pn_items (delete_item i db))) \<subseteq> set (it_rows (pn_items db))"
  by (auto simp: delete_item_def Let_def)

lemma delete_item_stays: "m \<in> set (it_rows (pn_items db)) \<Longrightarrow> mi_id m \<in> present (delete_item i db) \<Longrightarrow>
    m \<in> set (it_rows (pn_items (delete_item i db)))"
  by (auto simp: delete_item_def Let_def)

text \<open>A row that has changed since the scan.\<close>

definition changed :: "media_item list \<Rightarrow> prune_db \<Rightarrow> nat \<Rightarrow> bool" where
  "changed known db i \<longleftrightarrow> (\<exists>m' \<in> set (it_rows (pn_items db)). \<exists>m \<in> set known.
     mi_id m' = i \<and> mi_id m = i \<and> mi_updated m < mi_updated m')"

lemma changed_step:
  assumes "changed known db i" and "other_writers db db'"
  shows "changed known db' i"
proof -
  obtain m' m where m: "m' \<in> set (it_rows (pn_items db))" "m \<in> set known" "mi_id m' = i" "mi_id m = i"
    "mi_updated m < mi_updated m'" using assms(1) by (auto simp: changed_def)
  then obtain q where q: "q \<in> set (it_rows (pn_items db'))" "mi_id q = mi_id m'" "m' = q \<or> mi_updated m' < mi_updated q"
    using assms(2) unfolding other_writers_def by blast
  then have "mi_updated m < mi_updated q" using m(5) by auto
  with m q show ?thesis unfolding changed_def by (intro bexI [OF _ q(1)] bexI [OF _ m(2)]) simp
qed

lemma changed_guard:
  assumes "changed known db (mi_id r)" and "later_versions known db" and "distinct (map mi_id known)" and "r \<in> set known"
    and "m \<in> set (it_rows (pn_items db))" and "mi_id m = mi_id r"
  shows "mi_updated m \<noteq> mi_updated r"
proof -
  obtain m' q where m': "m' \<in> set (it_rows (pn_items db))" "q \<in> set known" "mi_id m' = mi_id r" "mi_id q = mi_id r"
    "mi_updated q < mi_updated m'" using assms(1) by (auto simp: changed_def)
  have "m' = m" using assms(2,5,6) m'(1,3) distinct_map_inj [of mi_id "it_rows (pn_items db)" m' m]
    by (simp add: later_versions_def)
  moreover have "q = r" using distinct_map_inj [OF assms(3) m'(2) assms(4) m'(4)] .
  ultimately show ?thesis using m'(5) by simp
qed

lemma retire_sound:
  assumes "retire env n cs blocked db = (db', pruned, skipped)"
    and "\<And>n d. other_writers d (env n d)"
    and "closed_plan known (before @ cs)" and "pass_ok known before blocked db"
  shows "(\<forall>i \<in> mi_id ` set known. i \<in> present db' \<longleftrightarrow> i \<in> present db \<and> i \<notin> set pruned) \<and>
    (\<forall>i \<in> set pruned. \<not> changed known db i) \<and> length pruned + skipped = length cs \<and>
    (\<exists>as. pn_audits db' = pn_audits db @ as \<and> map au_item as = pruned \<and>
       (\<forall>a \<in> set as. \<exists>c \<in> set cs. a = audit_of c (au_renders a)))"
  using assms(1,3,4)
proof (induction cs arbitrary: n blocked db db' pruned skipped before)
  case Nil
  then show ?case by simp
next
  case (Cons c cs)
  let ?c = "mi_id (c_row c)"
  have known: "distinct (map mi_id known)" "c_row c \<in> set known" "\<forall>d \<in> set before. c_row d \<in> set known"
    using Cons.prems(2) by (auto simp: closed_plan_def)
  have plan: "closed_plan known ((before @ [c]) @ cs)" using Cons.prems(2) by simp
  have skip: "pass_ok known (before @ [c]) (shield c blocked) d" if "pass_ok known before blocked d" for d
    using that by (auto simp: pass_ok_def shield_def split: option.split)
  show ?case
  proof (cases "?c \<in> set blocked")
    case True
    then obtain skipped' where "retire env n cs (shield c blocked) db = (db', pruned, skipped')" "skipped = Suc skipped'"
      using Cons.prems(1) by (auto split: prod.splits)
    with Cons.IH [OF this(1) plan skip [OF Cons.prems(3)]] show ?thesis by auto
  next
    case False
    let ?db1 = "env n db" let ?db2 = "env (Suc n) ?db1"
    let ?count = "length (filter (\<lambda>x. x = ?c) (pn_renders ?db1))"
    have ok1: "pass_ok known before blocked ?db1" using pass_ok_step [OF Cons.prems(3) assms(2) known(3)] .
    have ok2: "pass_ok known before blocked ?db2" using pass_ok_step [OF ok1 assms(2) known(3)] .
    have here: "i \<in> present ?db2 \<longleftrightarrow> i \<in> present db" if "i \<in> mi_id ` set known" for i
      using present_step [OF _ assms(2) that] Cons.prems(3) ok1 by (auto simp: pass_ok_def)
    have audits: "pn_audits ?db2 = pn_audits db" using assms(2) by (metis other_writers_def)
    have changes: "changed known ?db2 i" if "changed known db i" for i
      using changed_step [OF changed_step [OF that assms(2)] assms(2)] .
    show ?thesis
    proof (cases "\<exists>m \<in> set (it_rows (pn_items ?db2)). mi_id m = ?c \<and> mi_updated m = mi_updated (c_row c)")
      case True
      let ?db3 = "delete_item ?c ?db2"
      let ?db4 = "?db3\<lparr>pn_audits := pn_audits ?db3 @ [audit_of c ?count]\<rparr>"
      obtain pruned' where rest: "retire env (n + 2) cs blocked ?db4 = (db', pruned', skipped)" "pruned = ?c # pruned'"
        using Cons.prems(1) False True by (auto simp: Let_def split: prod.splits)
      have alone: "i \<in> present ?db3 \<longleftrightarrow> i \<in> present ?db2 \<and> i \<noteq> ?c" if "i \<in> mi_id ` set known" for i
        using delete_alone [OF Cons.prems(2) ok2 False that] .
      have "later_versions known ?db4"
        using ok2 delete_item_sub [of ?c ?db2]
        by (auto simp: pass_ok_def later_versions_def delete_item_def Let_def distinct_map_filter)
      moreover have "?c \<notin> present ?db4" using alone known(2) by simp
      moreover have "\<forall>d \<in> set before. mi_id (c_row d) \<in> present ?db4 \<longrightarrow> mi_id (c_row d) \<in> present ?db2"
        using alone known(3) by auto
      ultimately have ok4: "pass_ok known (before @ [c]) blocked ?db4"
        using ok2 by (auto simp: pass_ok_def)
      note IH = Cons.IH [OF rest(1) plan ok4]
      have "\<not> changed known ?db2 ?c"
        using True changed_guard [OF _ _ known(1,2), of ?db2] ok2 by (auto simp: pass_ok_def)
      then have "\<not> changed known db ?c" using changes by blast
      moreover have "\<not> changed known db i" if "i \<in> set pruned'" for i
      proof
        assume ch: "changed known db i"
        then obtain r where "r \<in> set known" "mi_id r = i" by (auto simp: changed_def)
        then have ik: "i \<in> mi_id ` set known" by blast
        have "i \<noteq> ?c" using ch calculation by blast
        from changes [OF ch] obtain m' m where m: "m' \<in> set (it_rows (pn_items ?db2))" "m \<in> set known" "mi_id m' = i"
          "mi_id m = i" "mi_updated m < mi_updated m'" by (auto simp: changed_def)
        have "mi_id m' \<in> present ?db3" using alone [OF ik] \<open>i \<noteq> ?c\<close> m(1,3) by (metis imageI)
        with delete_item_stays [OF m(1)] have "m' \<in> set (it_rows (pn_items ?db4))" by simp
        with m have "changed known ?db4 i" by (auto simp: changed_def)
        with IH that show False by blast
      qed
      moreover obtain as where as: "pn_audits db' = pn_audits ?db4 @ as" "map au_item as = pruned'"
        "\<forall>a \<in> set as. \<exists>c \<in> set cs. a = audit_of c (au_renders a)" using IH by blast
      have "\<exists>as. pn_audits db' = pn_audits db @ as \<and> map au_item as = pruned \<and>
          (\<forall>a \<in> set as. \<exists>d \<in> set (c # cs). a = audit_of d (au_renders a))"
        using as audits rest(2) by (intro exI [of _ "audit_of c ?count # as"]) (auto simp: audit_of_def)
      moreover have "\<forall>i \<in> mi_id ` set known. i \<in> present db' \<longleftrightarrow> i \<in> present db \<and> i \<notin> set pruned"
        using IH alone here rest(2) by auto
      moreover have "length pruned + skipped = length (c # cs)" using IH rest(2) by simp
      ultimately show ?thesis using rest(2) by simp
    next
      case missing: False
      obtain skipped' where rest: "retire env (n + 2) cs (shield c blocked) ?db2 = (db', pruned, skipped')" "skipped = Suc skipped'"
        using Cons.prems(1) False missing by (auto simp: Let_def split: prod.splits)
      note IH = Cons.IH [OF rest(1) plan skip [OF ok2]]
      with here rest(2) audits changes show ?thesis by auto
    qed
  qed
qed

subsection \<open>The scan\<close>

text \<open>
  The ref with id \<open>i\<close>, stamped \<open>t\<close>: its server was asked for every item it has a ref on, with that
  ref's own id, and did not resolve this one, or excludes its library.
\<close>

definition unresolved :: "probe \<Rightarrow> (string \<times> string list) list \<Rightarrow> items_db \<Rightarrow> string list \<Rightarrow> nat \<Rightarrow> instant \<Rightarrow> bool" where
  "unresolved exists_many excluded db servers i t \<longleftrightarrow> (\<exists>server \<in> set servers. \<exists>flags k.
     exists_many server (map (\<lambda>(r, m). intent_for m server (Some (ref_native r))) (refs_on db server)) = Inr flags \<and>
     length flags = length (refs_on db server) \<and> k < length flags \<and>
     ref_id (fst (refs_on db server ! k)) = i \<and> ref_updated (fst (refs_on db server ! k)) = t \<and>
     (\<not> flags ! k \<or> ref_library (fst (refs_on db server ! k)) \<in> set (excluded_on excluded server)))"

lemma unresolved_more: "unresolved e x db ss i t \<Longrightarrow> unresolved e x db (s # ss) i t"
  unfolding unresolved_def by (meson list.set_intros(2))

lemma stale_unresolved:
  assumes "scan_stale_refs exists_many excluded db servers = Inr found" and "s \<in> set found"
  shows "unresolved exists_many excluded db servers (st_id s) (st_updated s)"
  using assms
proof (induction servers arbitrary: found)
  case Nil
  then show ?case by simp
next
  case (Cons server servers)
  let ?rows = "refs_on db server"
  show ?case
  proof (cases "?rows = []")
    case True
    with Cons show ?thesis by (auto intro: unresolved_more)
  next
    case False
    then obtain flags rest where f: "exists_many server (map (\<lambda>(r, m). intent_for m server (Some (ref_native r))) ?rows) = Inr flags"
      "length flags = length ?rows" "scan_stale_refs exists_many excluded db servers = Inr rest"
      "found = stale_of server (excluded_on excluded server) ?rows flags @ rest"
      using Cons.prems(1) by (auto simp: bind_sum_Inr Let_def split: if_splits)
    from Cons.prems(2) f(4) consider "s \<in> set (stale_of server (excluded_on excluded server) ?rows flags)" | "s \<in> set rest"
      by auto
    then show ?thesis
    proof cases
      case 1
      then obtain r m ok where z: "((r, m), ok) \<in> set (zip ?rows flags)" "\<not> (ok \<and> ref_library r \<notin> set (excluded_on excluded server))"
        "st_id s = ref_id r" "st_updated s = ref_updated r" by (auto simp: stale_of_def)
      then obtain k where k: "k < length flags" "?rows ! k = (r, m)" "flags ! k = ok"
        using f(2) by (auto simp: in_set_zip)
      with z f(1,2) show ?thesis unfolding unresolved_def
        by (intro bexI [of _ server] exI [of _ flags] exI [of _ k]) auto
    next
      case 2
      with Cons.IH [OF f(3)] show ?thesis by (intro unresolved_more)
    qed
  qed
qed

lemma forest_sorted: "forest depth rows \<Longrightarrow> forest depth (sort_key mi_id rows)"
  by (simp add: forest_def distinct_map)

lemma candidate_rows: "map c_row (candidates_of db) = sort_key mi_id (it_rows db)"
  by (simp add: candidates_of_def comp_def)

lemma plan_closed:
  assumes "forest depth (it_rows db)"
  shows "closed_plan (sort_key mi_id (it_rows db)) (sc_prunable (prune_plan (candidates_of db) excluded found rs))"
proof -
  have f: "forest depth (map c_row (candidates_of db))" unfolding candidate_rows using assms by (rule forest_sorted)
  show ?thesis unfolding closed_plan_def candidate_rows [symmetric]
  proof (intro conjI allI ballI impI)
    show "distinct (map mi_id (map c_row (candidates_of db)))" using f by (simp add: forest_def)
  next
    fix m p assume "m \<in> set (map c_row (candidates_of db))" "mi_parent m = Some p"
    then show "p \<in> mi_id ` set (map c_row (candidates_of db))" using f unfolding forest_def by blast
  next
    fix c assume "c \<in> set (sc_prunable (prune_plan (candidates_of db) excluded found rs))"
    then show "c_row c \<in> set (map c_row (candidates_of db))" by (simp add: plan_mem)
  next
    fix before c rest m
    assume plan: "sc_prunable (prune_plan (candidates_of db) excluded found rs) = before @ c # rest"
      and "m \<in> set (map c_row (candidates_of db))" and p: "mi_parent m = Some (mi_id (c_row c))"
    then obtain d where d: "d \<in> set (candidates_of db)" "c_row d = m" by auto
    from plan_children [OF f plan d(1)] d(2) p have "d \<in> set before" by simp
    with d(2) show "\<exists>d \<in> set before. c_row d = m" by blast
  qed
qed

lemma retire_stale_refs_rows: "retire_stale_refs ss pruned db = (db', k) \<Longrightarrow> it_rows db' = it_rows db"
  by (induction ss arbitrary: db db' k) (auto simp: Let_def split: if_splits prod.splits)

subsection \<open>The job\<close>

definition applied :: "prune_report \<Rightarrow> bool" where
  "applied r = (case r of Pruned _ _ _ _ _ _ _ _ _ \<Rightarrow> True | _ \<Rightarrow> False)"

lemma prune_job_cases:
  assumes "prune_job env render now locked unhealthy factory exists_many excluded cfg db = (db', result)"
    and dbs: "db0 = env 0 db" "db1 = env 1 db0" "db2 = env 2 db1"
  obtains (quiet) "db' = db \<or> db' = db2" "\<forall>r. result = Inr r \<longrightarrow> \<not> applied r"
  | (applied) servers scan pruned s db3 e h r d n w where "unhealthy = []" "factory = Inr servers" "pc_apply cfg"
      "find_prunable exists_many excluded servers (pn_items db0) (pn_items db1) (pn_items db2) = Inr scan"
      "implausible_prune_count (int (length (sc_prunable scan))) (int (sc_total scan)) cfg = None"
      "retire env 3 (sc_prunable scan) [] db2 = (db3, pruned, s)"
      "pn_audits db' = pn_audits db3" "it_rows (pn_items db') = it_rows (pn_items db3)"
      "result = Inr (Pruned (length pruned) (sc_total scan) e h r d n w s)"
proof (cases "unhealthy \<noteq> [] \<or> refuse_if_empty (it_rows (pn_items db)) ''media_items'' \<noteq> None")
  case True
  with assms quiet show ?thesis
    by (cases "unhealthy = []") (auto simp: prune_job_def applied_def)
next
  case False
  let ?scan = "bind_sum factory (\<lambda>servers. find_prunable exists_many excluded servers (pn_items db0) (pn_items db1) (pn_items db2))"
  show ?thesis
  proof (cases ?scan)
    case (Inl e)
    with False assms quiet show ?thesis by (auto simp: prune_job_def)
  next
    case (Inr scan)
    then obtain servers where f: "factory = Inr servers"
      "find_prunable exists_many excluded servers (pn_items db0) (pn_items db1) (pn_items db2) = Inr scan"
      by (auto simp: bind_sum_Inr)
    show ?thesis
    proof (cases "implausible_prune_count (int (length (sc_prunable scan))) (int (sc_total scan)) cfg \<noteq> None \<or> \<not> pc_apply cfg")
      case True
      with False Inr assms quiet show ?thesis
        by (cases "implausible_prune_count (int (length (sc_prunable scan))) (int (sc_total scan)) cfg")
          (auto simp: prune_job_def applied_def)
    next
      case go: False
      obtain db3 pruned s where r: "retire env 3 (sc_prunable scan) [] db2 = (db3, pruned, s)" by (metis prod_cases3)
      obtain items k where q: "retire_stale_refs (sc_stale scan) pruned (pn_items db3) = (items, k)" by fastforce
      note rows = retire_stale_refs_rows [OF q]
      obtain queue n where m: "dismiss_jobs_for render now locked (concat (map (\<lambda>c. case c_native c of None \<Rightarrow> [] | Some v \<Rightarrow> [v])
          (filter (\<lambda>c. mi_id (c_row c) \<in> set pruned) (sc_prunable scan)))) (pn_queue db3) = (queue, n)" by fastforce
      from assms(1) False go Inr r q m have "db' = db3\<lparr>pn_items := items, pn_queue := queue\<rparr>"
        "\<exists>e h r d n w. result = Inr (Pruned (length pruned) (sc_total scan) e h r d n w s)"
        by (auto simp: prune_job_def Let_def dbs)
      with applied [OF _ f(1) _ f(2) _ r] False go rows show ?thesis by auto
    qed
  qed
qed

lemma prune_caps:
  assumes "implausible_prune_count (int k) (int t) cfg = None"
  shows "(k = 0 \<or> int k \<le> pc_max_prunes cfg) \<and> (20 \<le> t \<longrightarrow> of_nat k \<le> pc_max_share cfg * of_nat t)"
proof -
  have "of_nat k / of_nat t \<le> pc_max_share cfg \<longleftrightarrow> of_nat k \<le> pc_max_share cfg * of_nat t" if "20 \<le> t"
    using that by (simp add: pos_divide_le_eq)
  with assms show ?thesis
    by (auto simp: implausible_prune_count_def SHARE_CHECK_MIN_ITEMS_def Let_def not_less split: if_splits)
qed


definition lost_film :: prune_db where
  "lost_film = \<lparr>pn_items = film_db, pn_renders = [1], pn_audits = [], pn_queue = \<lparr>db_rows = [], db_next = 1\<rparr>\<rparr>"

definition nowhere :: probe where
  "nowhere server intents = Inr (map (\<lambda>_. False) intents)"

definition example_config :: prune_config where
  "example_config = \<lparr>pc_apply = True, pc_max_prunes = 5, pc_max_share = 1 / 2, pc_max_orphans = 500\<rparr>"


end
