(* ===== verification/Config_Doc.thy ===== *)
theory Config_Doc
  imports Text
begin

text \<open>
  Configuration documents (\<open>config/overrides.py\<close>): the walks over a decoded JSON object that
  the configuration store is built from. A document is a dict in insertion order; its keys are
  distinct. A dotted path is built as the code builds it, from the outside in.
\<close>

subsection \<open>Values\<close>

definition keys :: "payload \<Rightarrow> string list" where
  "keys d = map fst d"

definition dotted :: "string \<Rightarrow> string \<Rightarrow> string" where
  "dotted path key = (if path = [] then key else path @ ''.'' @ key)"

text \<open>
  \<open>json.dumps(.., sort_keys=True)\<close> reads a document up to the order of its keys; \<open>==\<close> does too,
  and compares numbers of all three types by value.
\<close>

primrec sorted_keys :: "json \<Rightarrow> json" where
  "sorted_keys JNull = JNull"
| "sorted_keys (JBool b) = JBool b"
| "sorted_keys (JInt i) = JInt i"
| "sorted_keys (JFloat q) = JFloat q"
| "sorted_keys (JStr s) = JStr s"
| "sorted_keys (JArr vs) = JArr (map sorted_keys vs)"
| "sorted_keys (JObj kvs) = JObj (sort_key fst (map (map_prod id sorted_keys) kvs))"

primrec plain_numbers :: "json \<Rightarrow> json" where
  "plain_numbers JNull = JNull"
| "plain_numbers (JBool b) = JFloat (if b then 1 else 0)"
| "plain_numbers (JInt i) = JFloat (of_int i)"
| "plain_numbers (JFloat q) = JFloat q"
| "plain_numbers (JStr s) = JStr s"
| "plain_numbers (JArr vs) = JArr (map plain_numbers vs)"
| "plain_numbers (JObj kvs) = JObj (map (map_prod id plain_numbers) kvs)"

definition py_equal :: "json \<Rightarrow> json \<Rightarrow> bool" where
  "py_equal v w \<longleftrightarrow> sorted_keys (plain_numbers v) = sorted_keys (plain_numbers w)"

text \<open>\<open>document_revision\<close>, with the hash of the canonical dump as an argument.\<close>

definition document_revision :: "(json \<Rightarrow> string) \<Rightarrow> payload \<Rightarrow> string" where
  "document_revision digest document = digest (sorted_keys (JObj document))"

subsection \<open>Refusing secrets, merging\<close>

text \<open>\<open>_reject_secrets\<close>: the first place the walk finds the key at.\<close>

function secret_at :: "string \<Rightarrow> payload \<Rightarrow> string option" where
  "secret_at path [] = None"
| "secret_at path ((key, v) # kvs) =
     (if key = ''secrets'' \<and> path \<noteq> ''libraries'' then Some (dotted path key)
      else (case (case v of JObj d \<Rightarrow> secret_at (dotted path key) d | _ \<Rightarrow> None) of
              Some w \<Rightarrow> Some w | None \<Rightarrow> secret_at path kvs))"
  by pat_completeness auto
termination by (relation "measure (\<lambda>(path, d). size (JObj d))") auto

definition secrets_refusal :: "string \<Rightarrow> string" where
  "secrets_refusal at_path = ''config overrides must not contain secrets (found at '' @ at_path
     @ ''); secrets come from the environment only''"

definition reject_secrets :: "payload \<Rightarrow> string + unit" where
  "reject_secrets d = (case secret_at [] d of None \<Rightarrow> Inr () | Some w \<Rightarrow> Inl (secrets_refusal w))"

text \<open>\<open>_merge\<close>: \<open>merged\<close> starts as a copy of the base.\<close>

function merge_docs :: "payload \<Rightarrow> payload \<Rightarrow> payload" where
  "merge_docs merged [] = merged"
| "merge_docs merged ((key, v) # kvs) =
     merge_docs (dict_set merged (key, case get merged key of
         JObj b \<Rightarrow> (case v of JObj w \<Rightarrow> JObj (merge_docs b w) | _ \<Rightarrow> v)
       | _ \<Rightarrow> v)) kvs"
  by pat_completeness auto
termination by (relation "measure (\<lambda>(b, d). size (JObj d))") auto

definition merge_overrides :: "payload \<Rightarrow> payload \<Rightarrow> string + payload" where
  "merge_overrides base overrides = bind_sum (reject_secrets overrides) (\<lambda>_. Inr (merge_docs base overrides))"

subsection \<open>Unknown settings\<close>

text \<open>
  What the annotation of a field names: a model with its fields, a mapping, a union, another
  generic type with its arguments, or anything else.
\<close>

datatype annotation = Opaque | Model "(string \<times> annotation) list" | Dict "annotation list"
  | One_of "annotation list" | Generic "annotation list"

type_synonym model = "(string \<times> annotation) list"

fun model_for :: "annotation \<Rightarrow> model option" and first_model :: "annotation list \<Rightarrow> model option" where
  "model_for Opaque = None"
| "model_for (Model m) = Some m"
| "model_for (Dict args) = first_model args"
| "model_for (One_of args) = first_model args"
| "model_for (Generic args) = first_model args"
| "first_model [] = None"
| "first_model (a # as) = (case model_for a of Some m \<Rightarrow> Some m | None \<Rightarrow> first_model as)"

fun mapping_model_for :: "annotation \<Rightarrow> model option" and first_mapping :: "annotation list \<Rightarrow> model option" where
  "mapping_model_for (Dict args) = (case args of [_, v] \<Rightarrow> model_for v | _ \<Rightarrow> None)"
| "mapping_model_for (One_of args) = first_mapping args"
| "mapping_model_for _ = None"
| "first_mapping [] = None"
| "first_mapping (a # as) = (case mapping_model_for a of Some m \<Rightarrow> Some m | None \<Rightarrow> first_mapping as)"

text \<open>
  \<open>unknown_key_paths\<close>; \<open>unknown_entries\<close> is its loop over the entries of a mapping, whose keys
  are data.
\<close>

function unknown_key_paths :: "model \<Rightarrow> string \<Rightarrow> payload \<Rightarrow> string list"
  and unknown_entries :: "model \<Rightarrow> string \<Rightarrow> payload \<Rightarrow> string list" where
  "unknown_key_paths m path [] = []"
| "unknown_key_paths m path ((key, v) # kvs) =
     (case map_of m key of
        None \<Rightarrow> [dotted path key]
      | Some ann \<Rightarrow>
        (case v of JObj d \<Rightarrow>
           (case mapping_model_for ann of
              Some entry \<Rightarrow> unknown_entries entry (dotted path key) d
            | None \<Rightarrow> (case model_for ann of
                Some nested \<Rightarrow> unknown_key_paths nested (dotted path key) d
              | None \<Rightarrow> []))
         | _ \<Rightarrow> [])) @ unknown_key_paths m path kvs"
| "unknown_entries m path [] = []"
| "unknown_entries m path ((name, v) # kvs) =
     (case v of JObj d \<Rightarrow> unknown_key_paths m (path @ ''.'' @ name) d | _ \<Rightarrow> []) @ unknown_entries m path kvs"
  by pat_completeness auto
termination
  by (relation "measure (\<lambda>x. case x of Inl (m, path, d) \<Rightarrow> size (JObj d) | Inr (m, path, d) \<Rightarrow> size (JObj d))") auto

subsection \<open>The paths of a document\<close>

function document_paths :: "string \<Rightarrow> payload \<Rightarrow> string list" where
  "document_paths path [] = []"
| "document_paths path ((key, v) # kvs) =
     (case v of JObj d \<Rightarrow> if d = [] then [dotted path key] else document_paths (dotted path key) d
      | _ \<Rightarrow> [dotted path key]) @ document_paths path kvs"
  by pat_completeness auto
termination by (relation "measure (\<lambda>(path, d). size (JObj d))") auto

function empty_leaf_paths :: "string \<Rightarrow> payload \<Rightarrow> string list" where
  "empty_leaf_paths path [] = []"
| "empty_leaf_paths path ((key, v) # kvs) =
     (case v of JObj d \<Rightarrow> if d = [] then [dotted path key] else empty_leaf_paths (dotted path key) d
      | _ \<Rightarrow> []) @ empty_leaf_paths path kvs"
  by pat_completeness auto
termination by (relation "measure (\<lambda>(path, d). size (JObj d))") auto

subsection \<open>Settings that left the schema\<close>

definition MIGRATED_SECTIONS :: "string list" where
  "MIGRATED_SECTIONS = [''version_check'']"

definition MIGRATED_SETTINGS :: "string list" where
  "MIGRATED_SETTINGS = [''providers.favourite'', ''providers.tmdb_vote_sorting'',
     ''artwork.poster.min_width'', ''artwork.poster.min_height'',
     ''artwork.season_poster.min_width'', ''artwork.season_poster.min_height'',
     ''artwork.background.min_width'', ''artwork.background.min_height'',
     ''artwork.title_card.min_width'', ''artwork.title_card.min_height'']"

text \<open>\<open>parts\<close> is never empty: it is the split of a path.\<close>

fun holds_leaf :: "payload \<Rightarrow> string list \<Rightarrow> bool" where
  "holds_leaf d [] = False"
| "holds_leaf d [part] = (part \<in> set (keys d))"
| "holds_leaf d (part # parts) = (case get d part of JObj e \<Rightarrow> holds_leaf e parts | _ \<Rightarrow> False)"

definition without_key :: "payload \<Rightarrow> string \<Rightarrow> payload" where
  "without_key d key = filter (\<lambda>kv. fst kv \<noteq> key) d"

text \<open>\<open>_without_leaf\<close>, called where \<open>holds_leaf\<close> is true: every step on the way is a mapping.\<close>

fun without_leaf :: "payload \<Rightarrow> string list \<Rightarrow> payload" where
  "without_leaf d [] = d"
| "without_leaf d [key] = without_key d key"
| "without_leaf d (key # rest) =
     (case get d key of
        JObj e \<Rightarrow> (let inner = without_leaf e rest in
          if inner \<noteq> [] then dict_set d (key, JObj inner) else without_key d key)
      | _ \<Rightarrow> d)"

definition drop_leaf :: "payload \<Rightarrow> string list \<Rightarrow> payload" where
  "drop_leaf d parts = (if holds_leaf d parts then without_leaf d parts else d)"

text \<open>The shortcut of a document with nothing to drop computes the same document.\<close>

definition without_migrated_settings :: "bool \<Rightarrow> payload \<Rightarrow> payload" where
  "without_migrated_settings drop_sections d =
     (let sections = (if drop_sections then filter (\<lambda>key. key \<in> set (keys d)) MIGRATED_SECTIONS else []);
          leaves = filter (holds_leaf d) (map (split_on CHR ''.'') MIGRATED_SETTINGS)
      in if sections = [] \<and> leaves = [] then d
         else foldl drop_leaf (filter (\<lambda>kv. fst kv \<notin> set sections) d) leaves)"

subsection \<open>Differences\<close>

lemma get_size: "get d key = JObj e \<Longrightarrow> size (JObj e) < size (JObj d)"
proof (induction d)
  case (Cons kv d)
  then show ?case by (cases kv) (auto simp: get_def split: if_splits option.splits)
qed (simp add: get_def)

lemma size_of_get: "JObj e = get d key \<Longrightarrow> size (get d key) < size (JObj d)"
  using get_size [of d key e] by simp

text \<open>The code walks a set of keys, in no order; every reader of the result sorts or counts it.\<close>

function changed_paths :: "string \<Rightarrow> payload \<Rightarrow> payload \<Rightarrow> string list" where
  "changed_paths prefix old new =
     concat (map (\<lambda>key. case (get old key, get new key) of
         (JObj b, JObj a) \<Rightarrow> changed_paths (dotted prefix key) b a
       | (b, a) \<Rightarrow> if py_equal b a then [] else [dotted prefix key])
       (keys old @ filter (\<lambda>key. key \<notin> set (keys old)) (keys new)))"
  by pat_completeness auto
termination
  by (relation "measure (\<lambda>(prefix, b, a). size (JObj b))") (auto intro: size_of_get simp del: json.size)

declare changed_paths.simps [simp del]

subsection \<open>Reading and writing a path\<close>

text \<open>\<open>_read_path\<close>: \<open>None\<close> is \<open>_MISSING\<close>.\<close>

fun read_parts :: "json \<Rightarrow> string list \<Rightarrow> json option" where
  "read_parts v [] = Some v"
| "read_parts v (part # parts) = (case v of
     JObj d \<Rightarrow> (case map_of d part of Some w \<Rightarrow> read_parts w parts | None \<Rightarrow> None) | _ \<Rightarrow> None)"

definition read_path :: "payload \<Rightarrow> string \<Rightarrow> json option" where
  "read_path d path = read_parts (JObj d) (split_on CHR ''.'' path)"

text \<open>\<open>_set_path\<close>, on the copy the caller made.\<close>

fun set_parts :: "payload \<Rightarrow> string list \<Rightarrow> json \<Rightarrow> payload" where
  "set_parts d [] v = d"
| "set_parts d [part] v = dict_set d (part, v)"
| "set_parts d (part # parts) v =
     dict_set d (part, JObj (set_parts (case get d part of JObj e \<Rightarrow> e | _ \<Rightarrow> []) parts v))"

definition set_path :: "payload \<Rightarrow> string \<Rightarrow> json \<Rightarrow> payload" where
  "set_path d path v = set_parts d (split_on CHR ''.'' path) v"

end
