(* ===== verification/Config_Store.thy ===== *)
theory Config_Store
  imports Config_Doc Catchup
begin

text \<open>
  The configuration store (\<open>config/overrides.py\<close>, \<open>config/snapshots.py\<close>, \<open>config/live.py\<close>) and
  the write path of the API on it (\<open>api/routes.py\<close>): one row that holds the configuration, the
  history of what it held, and the generation a process runs. A transaction that takes the
  row's lock (or, with no row yet, the advisory lock and a second read) is one function on the
  database; what an unlocked read saw is an argument. The validator behind \<open>build_config\<close>, the
  schema's fields, the dump of a configuration and the hash are those of \<open>checker\<close>.
\<close>

subsection \<open>What a swap does not reach\<close>

text \<open>The keys of \<open>FROZEN_SECTIONS\<close>; its sentences are left out.\<close>

definition FROZEN_SECTIONS :: "string list" where
  "FROZEN_SECTIONS = [''workers'', ''providers'', ''notifications'', ''plex'', ''jellyfin'',
     ''operations.imdb_refresh_enabled'', ''operations.imdb_refresh_hours'',
     ''operations.imdb_miss_refresh_minutes'', ''operations.tmdb_backoff_seconds'', ''api_docs_enabled'',
     ''scheduler.enabled'', ''scheduler.poll_seconds'', ''collections.enabled'', ''playlists.enabled'',
     ''arr_sync.enabled'']"

definition LIVE_EXCEPTIONS :: "string list" where
  "LIVE_EXCEPTIONS = [''plex.resolve_max_attempts'']"

definition INERT_SECTIONS :: "string list" where
  "INERT_SECTIONS = [''api_docs_enabled'']"

definition covers :: "string \<Rightarrow> string \<Rightarrow> bool" where
  "covers pre path \<longleftrightarrow> path = pre \<or> take (length pre + 1) path = pre @ ''.''"

definition is_inert :: "string \<Rightarrow> bool" where
  "is_inert path = list_ex (\<lambda>pre. covers pre path) INERT_SECTIONS"

text \<open>The entry whose reason is answered: the longest that covers the path.\<close>

definition frozen_reason :: "string \<Rightarrow> string option" where
  "frozen_reason path = (if list_ex (\<lambda>live. covers live path) LIVE_EXCEPTIONS then None
     else List.find (\<lambda>pre. covers pre path) (sort_key (\<lambda>pre. - int (length pre)) FROZEN_SECTIONS))"

subsection \<open>The tables\<close>

text \<open>
  The metadata column, by the two keys the service writes; a row whose column is not an object
  has \<open>None\<close>, as one written before the column existed has neither key.
\<close>

record store_meta =
  mt_format :: "int option"
  mt_restart :: "string list option"

record config_row =
  cr_document :: json
  cr_meta :: "store_meta option"

record snapshot =
  sn_id :: nat
  sn_document :: payload
  sn_paths :: nat
  sn_reason :: string
  sn_format :: int

record config_event =
  ce_before :: string
  ce_after :: string
  ce_paths_before :: nat
  ce_paths_after :: nat
  ce_reason :: string

record store_db =
  cs_row :: "config_row option"
  cs_snaps :: "snapshot list"
  cs_next :: nat
  cs_events :: "config_event list"

definition STORE_FORMAT :: int where
  "STORE_FORMAT = 2"

definition SNAPSHOT_RETENTION :: nat where
  "SNAPSHOT_RETENTION = 20"

definition no_meta :: store_meta where
  "no_meta = \<lparr>mt_format = None, mt_restart = None\<rparr>"

text \<open>\<open>store_meta()\<close>; an empty list is omitted.\<close>

definition new_meta :: "string list \<Rightarrow> store_meta" where
  "new_meta restart_list = \<lparr>mt_format = Some STORE_FORMAT,
     mt_restart = (if restart_list = [] then None else Some restart_list)\<rparr>"

definition restart_paths :: "store_meta \<Rightarrow> string list" where
  "restart_paths m = sort (case mt_restart m of None \<Rightarrow> [] | Some ps \<Rightarrow> ps)"

definition with_restart_paths :: "store_meta \<Rightarrow> string list \<Rightarrow> store_meta" where
  "with_restart_paths m paths = m\<lparr>mt_restart := (let waiting = sort (remdups paths) in
     if waiting = [] then None else Some waiting)\<rparr>"

definition type_name :: "json \<Rightarrow> string" where
  "type_name v = (case v of JNull \<Rightarrow> ''NoneType'' | JBool _ \<Rightarrow> ''bool'' | JInt _ \<Rightarrow> ''int''
     | JFloat _ \<Rightarrow> ''float'' | JStr _ \<Rightarrow> ''str'' | JArr _ \<Rightarrow> ''list'' | JObj _ \<Rightarrow> ''dict'')"

subsection \<open>Reading the store\<close>

definition row_document :: "config_row option \<Rightarrow> string + payload" where
  "row_document row = (case row of None \<Rightarrow> Inr []
     | Some r \<Rightarrow> if \<not> truthy_json (cr_document r) then Inr []
        else (case cr_document r of
            JObj d \<Rightarrow> Inr (without_migrated_settings True d)
          | v \<Rightarrow> Inl (''the config_overrides document must be a JSON object, not '' @ type_name v)))"

definition meta_of :: "config_row option \<Rightarrow> store_meta" where
  "meta_of row = (case row of None \<Rightarrow> no_meta | Some r \<Rightarrow> (case cr_meta r of None \<Rightarrow> no_meta | Some m \<Rightarrow> m))"

definition store_contents :: "config_row option \<Rightarrow> string + (payload \<times> store_meta)" where
  "store_contents row = bind_sum (row_document row) (\<lambda>d. Inr (d, meta_of row))"

definition load_store :: "store_db \<Rightarrow> string + (payload \<times> store_meta)" where
  "load_store db = store_contents (cs_row db)"

definition load_overrides_document :: "store_db \<Rightarrow> string + payload" where
  "load_overrides_document db = bind_sum (load_store db) (\<lambda>(d, m). Inr d)"

subsection \<open>Writing it\<close>

definition write_store :: "payload \<Rightarrow> store_meta \<Rightarrow> store_db \<Rightarrow> store_db" where
  "write_store document m db = db\<lparr>cs_row := Some \<lparr>cr_document = JObj document, cr_meta = Some m\<rparr>\<rparr>"

text \<open>The ids of the rows \<open>ORDER BY id DESC LIMIT 20\<close> keeps.\<close>

definition kept_ids :: "snapshot list \<Rightarrow> nat list" where
  "kept_ids snaps = take SNAPSHOT_RETENTION (rev (sort (map sn_id snaps)))"

definition capture_snapshot :: "payload \<Rightarrow> string \<Rightarrow> int \<Rightarrow> store_db \<Rightarrow> store_db" where
  "capture_snapshot document reason format db =
     (if document = [] then db
      else let snaps = cs_snaps db @ [\<lparr>sn_id = cs_next db, sn_document = document,
               sn_paths = length (document_paths [] document), sn_reason = reason, sn_format = format\<rparr>]
           in db\<lparr>cs_next := Suc (cs_next db), cs_snaps := filter (\<lambda>s. sn_id s \<in> set (kept_ids snaps)) snaps\<rparr>)"

text \<open>\<open>clear_restart_paths\<close>; \<open>seen\<close> is the store at its unlocked read.\<close>

definition clear_restart_paths :: "store_db \<Rightarrow> store_db \<Rightarrow> store_db" where
  "clear_restart_paths seen db =
     (if restart_paths (meta_of (cs_row seen)) = [] then db
      else (case cs_row db of None \<Rightarrow> db
        | Some r \<Rightarrow> if restart_paths (meta_of (Some r)) = [] then db
            else db\<lparr>cs_row := Some (r\<lparr>cr_meta := Some (with_restart_paths (meta_of (Some r)) [])\<rparr>)\<rparr>))"

text \<open>\<open>seed_store\<close>: the store afterwards, and what it holds.\<close>

definition seed_store :: "payload \<Rightarrow> store_db \<Rightarrow> string + (store_db \<times> payload)" where
  "seed_store document db =
     (if (case cs_row db of None \<Rightarrow> False | Some r \<Rightarrow> truthy_json (cr_document r))
      then bind_sum (row_document (cs_row db)) (\<lambda>d. Inr (db, d))
      else let d = without_migrated_settings False document
           in Inr (write_store d (new_meta (restart_paths (meta_of (cs_row db)))) db, d))"

subsection \<open>Loading the configuration\<close>

text \<open>A list of dotted locations with their messages is what the validator refuses with.\<close>

type_synonym errors = "(string \<times> string) list"

record 'c checker =
  ck_schema :: model
  ck_build :: "payload \<Rightarrow> errors + 'c"
  ck_dump :: "'c \<Rightarrow> payload"
  ck_version :: "'c \<Rightarrow> string"
  ck_view :: "'c \<Rightarrow> config"
  ck_digest :: "json \<Rightarrow> string"

datatype boot_error = Value_error string | Invalid errors

definition raising :: "string + 'a \<Rightarrow> boot_error + 'a" where
  "raising m = map_sum Value_error id m"

definition validated :: "'c checker \<Rightarrow> payload \<Rightarrow> boot_error + 'c" where
  "validated ck d = bind_sum (raising (reject_secrets d)) (\<lambda>_. map_sum Invalid id (ck_build ck d))"

definition MIGRATE_REASON :: string where
  "MIGRATE_REASON = ''migrate''"

definition DELTA_WITHOUT_FILE :: string where
  "DELTA_WITHOUT_FILE = ''the configuration store holds a delta from before the store became the document, and the configuration file it was a delta of cannot be read; restore the file and start again''"

text \<open>\<open>migrate_delta_to_document\<close>; a transaction that raises is rolled back.\<close>

definition migrate_delta_to_document ::
  "'c checker \<Rightarrow> payload option \<Rightarrow> store_db \<Rightarrow> boot_error + (store_db \<times> payload)" where
  "migrate_delta_to_document ck base db =
     (case base of None \<Rightarrow> Inl (Value_error DELTA_WITHOUT_FILE)
      | Some file \<Rightarrow>
        bind_sum (raising (row_document (cs_row db))) (\<lambda>delta.
          if mt_format (meta_of (cs_row db)) = Some STORE_FORMAT then Inr (db, delta)
          else bind_sum (raising (merge_overrides file delta)) (\<lambda>m.
            let merged = without_migrated_settings False m in
            bind_sum (validated ck merged) (\<lambda>_.
              Inr (write_store merged ((meta_of (cs_row db))\<lparr>mt_format := Some STORE_FORMAT\<rparr>)
                (capture_snapshot delta MIGRATE_REASON 1 db), merged)))))"

text \<open>
  \<open>load_effective_config\<close>. The file is what reading it answers: \<open>None\<close> when there is none,
  a refusal when it is not a mapping. \<open>db\<close> is read without a lock; \<open>locked\<close> is the store when
  the lock is taken, where one is.
\<close>

definition load_effective_config ::
  "'c checker \<Rightarrow> string + payload option \<Rightarrow> store_db \<Rightarrow> store_db \<Rightarrow> boot_error + (store_db \<times> 'c)" where
  "load_effective_config ck file db locked =
     bind_sum (raising (load_store db)) (\<lambda>(document, m).
       if document \<noteq> [] \<and> mt_format m = Some STORE_FORMAT
       then bind_sum (validated ck document) (\<lambda>c. Inr (locked, c))
       else bind_sum (raising file) (\<lambda>base.
         if document \<noteq> []
         then bind_sum (migrate_delta_to_document ck base locked) (\<lambda>(db', d).
           bind_sum (validated ck d) (\<lambda>c. Inr (db', c)))
         else (case base of
             None \<Rightarrow> Inl (Value_error ''the configuration store is empty and no configuration file was found; this deployment has not been configured'')
           | Some f \<Rightarrow>
             bind_sum (raising (seed_store f locked)) (\<lambda>(db', seeded).
               if seeded = []
               then bind_sum (migrate_delta_to_document ck base db') (\<lambda>(db'', d).
                 bind_sum (validated ck d) (\<lambda>c. Inr (db'', c)))
               else bind_sum (validated ck seeded) (\<lambda>c. Inr (db', c))))))"

subsection \<open>Drift\<close>

definition COMPUTED_PATHS :: "string list" where
  "COMPUTED_PATHS = [''version'']"

fun pop_parts :: "payload \<Rightarrow> string list \<Rightarrow> payload" where
  "pop_parts d [] = d"
| "pop_parts d [part] = without_key d part"
| "pop_parts d (part # parts) = (case get d part of
     JObj e \<Rightarrow> dict_set d (part, JObj (pop_parts e parts)) | _ \<Rightarrow> d)"

definition comparable :: "'c checker \<Rightarrow> payload \<Rightarrow> payload option" where
  "comparable ck d = (case ck_build ck d of
     Inl e \<Rightarrow> None
   | Inr c \<Rightarrow> Some (foldl (\<lambda>d path. pop_parts d (split_on CHR ''.'' path)) (without_key (ck_dump ck c) ''secrets'')
       COMPUTED_PATHS))"

record drift =
  dr_file_present :: bool
  dr_differs :: bool
  dr_paths :: "string list"

definition drift_report :: "'c checker \<Rightarrow> payload option \<Rightarrow> payload \<Rightarrow> drift" where
  "drift_report ck file stored = (case file of
     None \<Rightarrow> \<lparr>dr_file_present = False, dr_differs = False, dr_paths = []\<rparr>
   | Some f \<Rightarrow> if stored = [] then \<lparr>dr_file_present = True, dr_differs = False, dr_paths = []\<rparr>
       else (case (comparable ck f, comparable ck stored) of
           (Some a, Some b) \<Rightarrow> let paths = sort (changed_paths [] a b)
             in \<lparr>dr_file_present = True, dr_differs = (paths \<noteq> []), dr_paths = paths\<rparr>
         | _ \<Rightarrow> \<lparr>dr_file_present = True, dr_differs = True, dr_paths = []\<rparr>))"

end
