(* ===== verification/Config_Save.thy ===== *)
theory Config_Save
  imports Config_Store Jobs
begin

text \<open>
  The write path of the configuration (\<open>api/routes.py\<close>): what a save is validated as, the guards
  it runs into under the row's lock, the snapshot and the event that go with it, and the swap
  of the running generation; the endpoints that reach it (save, preview, restore, import).
\<close>

subsection \<open>The running application and its refusals\<close>

record 'c app =
  ap_db :: store_db
  ap_config :: 'c
  ap_booted :: 'c
  ap_object :: 'c
  ap_requests :: "string list"

datatype save_refusal = Unprocessable errors | Conflict string "string option" "string list"
  | Server_error string | Not_found string

record save_reply =
  sv_before :: string
  sv_after :: string
  sv_restart :: "string list"
  sv_inert :: "string list"
  sv_revision :: string

text \<open>An exception that no handler catches.\<close>

definition unhandled :: "string + 'a \<Rightarrow> save_refusal + 'a" where
  "unhandled m = map_sum Server_error id m"

subsection \<open>The keep marker\<close>

definition REDACTED_PATHS :: "string list" where
  "REDACTED_PATHS = [''notifications.url'']"

definition KEEP_SENTINEL :: string where
  "KEEP_SENTINEL = ''***KEEP***''"

text \<open>\<open>buried\<close> is the test of a list: a marker anywhere inside it.\<close>

function sentinel_occurrences :: "string \<Rightarrow> json \<Rightarrow> (string \<times> bool) list" where
  "sentinel_occurrences path v = (case v of
     JStr s \<Rightarrow> if s = KEEP_SENTINEL then [(path, True)] else []
   | JObj d \<Rightarrow> concat (map (\<lambda>(key, child). sentinel_occurrences (dotted path key) child) d)
   | JArr vs \<Rightarrow> if \<exists>w \<in> set vs. sentinel_occurrences path w \<noteq> [] then [(path, False)] else []
   | _ \<Rightarrow> [])"
  by pat_completeness auto
termination
  by (relation "measure (\<lambda>(path, v). size v)") (auto simp: less_Suc_eq_le intro: size_list_estimation')

declare sentinel_occurrences.simps [simp del]

definition KEEP_MISPLACED :: string where
  "KEEP_MISPLACED = ''the keep marker is only accepted as the whole value of a redacted setting''"

definition NOTHING_TO_KEEP :: string where
  "NOTHING_TO_KEEP = ''there is no stored override here to keep''"

text \<open>The loop over the occurrences, with the document resolved so far and the errors.\<close>

fun keep_stored :: "payload \<Rightarrow> (string \<times> bool) list \<Rightarrow> payload \<Rightarrow> errors \<Rightarrow> payload \<times> errors" where
  "keep_stored stored [] resolved es = (resolved, es)"
| "keep_stored stored ((path, replaceable) # occs) resolved es =
     (if \<not> replaceable \<or> path \<notin> set REDACTED_PATHS
      then keep_stored stored occs resolved (es @ [(path, KEEP_MISPLACED)])
      else (case read_path stored path of
          None \<Rightarrow> keep_stored stored occs resolved (es @ [(path, NOTHING_TO_KEEP)])
        | Some v \<Rightarrow> keep_stored stored occs (set_path resolved path v) es))"

definition resolve_keep_sentinels :: "store_db \<Rightarrow> payload \<Rightarrow> save_refusal + payload" where
  "resolve_keep_sentinels db document =
     (let occs = sentinel_occurrences [] (JObj document) in
      if occs = [] then Inr document
      else bind_sum (unhandled (load_overrides_document db)) (\<lambda>stored.
        case keep_stored stored occs document [] of
          (resolved, es) \<Rightarrow> if es \<noteq> [] then Inl (Unprocessable es) else Inr resolved))"

subsection \<open>Settings a library cannot have of its own\<close>

text \<open>The keys of the two maps of \<open>config/schema.py\<close>; the sentences are left out.\<close>

definition LIBRARY_OVERRIDE_EXCLUSIONS :: "string list" where
  "LIBRARY_OVERRIDE_EXCLUSIONS = filter (\<lambda>p. take 11 p = ''operations.'') FROZEN_SECTIONS @
     [''operations.metadata_backup_enabled'', ''operations.metadata_backup_root'', ''maintenance.clean_bundles'',
      ''maintenance.optimize'', ''badges.definitions'', ''badges.definition_image_max_bytes'']"

definition LIBRARY_OVERRIDE_SECTIONS :: "string list" where
  "LIBRARY_OVERRIDE_SECTIONS = [''operations'', ''badges'', ''maintenance'']"

definition library_override_refusals :: "payload \<Rightarrow> string list" where
  "library_override_refusals document = (case get document ''libraries'' of
     JObj libraries \<Rightarrow> sort (concat (map (\<lambda>(library, block). case block of
         JObj sections \<Rightarrow> concat (map (\<lambda>(section, settings).
             if section \<notin> set LIBRARY_OVERRIDE_SECTIONS then [''libraries.'' @ library @ ''.'' @ section]
             else (case settings of
                 JObj names \<Rightarrow> map (\<lambda>name. ''libraries.'' @ library @ ''.'' @ section @ ''.'' @ name)
                   (filter (\<lambda>name. section @ ''.'' @ name \<in> set LIBRARY_OVERRIDE_EXCLUSIONS) (keys names))
               | _ \<Rightarrow> [])) sections)
       | _ \<Rightarrow> []) libraries))
   | _ \<Rightarrow> [])"

subsection \<open>Validation\<close>

definition DEFINITIONS_GUARD_REFUSAL :: string where
  "DEFINITIONS_GUARD_REFUSAL = ''the mounted config file lists collections.definitions, and an overrides list replaces the file'' @ [char_of (39::nat)] @
     ''s WHOLESALE -- storing this one would stop every file-defined definition being built. Either keep managing definitions in the config file, or move those rows into the overrides once and empty the file'' @ [char_of (39::nat)] @
     ''s definitions list''"

text \<open>\<open>_definitions_guard\<close>; \<open>db\<close> is the store at its read.\<close>

definition states_definitions :: "payload \<Rightarrow> bool" where
  "states_definitions d = (case get d ''collections'' of JObj c \<Rightarrow> ''definitions'' \<in> set (keys c) | _ \<Rightarrow> False)"

definition definitions_guard :: "store_db \<Rightarrow> payload \<Rightarrow> payload \<Rightarrow> save_refusal + unit" where
  "definitions_guard db base document =
     (if \<not> states_definitions document then Inr ()
      else if (case get base ''collections'' of
          JObj c \<Rightarrow> (case get c ''definitions'' of JArr rows \<Rightarrow> rows = [] | _ \<Rightarrow> True) | _ \<Rightarrow> True) then Inr ()
      else bind_sum (unhandled (load_overrides_document db)) (\<lambda>held.
        if states_definitions held then Inr ()
        else Inl (Unprocessable [(''collections.definitions'', DEFINITIONS_GUARD_REFUSAL)])))"

text \<open>
  What the document is a statement about: the mounted file, or nothing where the store holds the
  whole configuration or there is neither a store nor a file.
\<close>

definition layer_below :: "string + payload option \<Rightarrow> payload \<Rightarrow> store_meta \<Rightarrow> save_refusal + payload option" where
  "layer_below file stored m =
     (if mt_format m = Some STORE_FORMAT then Inr None
      else bind_sum (unhandled file) (\<lambda>base.
        if base = None \<and> stored \<noteq> [] then Inl (Unprocessable [(''document'', DELTA_WITHOUT_FILE)]) else Inr base))"

definition secrets_checked :: "string + 'a \<Rightarrow> save_refusal + 'a" where
  "secrets_checked m = map_sum (\<lambda>e. Unprocessable [(''secrets'', e)]) id m"

definition candidate_over :: "store_db \<Rightarrow> payload option \<Rightarrow> payload \<Rightarrow> save_refusal + payload" where
  "candidate_over db base document = (case base of
     None \<Rightarrow> bind_sum (secrets_checked (reject_secrets document)) (\<lambda>_. Inr document)
   | Some f \<Rightarrow> bind_sum (definitions_guard db f document) (\<lambda>_. secrets_checked (merge_overrides f document)))"

text \<open>
  \<open>_validated_generation\<close>: the document to store, the generation it builds, and whether it is
  the whole configuration; its second half takes the document whose keys are known.
  \<open>seen n\<close> is the store at the \<open>n\<close>th of its unlocked reads.
\<close>

definition built_generation ::
  "'c checker \<Rightarrow> string + payload option \<Rightarrow> (nat \<Rightarrow> store_db) \<Rightarrow> bool \<Rightarrow> payload \<Rightarrow> save_refusal + (payload \<times> 'c \<times> bool)" where
  "built_generation ck file seen check_empty_leaves document =
     bind_sum (unhandled (load_store (seen 1))) (\<lambda>(stored, m).
       bind_sum (layer_below file stored m) (\<lambda>base.
         let empties = (if check_empty_leaves \<and> base \<noteq> None then empty_leaf_paths [] document else []) in
         if empties \<noteq> []
         then Inl (Unprocessable (map (\<lambda>p. (p, ''empty object -- remove the key instead of setting {}'')) (sort empties)))
         else bind_sum (candidate_over (seen 2) base document) (\<lambda>candidate.
           bind_sum (map_sum Unprocessable id (ck_build ck candidate)) (\<lambda>c. Inr (document, c, base = None)))))"

definition validated_generation ::
  "'c checker \<Rightarrow> string + payload option \<Rightarrow> (nat \<Rightarrow> store_db) \<Rightarrow> bool \<Rightarrow> payload \<Rightarrow> save_refusal + (payload \<times> 'c \<times> bool)" where
  "validated_generation ck file seen check_empty_leaves given =
     bind_sum (resolve_keep_sentinels (seen 0) given) (\<lambda>document.
     let refused = library_override_refusals document; unknown = unknown_key_paths (ck_schema ck) [] document in
     if refused \<noteq> [] then Inl (Unprocessable (map (\<lambda>p. (p, ''not overridable'')) refused))
     else if unknown \<noteq> [] then Inl (Unprocessable (map (\<lambda>p. (p, ''unknown setting'')) (sort unknown)))
     else built_generation ck file seen check_empty_leaves document)"

subsection \<open>Persisting\<close>

definition OVERRIDE_DROP_CAP :: nat where
  "OVERRIDE_DROP_CAP = 3"

definition dropped_paths :: "payload \<Rightarrow> payload \<Rightarrow> string list" where
  "dropped_paths stored document =
     sort (remdups (filter (\<lambda>p. p \<notin> set (document_paths [] document)) (document_paths [] stored)))"

text \<open>\<open>_drop_refusal\<close>.\<close>

definition drop_refusal :: "payload \<Rightarrow> payload \<Rightarrow> string option" where
  "drop_refusal stored document =
     (let totl = length (remdups (document_paths [] stored)); dropped = dropped_paths stored document in
      if document_paths [] stored = [] then None
      else if document = []
      then Some (''this would clear all '' @ nat_digits totl @ '' stored overrides; send confirm: true to do it deliberately'')
      else if length dropped \<le> OVERRIDE_DROP_CAP then None
      else Some (''this would drop '' @ nat_digits (length dropped) @ '' stored overrides ('' @ join '', '' dropped
        @ ''); send confirm: true to do it deliberately''))"

definition diff_of :: "'c checker \<Rightarrow> 'c \<Rightarrow> 'c \<Rightarrow> string list" where
  "diff_of ck before after = changed_paths [] (ck_dump ck before) (ck_dump ck after)"

definition restart_required :: "'c checker \<Rightarrow> 'c \<Rightarrow> 'c \<Rightarrow> string list" where
  "restart_required ck before after = sort (filter (\<lambda>p. frozen_reason p \<noteq> None \<and> \<not> is_inert p) (diff_of ck before after))"

definition inert_changes :: "'c checker \<Rightarrow> 'c \<Rightarrow> 'c \<Rightarrow> string list" where
  "inert_changes ck before after = sort (filter is_inert (diff_of ck before after))"

text \<open>\<open>swap_config\<close>; the published cadences of the scheduler are left out.\<close>

definition swap_config :: "'c checker \<Rightarrow> 'c \<Rightarrow> 'c app \<Rightarrow> 'c app" where
  "swap_config ck new app = app\<lparr>
     ap_requests := foldl (\<lambda>queued name. if name \<in> set queued then queued else queued @ [name]) (ap_requests app)
       (servers_with_changed_libraries (ck_view ck (ap_config app)) (ck_view ck new)),
     ap_config := new\<rparr>"

definition STORE_CONVERTED_REFUSAL :: string where
  "STORE_CONVERTED_REFUSAL = ''the configuration store was converted to hold the whole configuration while this save was in flight; nothing was saved -- reload the page and make the change again''"

definition STALE_PAGE_REFUSAL :: string where
  "STALE_PAGE_REFUSAL = ''these settings changed somewhere else while this page was open; nothing was saved''"

text \<open>
  The accepted save: the snapshot of what it displaces, the row with its format and its restart
  list, the event, in one transaction, and then the swap.
\<close>

definition commit_save ::
  "'c checker \<Rightarrow> payload \<Rightarrow> 'c \<Rightarrow> bool \<Rightarrow> string \<Rightarrow> payload \<Rightarrow> store_meta \<Rightarrow> 'c app \<Rightarrow> 'c app" where
  "commit_save ck document after whole_document reason stored m app =
     (let before = ap_config app;
          db1 = capture_snapshot stored reason (case mt_format m of None \<Rightarrow> 1 | Some f \<Rightarrow> f) (ap_db app);
          m1 = (if whole_document then m\<lparr>mt_format := Some STORE_FORMAT\<rparr> else m);
          m2 = with_restart_paths m1
            (restart_required ck (ap_booted app) after @ inert_changes ck (ap_object app) after);
          db2 = write_store document m2 db1;
          db3 = db2\<lparr>cs_events := cs_events db2 @ [\<lparr>ce_before = ck_version ck before, ce_after = ck_version ck after,
            ce_paths_before = length (document_paths [] stored), ce_paths_after = length (document_paths [] document),
            ce_reason = reason\<rparr>]\<rparr>
      in swap_config ck after (app\<lparr>ap_db := db3\<rparr>))"

definition persist_and_swap ::
  "'c checker \<Rightarrow> payload \<Rightarrow> 'c \<Rightarrow> bool \<Rightarrow> string option \<Rightarrow> bool \<Rightarrow> string \<Rightarrow> 'c app \<Rightarrow> save_refusal + ('c app \<times> save_reply)" where
  "persist_and_swap ck document after whole_document expected_revision confirm reason app =
     bind_sum (unhandled (store_contents (cs_row (ap_db app)))) (\<lambda>(stored, m).
       let before = ap_config app; current = document_revision (ck_digest ck) stored in
       if \<not> whole_document \<and> mt_format m = Some STORE_FORMAT
       then Inl (Conflict STORE_CONVERTED_REFUSAL (Some current) [])
       else if expected_revision \<noteq> None \<and> expected_revision \<noteq> Some current
       then Inl (Conflict STALE_PAGE_REFUSAL (Some current) (sort (changed_paths [] stored document)))
       else (case (if confirm then None else drop_refusal stored document) of
         Some r \<Rightarrow> Inl (Unprocessable [(''document'', r)])
       | None \<Rightarrow> Inr (commit_save ck document after whole_document reason stored m app,
           \<lparr>sv_before = ck_version ck before, sv_after = ck_version ck after,
            sv_restart = restart_required ck before after, sv_inert = inert_changes ck before after,
            sv_revision = document_revision (ck_digest ck) document\<rparr>)))"

subsection \<open>The endpoints\<close>

record save_body =
  sb_document :: payload
  sb_expected :: "string option"
  sb_confirm :: bool

text \<open>What every endpoint ends in: validated against \<open>seen\<close>, persisted under the lock.\<close>

definition save_as ::
  "string \<Rightarrow> bool \<Rightarrow> 'c checker \<Rightarrow> string + payload option \<Rightarrow> (nat \<Rightarrow> store_db) \<Rightarrow> save_body \<Rightarrow> 'c app \<Rightarrow> save_refusal + ('c app \<times> save_reply)" where
  "save_as reason check_empty ck file seen body app =
     bind_sum (validated_generation ck file seen check_empty (sb_document body)) (\<lambda>(document, after, whole).
       persist_and_swap ck document after whole (sb_expected body) (sb_confirm body) reason app)"

definition put_config_overrides ::
  "'c checker \<Rightarrow> string + payload option \<Rightarrow> (nat \<Rightarrow> store_db) \<Rightarrow> save_body \<Rightarrow> 'c app \<Rightarrow> save_refusal + ('c app \<times> save_reply)" where
  "put_config_overrides = save_as ''save'' True"

text \<open>\<open>preview_config_overrides\<close>, without its two counts of what would be rendered again.\<close>

definition preview_config_overrides ::
  "'c checker \<Rightarrow> string + payload option \<Rightarrow> (nat \<Rightarrow> store_db) \<Rightarrow> save_body \<Rightarrow> 'c app \<Rightarrow> save_refusal + (string list \<times> string list)" where
  "preview_config_overrides ck file seen body app =
     bind_sum (validated_generation ck file seen True (without_migrated_settings True (sb_document body))) (\<lambda>(d, after, w).
       Inr (restart_required ck (ap_config app) after, inert_changes ck (ap_config app) after))"

text \<open>
  \<open>apply_config_overrides\<close>: the save, and a job for each item behind a render that \<open>config/impact.py\<close>
  counts as affected; what it counts, and whether it is asked, are arguments.
\<close>

definition apply_config_overrides ::
  "'c checker \<Rightarrow> string + payload option \<Rightarrow> (nat \<Rightarrow> store_db) \<Rightarrow> ('c \<Rightarrow> 'c \<Rightarrow> bool) \<Rightarrow> ('c \<Rightarrow> (payload \<times> string) list) \<Rightarrow>
   instant \<Rightarrow> save_body \<Rightarrow> 'c app \<Rightarrow> jobs_db \<Rightarrow> save_refusal + ('c app \<times> jobs_db \<times> save_reply \<times> nat \<times> nat)" where
  "apply_config_overrides ck file seen render_affecting affected_items now body app jobs =
     bind_sum (save_as ''apply'' True ck file seen body app) (\<lambda>(app', saved).
       let entries = (if render_affecting (ap_config app) (ap_config app') then affected_items (ap_config app') else []);
           enqueued = enqueue_batch now ''process_item'' entries jobs
       in Inr (app', fst enqueued, saved, snd enqueued, length entries - snd enqueued))"

definition load_snapshot :: "store_db \<Rightarrow> nat \<Rightarrow> (payload \<times> int) option" where
  "load_snapshot db i = map_option (\<lambda>s. (sn_document s, sn_format s)) (List.find (\<lambda>s. sn_id s = i) (cs_snaps db))"

definition DELTA_SNAPSHOT_WITHOUT_FILE :: string where
  "DELTA_SNAPSHOT_WITHOUT_FILE = ''this snapshot is a delta from before the stored document replaced the configuration file, and that file is not readable, so there is nothing to merge it over''"

text \<open>\<open>restore_config_snapshot\<close>; the snapshot is read from \<open>seen 3\<close>.\<close>

definition restore_config_snapshot ::
  "'c checker \<Rightarrow> string + payload option \<Rightarrow> (nat \<Rightarrow> store_db) \<Rightarrow> nat \<Rightarrow> string option \<Rightarrow> bool \<Rightarrow> 'c app \<Rightarrow> save_refusal + ('c app \<times> save_reply)" where
  "restore_config_snapshot ck file seen i expected confirm app =
     (case load_snapshot (seen 3) i of
        None \<Rightarrow> Inl (Not_found (''no config snapshot '' @ nat_digits i))
      | Some (snapshot, format) \<Rightarrow>
        let stripped = without_migrated_settings True snapshot; is_delta = (format < STORE_FORMAT) in
        bind_sum
          (if \<not> is_delta then Inr stripped
           else bind_sum (unhandled file) (\<lambda>base. case base of
               None \<Rightarrow> Inl (Unprocessable [(''document'', DELTA_SNAPSHOT_WITHOUT_FILE)])
             | Some f \<Rightarrow> bind_sum (map_sum (\<lambda>e. Unprocessable [(''secrets'', e)]) id (merge_overrides f stripped))
                 (\<lambda>merged. Inr (without_migrated_settings False merged))))
          (\<lambda>candidate. save_as ''restore'' (\<not> is_delta) ck file seen
             \<lparr>sb_document = candidate, sb_expected = expected, sb_confirm = confirm\<rparr> app))"

definition OVERRIDES_EXPORT_FORMAT :: int where
  "OVERRIDES_EXPORT_FORMAT = 1"

text \<open>\<open>import_config_overrides\<close>, and \<open>import_config_file\<close> with the file read once more.\<close>

definition import_config_overrides ::
  "'c checker \<Rightarrow> string + payload option \<Rightarrow> (nat \<Rightarrow> store_db) \<Rightarrow> int \<Rightarrow> save_body \<Rightarrow> 'c app \<Rightarrow> save_refusal + ('c app \<times> save_reply)" where
  "import_config_overrides ck file seen format body app =
     (if format \<noteq> OVERRIDES_EXPORT_FORMAT
      then Inl (Unprocessable [(''autoposter_overrides'', ''unsupported export format '' @ int_digits format @
        ''; this service writes and reads '' @ int_digits OVERRIDES_EXPORT_FORMAT)])
      else save_as ''import'' True ck file seen
        (body\<lparr>sb_document := without_migrated_settings True (sb_document body)\<rparr>) app)"

definition NO_FILE_TO_IMPORT :: string where
  "NO_FILE_TO_IMPORT = ''there is no configuration file on this deployment, so there is nothing to import; the stored settings are the only ones''"

definition FILE_CHANGED_REFUSAL :: string where
  "FILE_CHANGED_REFUSAL = ''the configuration file changed while this page was open, so nothing was imported; open the page again to see what it says now''"

definition import_config_file ::
  "'c checker \<Rightarrow> string + payload option \<Rightarrow> string + payload option \<Rightarrow> (nat \<Rightarrow> store_db) \<Rightarrow> string option \<Rightarrow> string option \<Rightarrow> bool \<Rightarrow> 'c app \<Rightarrow> save_refusal + ('c app \<times> save_reply)" where
  "import_config_file ck first_read file seen expected expected_file confirm app =
     bind_sum (unhandled first_read) (\<lambda>base. case base of
         None \<Rightarrow> Inl (Conflict NO_FILE_TO_IMPORT None [])
       | Some f \<Rightarrow>
         if expected_file \<noteq> None \<and> expected_file \<noteq> Some (document_revision (ck_digest ck) f)
         then Inl (Conflict FILE_CHANGED_REFUSAL None [])
         else save_as ''import'' True ck file seen
           \<lparr>sb_document = without_migrated_settings True f, sb_expected = expected, sb_confirm = confirm\<rparr> app)"

text \<open>\<open>export_config_overrides\<close>, without the time it is stamped with.\<close>

definition export_config_overrides :: "store_db \<Rightarrow> save_refusal + (int \<times> payload)" where
  "export_config_overrides db = bind_sum (unhandled (load_overrides_document db)) (\<lambda>d. Inr (OVERRIDES_EXPORT_FORMAT, d))"

text \<open>The boot of a process (\<open>app.py lifespan\<close>): the load, the swap, and the list it empties.\<close>

definition boot_config :: "'c checker \<Rightarrow> string + payload option \<Rightarrow> store_db \<Rightarrow> store_db \<Rightarrow> 'c app \<Rightarrow> boot_error + 'c app" where
  "boot_config ck file db locked app =
     bind_sum (load_effective_config ck file db locked) (\<lambda>(db', c).
       let app1 = swap_config ck c (app\<lparr>ap_db := db'\<rparr>)
       in Inr (app1\<lparr>ap_booted := c, ap_db := clear_restart_paths db' db'\<rparr>))"

end
