(* ===== verification/Config_Doc_Props.thy ===== *)
theory Config_Doc_Props
  imports Config_Doc
begin

text \<open>
  What the walks over a configuration document compute: reading after an assignment, after a
  merge and after a strip; which settings a document can hold under a schema; when two
  documents differ in no path.
\<close>

subsection \<open>Look-ups\<close>

lemma in_keys: "k \<in> set (keys d) \<longleftrightarrow> map_of d k \<noteq> None"
  by (induction d) (auto simp: keys_def)

lemma get_map_of: "map_of d k = Some v \<Longrightarrow> get d k = v"
  by (simp add: get_def)

lemma get_JObj: "get d k = JObj e \<longleftrightarrow> map_of d k = Some (JObj e)"
  by (auto simp: get_def split: option.split)

lemma map_of_replace:
  "map_of (map (\<lambda>(k, v). if k = key then (key, w) else (k, v)) d) x =
     (if x = key \<and> map_of d key \<noteq> None then Some w else map_of d x)"
  by (induction d) auto

lemma map_of_dict_set [simp]: "map_of (dict_set d (key, w)) = (map_of d)(key \<mapsto> w)"
proof (cases "key \<in> fst ` set d")
  case True
  then have "map_of d key \<noteq> None" by (simp add: map_of_eq_None_iff)
  with True show ?thesis by (intro ext) (simp add: dict_set_def map_of_replace [where w = w])
next
  case False
  then have "map_of d key = None" by (simp add: map_of_eq_None_iff)
  with False show ?thesis by (auto simp: dict_set_def map_add_def split: option.split)
qed

lemma keys_dict_set: "keys (dict_set d (key, w)) = (if key \<in> set (keys d) then keys d else keys d @ [key])"
  by (auto simp: dict_set_def keys_def)

lemma map_of_without_key [simp]: "map_of (without_key d key) = (map_of d)(key := None)"
  by (induction d) (auto simp: without_key_def fun_eq_iff)

lemma map_of_filter_key: "map_of (filter (\<lambda>kv. fst kv \<notin> S) d) k = (if k \<in> S then None else map_of d k)"
  by (induction d) auto

lemma keys_without_key: "keys (without_key d key) = filter (\<lambda>k. k \<noteq> key) (keys d)"
  by (induction d) (auto simp: without_key_def keys_def)

subsection \<open>Well-formed documents\<close>

text \<open>The keys of a dict are distinct, at every depth.\<close>

fun wf_json :: "json \<Rightarrow> bool" where
  "wf_json (JObj d) \<longleftrightarrow> distinct (map fst d) \<and> (\<forall>kv \<in> set d. wf_json (snd kv))"
| "wf_json (JArr vs) \<longleftrightarrow> (\<forall>v \<in> set vs. wf_json v)"
| "wf_json _ \<longleftrightarrow> True"

lemma wf_distinct: "wf_json (JObj d) \<Longrightarrow> distinct (keys d)"
  by (simp add: keys_def)

lemma wf_value: "wf_json (JObj d) \<Longrightarrow> map_of d k = Some v \<Longrightarrow> wf_json v"
  by (force dest: map_of_SomeD)

lemma wf_JObjI:
  assumes "distinct (keys d)" and "\<And>k v. map_of d k = Some v \<Longrightarrow> wf_json v"
  shows "wf_json (JObj d)"
proof -
  have "wf_json v" if "(k, v) \<in> set d" for k v
    using that assms by (simp add: keys_def)
  with assms(1) show ?thesis by (auto simp: keys_def)
qed

lemma wf_dict_set: "wf_json (JObj d) \<Longrightarrow> wf_json v \<Longrightarrow> wf_json (JObj (dict_set d (k, v)))"
  by (intro wf_JObjI) (auto simp: keys_dict_set wf_distinct dest: wf_value split: if_splits)

lemma wf_without_key: "wf_json (JObj d) \<Longrightarrow> wf_json (JObj (without_key d k))"
  by (intro wf_JObjI) (auto simp: keys_without_key wf_distinct dest: wf_value split: if_splits)

subsection \<open>Merging\<close>

definition merged_value :: "json option \<Rightarrow> json \<Rightarrow> json" where
  "merged_value b v = (case b of Some (JObj e) \<Rightarrow> (case v of JObj w \<Rightarrow> JObj (merge_docs e w) | _ \<Rightarrow> v) | _ \<Rightarrow> v)"

lemma merge_step: "merge_docs b ((k, v) # kvs) = merge_docs (dict_set b (k, merged_value (map_of b k) v)) kvs"
  by (simp add: merged_value_def get_def split: option.split json.split)

declare merge_docs.simps(2) [simp del]

lemma map_of_merge:
  assumes "distinct (keys d)"
  shows "map_of (merge_docs b d) k = (case map_of d k of None \<Rightarrow> map_of b k | Some v \<Rightarrow> Some (merged_value (map_of b k) v))"
  using assms
proof (induction d arbitrary: b)
  case (Cons kv d)
  obtain key v where kv: "kv = (key, v)" by (cases kv)
  with Cons.prems have "key \<notin> set (keys d)" "distinct (keys d)" by (simp_all add: keys_def)
  then have "map_of d key = None" by (metis in_keys)
  with Cons.IH [OF \<open>distinct (keys d)\<close>] show ?case
    unfolding kv merge_step by (auto split: option.split)
qed (simp add: merge_docs.simps)

lemma keys_merge: "distinct (keys b) \<Longrightarrow> distinct (keys (merge_docs b d))"
proof (induction d arbitrary: b)
  case (Cons kv d)
  then show ?case by (cases kv) (auto simp: merge_step keys_dict_set)
qed (simp add: merge_docs.simps)

lemma map_of_size: "map_of d k = Some v \<Longrightarrow> size v < size (JObj d)"
  by (induction d) (auto split: if_splits)

lemma wf_merge: "wf_json (JObj b) \<Longrightarrow> wf_json (JObj d) \<Longrightarrow> wf_json (JObj (merge_docs b d))"
proof (induction "size (JObj d)" arbitrary: b d rule: less_induct)
  case less
  show ?case
  proof (rule wf_JObjI)
    show "distinct (keys (merge_docs b d))" using less.prems by (intro keys_merge wf_distinct)
    fix k v assume k: "map_of (merge_docs b d) k = Some v"
    show "wf_json v"
    proof (cases "map_of d k")
      case None
      with k less.prems show ?thesis by (simp add: map_of_merge wf_distinct wf_value)
    next
      case (Some w)
      then have v: "v = merged_value (map_of b k) w" using k less.prems by (simp add: map_of_merge wf_distinct)
      have w: "wf_json w" using Some less.prems by (blast intro: wf_value)
      have "wf_json (JObj (merge_docs e x))" if "map_of b k = Some (JObj e)" "w = JObj x" for e x
      proof (rule less.hyps)
        show "size (JObj x) < size (JObj d)" using map_of_size [OF Some] that by simp
        show "wf_json (JObj e)" using that less.prems by (blast intro: wf_value)
        show "wf_json (JObj x)" using that w by simp
      qed
      with v w show ?thesis by (auto simp: merged_value_def split: option.splits json.splits)
    qed
  qed
qed

text \<open>An override says nothing of a path where its mappings end on the way.\<close>

fun silent :: "payload \<Rightarrow> string list \<Rightarrow> bool" where
  "silent d [] = False"
| "silent d (part # parts) = (case map_of d part of
     None \<Rightarrow> True | Some (JObj e) \<Rightarrow> silent e parts | Some _ \<Rightarrow> False)"

lemma merge_silent: "wf_json (JObj d) \<Longrightarrow> silent d ps \<Longrightarrow> read_parts (JObj (merge_docs b d)) ps = read_parts (JObj b) ps"
proof (induction ps arbitrary: b d)
  case (Cons p ps)
  note m = map_of_merge [OF wf_distinct [OF Cons.prems(1)], of b p]
  show ?case
  proof (cases "map_of d p")
    case None
    with m show ?thesis by simp
  next
    case (Some v)
    then obtain e where v: "v = JObj e" and e: "silent e ps" using Cons.prems by (auto split: json.splits)
    have wf: "wf_json (JObj e)" using Cons.prems Some v by (blast intro: wf_value)
    have none: "read_parts (JObj e) ps = None"
      using e by (induction ps arbitrary: e) (auto split: option.splits json.splits)
    have other: "read_parts w ps = None" if "\<forall>x. w \<noteq> JObj x" for w
      using that e by (cases ps; cases w) auto
    show ?thesis
    proof (cases "map_of b p")
      case None
      with Some v m none show ?thesis by (simp add: merged_value_def)
    next
      case (Some w)
      with \<open>map_of d p = Some v\<close> v m none other [of w] Cons.IH [OF wf e] show ?thesis
        by (cases w) (simp_all add: merged_value_def)
    qed
  qed
qed simp

lemma merge_stated:
  "wf_json (JObj d) \<Longrightarrow> read_parts (JObj d) ps = Some v \<Longrightarrow> \<forall>x. v \<noteq> JObj x \<Longrightarrow> read_parts (JObj (merge_docs b d)) ps = Some v"
proof (induction ps arbitrary: b d)
  case (Cons p ps)
  then obtain w where w: "map_of d p = Some w" "read_parts w ps = Some v" by (auto split: option.splits)
  note m = map_of_merge [OF wf_distinct [OF Cons.prems(1)], of b p]
  show ?case
  proof (cases "\<exists>e f. map_of b p = Some (JObj e) \<and> w = JObj f")
    case True
    then obtain e f where ef: "map_of b p = Some (JObj e)" "w = JObj f" by blast
    with w Cons.prems have "wf_json (JObj f)" by (blast intro: wf_value)
    from Cons.IH [OF this, of e] w ef m Cons.prems show ?thesis by (simp add: merged_value_def)
  next
    case False
    then have "merged_value (map_of b p) w = w" by (auto simp: merged_value_def split: option.split json.split)
    with w m show ?thesis by simp
  qed
next
  case Nil
  then have "v = JObj d" by simp
  with Nil show ?case by blast
qed

lemma merge_holds_leaf:
  "wf_json (JObj d) \<Longrightarrow> holds_leaf (merge_docs b d) ps \<Longrightarrow> holds_leaf b ps \<or> holds_leaf d ps"
proof (induction ps arbitrary: b d rule: induct_list012)
  case (2 p)
  then show ?case by (auto simp: in_keys map_of_merge wf_distinct split: option.splits)
next
  case (3 p q ps)
  note m = map_of_merge [OF wf_distinct [OF 3(3)], of b p]
  from 3(4) obtain e where e: "map_of (merge_docs b d) p = Some (JObj e)" "holds_leaf e (q # ps)"
    by (auto simp: get_JObj split: json.splits)
  show ?case
  proof (cases "map_of d p")
    case None
    with m e have "map_of b p = Some (JObj e)" by simp
    with e show ?thesis by (simp add: get_def)
  next
    case (Some v)
    show ?thesis
    proof (cases "\<exists>x y. map_of b p = Some (JObj x) \<and> v = JObj y")
      case True
      then obtain x y where xy: "map_of b p = Some (JObj x)" "v = JObj y" by blast
      with Some 3(3) have "wf_json (JObj y)" by (blast intro: wf_value)
      with 3(2) [OF this, of x] xy Some m e show ?thesis by (simp add: merged_value_def get_def)
    next
      case False
      then have "merged_value (map_of b p) v = v" by (auto simp: merged_value_def split: option.split json.split)
      with Some m e(1) have "v = JObj e" by simp
      with Some e(2) show ?thesis by (simp add: get_def)
    qed
  qed
qed simp

subsection \<open>Secrets\<close>

lemma secret_at_None:
  "secret_at path d = None \<longleftrightarrow> (\<forall>k v. (k, v) \<in> set d \<longrightarrow> \<not> (k = ''secrets'' \<and> path \<noteq> ''libraries'') \<and>
     (\<forall>e. v = JObj e \<longrightarrow> secret_at (dotted path k) e = None))"
proof (induction d)
  case (Cons kv d)
  obtain key w where kv: "kv = (key, w)" by (cases kv)
  have "secret_at path (kv # d) = None \<longleftrightarrow> \<not> (key = ''secrets'' \<and> path \<noteq> ''libraries'') \<and>
     (\<forall>e. w = JObj e \<longrightarrow> secret_at (dotted path key) e = None) \<and> secret_at path d = None"
    unfolding kv by (cases w) (simp_all split: option.split)
  also have "\<dots> \<longleftrightarrow> (\<forall>k v. (k, v) \<in> set (kv # d) \<longrightarrow> \<not> (k = ''secrets'' \<and> path \<noteq> ''libraries'') \<and>
     (\<forall>e. v = JObj e \<longrightarrow> secret_at (dotted path k) e = None))"
    unfolding Cons.IH kv by force
  finally show ?case .
qed simp

lemma secret_at_NoneD:
  assumes "secret_at path d = None" and "(k, v) \<in> set d"
  shows "\<not> (k = ''secrets'' \<and> path \<noteq> ''libraries'')" and "v = JObj e \<Longrightarrow> secret_at (dotted path k) e = None"
  using assms(1) [unfolded secret_at_None [of path d], rule_format, OF assms(2)] by simp_all

lemma secret_at_NoneI:
  assumes "\<And>k v. (k, v) \<in> set d \<Longrightarrow> \<not> (k = ''secrets'' \<and> path \<noteq> ''libraries'')"
    and "\<And>k e. (k, JObj e) \<in> set d \<Longrightarrow> secret_at (dotted path k) e = None"
  shows "secret_at path d = None"
  unfolding secret_at_None [of path d]
proof (intro allI impI conjI)
  fix k v assume kv: "(k, v) \<in> set d"
  from assms(1) [OF kv] show "\<not> (k = ''secrets'' \<and> path \<noteq> ''libraries'')" .
  fix e assume "v = JObj e"
  with kv assms(2) show "secret_at (dotted path k) e = None" by blast
qed

lemma secret_at_None_map:
  assumes "distinct (keys d)"
  shows "secret_at path d = None \<longleftrightarrow> (\<forall>k v. map_of d k = Some v \<longrightarrow> \<not> (k = ''secrets'' \<and> path \<noteq> ''libraries'') \<and>
     (\<forall>e. v = JObj e \<longrightarrow> secret_at (dotted path k) e = None))"
proof -
  have "(k, v) \<in> set d \<longleftrightarrow> map_of d k = Some v" for k v using assms by (simp add: keys_def)
  then show ?thesis by (simp only: secret_at_None [of path d])
qed

lemma merge_secrets:
  "wf_json (JObj b) \<Longrightarrow> wf_json (JObj d) \<Longrightarrow> secret_at path b = None \<Longrightarrow> secret_at path d = None \<Longrightarrow> secret_at path (merge_docs b d) = None"
proof (induction "size (JObj d)" arbitrary: b d path rule: less_induct)
  case less
  note b = less.prems(3) [unfolded secret_at_None_map [OF wf_distinct [OF less.prems(1)]], rule_format]
  note d = less.prems(4) [unfolded secret_at_None_map [OF wf_distinct [OF less.prems(2)]], rule_format]
  have "\<not> (k = ''secrets'' \<and> path \<noteq> ''libraries'') \<and> (\<forall>e. v = JObj e \<longrightarrow> secret_at (dotted path k) e = None)"
    if k: "map_of (merge_docs b d) k = Some v" for k v
  proof (cases "map_of d k")
    case None
    with k b less.prems show ?thesis by (simp add: map_of_merge wf_distinct)
  next
    case (Some w)
    then have v: "v = merged_value (map_of b k) w" using k less.prems by (simp add: map_of_merge wf_distinct)
    show ?thesis
    proof (cases "\<exists>x y. map_of b k = Some (JObj x) \<and> w = JObj y")
      case True
      then obtain x y where xy: "map_of b k = Some (JObj x)" "w = JObj y" by blast
      have "secret_at (dotted path k) (merge_docs x y) = None"
      proof (rule less.hyps)
        show "size (JObj y) < size (JObj d)" using map_of_size [OF Some] xy by simp
        show "wf_json (JObj x)" using xy less.prems by (blast intro: wf_value)
        show "wf_json (JObj y)" using xy Some less.prems by (blast intro: wf_value)
        show "secret_at (dotted path k) x = None" using b [OF xy(1)] by simp
        show "secret_at (dotted path k) y = None" using d [OF Some] xy by simp
      qed
      with xy v d [OF Some] show ?thesis by (simp add: merged_value_def)
    next
      case False
      then have "merged_value (map_of b k) w = w" by (auto simp: merged_value_def split: option.split json.split)
      with v d [OF Some] show ?thesis by simp
    qed
  qed
  moreover have "distinct (keys (merge_docs b d))" using less.prems by (intro keys_merge wf_distinct)
  ultimately show ?case by (simp add: secret_at_None_map)
qed

subsection \<open>Settings that left the schema\<close>

lemma held_step: "holds_leaf d (p # q # ps) \<longleftrightarrow> (\<exists>e. map_of d p = Some (JObj e) \<and> holds_leaf e (q # ps))"
  by (cases "get d p") (auto simp: get_JObj [symmetric])

declare holds_leaf.simps(3) [simp del]

text \<open>No field of the schema stands where the setting was, so the walk reports a document that holds it.\<close>

fun retired :: "model \<Rightarrow> string list \<Rightarrow> bool" where
  "retired m [] = False"
| "retired m [part] = (map_of m part = None)"
| "retired m (part # parts) = (case map_of m part of
     None \<Rightarrow> True
   | Some ann \<Rightarrow> mapping_model_for ann = None \<and>
       (case model_for ann of Some nested \<Rightarrow> retired nested parts | None \<Rightarrow> False))"

lemma unknown_member:
  assumes "unknown_key_paths m path d = []" and "(k, v) \<in> set d"
  obtains ann where "map_of m k = Some ann"
    and "\<And>e n. v = JObj e \<Longrightarrow> mapping_model_for ann = None \<Longrightarrow> model_for ann = Some n \<Longrightarrow>
      unknown_key_paths n (dotted path k) e = []"
proof -
  have "\<exists>ann. map_of m k = Some ann \<and> (\<forall>e n. v = JObj e \<longrightarrow> mapping_model_for ann = None \<longrightarrow> model_for ann = Some n \<longrightarrow>
      unknown_key_paths n (dotted path k) e = [])"
    using assms by (induction d) (force split: option.splits json.splits)+
  then show ?thesis using that by blast
qed

lemma retired_not_held: "unknown_key_paths m path d = [] \<Longrightarrow> retired m ps \<Longrightarrow> \<not> holds_leaf d ps"
proof (induction ps arbitrary: m path d rule: induct_list012)
  case (2 p)
  have False if "map_of d p = Some v" for v
    using unknown_member [OF 2(1) map_of_SomeD [OF that]] 2(2) by auto
  then show ?case by (cases "map_of d p") (auto simp: in_keys)
next
  case (3 p q ps)
  have False if e: "map_of d p = Some (JObj e)" "holds_leaf e (q # ps)" for e
  proof -
    obtain ann where ann: "map_of m p = Some ann"
      "\<And>e n. JObj e = JObj e \<Longrightarrow> mapping_model_for ann = None \<Longrightarrow> model_for ann = Some n \<Longrightarrow> unknown_key_paths n (dotted path p) e = [] \<or> True"
      and u: "\<And>n. mapping_model_for ann = None \<Longrightarrow> model_for ann = Some n \<Longrightarrow> unknown_key_paths n (dotted path p) e = []"
      using unknown_member [OF 3(3) map_of_SomeD [OF e(1)]] by metis
    from 3(4) ann(1) obtain n where n: "mapping_model_for ann = None" "model_for ann = Some n" "retired n (q # ps)"
      by (auto split: option.splits)
    from 3(2) [OF u [OF n(1,2)] n(3)] e(2) show False by simp
  qed
  then show ?case by (auto simp: held_step)
qed simp

lemma holds_leaf_mono:
  assumes "\<And>k v. map_of d k = Some v \<Longrightarrow> map_of d' k = Some v" and "holds_leaf d qs"
  shows "holds_leaf d' qs"
proof (cases qs rule: remdups_adj.cases)
  case (2 q)
  with assms(2) obtain v where "map_of d q = Some v" by (auto simp: in_keys)
  with assms(1) 2 show ?thesis by (simp add: in_keys)
next
  case (3 q q' qs')
  with assms show ?thesis by (auto simp: held_step)
qed (use assms in simp)

lemma holds_leaf_shrinks: "holds_leaf (without_leaf d ps) qs \<Longrightarrow> holds_leaf d qs"
proof (induction ps arbitrary: d qs rule: induct_list012)
  case (2 p)
  then show ?case
    by (cases qs rule: remdups_adj.cases) (auto simp: in_keys held_step split: if_splits)
next
  case (3 p r ps)
  show ?case
  proof (cases "\<exists>e. get d p = JObj e")
    case False
    then have "without_leaf d (p # r # ps) = d" by (auto split: json.splits)
    with 3(3) show ?thesis by metis
  next
    case True
    then obtain e where e: "get d p = JObj e" "map_of d p = Some (JObj e)" by (auto simp: get_JObj)
    define inner where "inner = without_leaf e (r # ps)"
    have w: "without_leaf d (p # r # ps) = (if inner \<noteq> [] then dict_set d (p, JObj inner) else without_key d p)"
      using e by (simp add: inner_def Let_def)
    show ?thesis
    proof (cases qs rule: remdups_adj.cases)
      case (2 q)
      with 3(3) e w show ?thesis by (auto simp: in_keys split: if_splits)
    next
      case qs: (3 q q' qs')
      with 3(3) w obtain x where x: "map_of (if inner \<noteq> [] then dict_set d (p, JObj inner) else without_key d p) q = Some (JObj x)"
        "holds_leaf x (q' # qs')" by (auto simp: held_step)
      show ?thesis
      proof (cases "q = p")
        case True
        with x have "x = inner" by (auto split: if_splits)
        with 3(2) [of e "q' # qs'"] x True e qs show ?thesis by (simp add: inner_def held_step del: without_leaf.simps)
      next
        case False
        with x qs show ?thesis by (auto simp: held_step split: if_splits)
      qed
    qed (use 3 in simp)
  qed
qed simp

lemma leaf_dropped: "holds_leaf d ps \<Longrightarrow> \<not> holds_leaf (without_leaf d ps) ps"
proof (induction ps arbitrary: d rule: induct_list012)
  case (2 p)
  then show ?case by (auto simp: in_keys)
next
  case (3 p q ps)
  then obtain e where e: "map_of d p = Some (JObj e)" "holds_leaf e (q # ps)" by (auto simp: held_step)
  with 3(2) [of e] get_map_of [OF e(1)] show ?case
    by (simp add: held_step Let_def)
qed simp

lemma drop_leaf_shrinks: "holds_leaf (drop_leaf d ps) qs \<Longrightarrow> holds_leaf d qs"
  using holds_leaf_shrinks by (auto simp: drop_leaf_def split: if_splits)

lemma fold_drop_shrinks: "holds_leaf (foldl drop_leaf d ls) qs \<Longrightarrow> holds_leaf d qs"
  by (induction ls arbitrary: d) (auto dest: drop_leaf_shrinks)

lemma fold_drop_drops: "ps \<in> set ls \<Longrightarrow> \<not> holds_leaf (foldl drop_leaf d ls) ps"
proof (induction ls arbitrary: d)
  case (Cons l ls)
  have "\<not> holds_leaf (drop_leaf d l) l" using leaf_dropped by (auto simp: drop_leaf_def)
  with Cons show ?case using fold_drop_shrinks by (cases "ps = l") auto
qed simp

abbreviation migrated_leaves :: "string list list" where
  "migrated_leaves \<equiv> map (split_on CHR ''.'') MIGRATED_SETTINGS"

definition current :: "payload \<Rightarrow> bool" where
  "current d \<longleftrightarrow> (\<forall>ps \<in> set migrated_leaves. \<not> holds_leaf d ps)"

lemma strip_current:
  assumes "current d" and "sect \<Longrightarrow> ''version_check'' \<notin> set (keys d)"
  shows "without_migrated_settings sect d = d"
proof -
  have "filter (holds_leaf d) migrated_leaves = []" using assms(1) by (auto simp: current_def filter_empty_conv)
  with assms(2) show ?thesis by (auto simp: without_migrated_settings_def MIGRATED_SECTIONS_def Let_def)
qed

lemma strip_makes_current: "current (without_migrated_settings sect d)"
proof -
  have "\<not> holds_leaf (without_migrated_settings sect d) ps" if ps: "ps \<in> set migrated_leaves" for ps
  proof
    let ?s = "if sect then filter (\<lambda>key. key \<in> set (keys d)) MIGRATED_SECTIONS else []"
    let ?d = "filter (\<lambda>kv. fst kv \<notin> set ?s) d"
    let ?l = "filter (holds_leaf d) migrated_leaves"
    assume h: "holds_leaf (without_migrated_settings sect d) ps"
    have sub: "holds_leaf d qs" if "holds_leaf ?d qs" for qs
    proof -
      have "map_of d k = Some v" if "map_of ?d k = Some v" for k v
        using that map_of_filter_key [of "set ?s" d k] by (auto split: if_splits)
      from holds_leaf_mono [OF this] that show ?thesis by blast
    qed
    show False
    proof (cases "holds_leaf d ps")
      case True
      with ps h fold_drop_drops [of ps ?l ?d] show False
        by (auto simp: without_migrated_settings_def Let_def filter_empty_conv split: if_splits)
    next
      case False
      with h sub [OF fold_drop_shrinks [of ?d ?l ps]] show False
        by (auto simp: without_migrated_settings_def Let_def split: if_splits)
    qed
  qed
  then show ?thesis by (simp add: current_def)
qed

subsection \<open>Two documents that differ in no path\<close>

definition canon :: "json \<Rightarrow> json" where
  "canon v = sorted_keys (plain_numbers v)"

lemma canon_JObj: "canon (JObj d) = JObj (sort_key fst (map (map_prod id canon) d))"
proof -
  have "map (map_prod id canon) d = map (map_prod id sorted_keys) (map (map_prod id plain_numbers) d)"
    by (induction d) (auto simp: canon_def)
  then show ?thesis by (simp only: canon_def plain_numbers.simps sorted_keys.simps)
qed

lemma sort_key_fst_unique:
  assumes "distinct (map fst xs)" and "distinct (map fst ys)"
  shows "sort_key fst xs = sort_key fst ys \<longleftrightarrow> map_of xs = map_of ys"
proof
  assume "sort_key fst xs = sort_key fst ys"
  then have "set xs = set ys" by (metis set_sort)
  with assms show "map_of xs = map_of ys" by (metis map_of_inject_set)
next
  assume "map_of xs = map_of ys"
  with assms have eq: "set xs = set ys" by (metis map_of_inject_set)
  show "sort_key fst xs = sort_key fst ys"
  proof (rule map_sorted_distinct_set_unique [of fst])
    show "inj_on fst (set (sort_key fst xs) \<union> set (sort_key fst ys))"
      using assms(1) eq by (simp add: distinct_map)
    show "distinct (map fst (sort_key fst xs))" "distinct (map fst (sort_key fst ys))"
      using assms by (simp_all add: distinct_map)
  qed (simp_all add: eq)
qed

lemma py_equal_JObj:
  assumes "distinct (keys a)" and "distinct (keys b)"
  shows "py_equal (JObj a) (JObj b) \<longleftrightarrow> (\<forall>k. rel_option py_equal (map_of a k) (map_of b k))"
proof -
  have m: "map_of (map (map_prod id canon) d) = map_option canon \<circ> map_of d" for d
    by (induction d) (auto simp: fun_eq_iff)
  have d: "distinct (map fst (map (map_prod id canon) d))" if "distinct (keys d)" for d
    using that by (simp add: keys_def comp_def)
  have "py_equal (JObj a) (JObj b) \<longleftrightarrow> map_option canon \<circ> map_of a = map_option canon \<circ> map_of b"
    unfolding py_equal_def canon_def [symmetric] canon_JObj json.inject
      sort_key_fst_unique [OF d [OF assms(1)] d [OF assms(2)]] m ..
  also have "\<dots> \<longleftrightarrow> (\<forall>k. map_option canon (map_of a k) = map_option canon (map_of b k))"
    by (simp add: fun_eq_iff)
  also have "\<dots> \<longleftrightarrow> (\<forall>k. rel_option py_equal (map_of a k) (map_of b k))"
    by (intro all_cong1) (auto simp: py_equal_def canon_def rel_option_iff split: option.split)
  finally show ?thesis .
qed

text \<open>A key whose value is \<open>None\<close> reads as one that is not there, at every level of mappings.\<close>

primrec forget_nulls :: "json \<Rightarrow> json" where
  "forget_nulls JNull = JNull"
| "forget_nulls (JBool b) = JBool b"
| "forget_nulls (JInt i) = JInt i"
| "forget_nulls (JFloat q) = JFloat q"
| "forget_nulls (JStr s) = JStr s"
| "forget_nulls (JArr vs) = JArr vs"
| "forget_nulls (JObj kvs) = JObj (filter (\<lambda>kv. snd kv \<noteq> JNull) (map (map_prod id forget_nulls) kvs))"

lemma forget_null: "forget_nulls v = JNull \<longleftrightarrow> v = JNull"
  by (cases v) simp_all

lemma map_of_forget:
  "map_of (filter (\<lambda>kv. snd kv \<noteq> JNull) (map (map_prod id forget_nulls) d)) k =
     (if distinct (keys d) then (case get d k of JNull \<Rightarrow> None | v \<Rightarrow> Some (forget_nulls v)) else
      map_of (filter (\<lambda>kv. snd kv \<noteq> JNull) (map (map_prod id forget_nulls) d)) k)"
proof (induction d)
  case (Cons kv d)
  obtain key v where kv: "kv = (key, v)" by (cases kv)
  show ?case
  proof (cases "distinct (keys (kv # d)) \<and> k = key")
    case True
    then have "map_of d key = None" using kv in_keys [of key d] by (auto simp: keys_def)
    with True Cons kv show ?thesis by (cases v) (simp_all add: get_def keys_def)
  next
    case False
    with Cons kv show ?thesis by (auto simp: get_def keys_def)
  qed
qed (simp add: get_def)

lemma distinct_forget: "distinct (keys d) \<Longrightarrow> distinct (keys (filter (\<lambda>kv. snd kv \<noteq> JNull) (map (map_prod id forget_nulls) d)))"
  by (simp add: keys_def distinct_map_filter comp_def)

lemma key_agrees:
  "rel_option py_equal (case b of JNull \<Rightarrow> None | v \<Rightarrow> Some (forget_nulls v)) (case a of JNull \<Rightarrow> None | v \<Rightarrow> Some (forget_nulls v)) \<longleftrightarrow>
     (case (b, a) of (JObj x, JObj y) \<Rightarrow> py_equal (forget_nulls b) (forget_nulls a) | _ \<Rightarrow> py_equal b a)"
  by (cases a; cases b; simp add: py_equal_def)

lemma changed_paths_exact_aux:
  "wf_json (JObj old) \<Longrightarrow> wf_json (JObj new) \<Longrightarrow>
   changed_paths prefix old new = [] \<longleftrightarrow> py_equal (forget_nulls (JObj old)) (forget_nulls (JObj new))"
proof (induction prefix old new rule: changed_paths.induct)
  case (1 prefix old new)
  define verdict where "verdict k = (case (get old k, get new k) of
       (JObj b, JObj a) \<Rightarrow> changed_paths (dotted prefix k) b a
     | (b, a) \<Rightarrow> if py_equal b a then [] else [dotted prefix k])" for k
  have key: "verdict k = [] \<longleftrightarrow> rel_option py_equal
      (case get old k of JNull \<Rightarrow> None | v \<Rightarrow> Some (forget_nulls v)) (case get new k of JNull \<Rightarrow> None | v \<Rightarrow> Some (forget_nulls v))" for k
  proof (cases "\<exists>x y. get old k = JObj x \<and> get new k = JObj y")
    case True
    then obtain x y where xy: "get old k = JObj x" "get new k = JObj y" by blast
    then have m: "map_of old k = Some (JObj x)" "map_of new k = Some (JObj y)" by (simp_all add: get_JObj)
    then have "k \<in> set (keys old @ filter (\<lambda>key. key \<notin> set (keys old)) (keys new))" by (simp add: in_keys)
    moreover have "wf_json (JObj x)" "wf_json (JObj y)" using m 1(2,3) by (blast intro: wf_value)+
    ultimately have "changed_paths (dotted prefix k) x y = [] \<longleftrightarrow> py_equal (forget_nulls (JObj x)) (forget_nulls (JObj y))"
      using 1(1) [of k] xy by (simp del: wf_json.simps forget_nulls.simps)
    with xy show ?thesis unfolding key_agrees verdict_def by simp
  next
    case False
    then show ?thesis unfolding key_agrees verdict_def by (auto split: json.split)
  qed
  have absent: "verdict k = []" if "k \<notin> set (keys old)" "k \<notin> set (keys new)" for k
    using that by (simp add: in_keys verdict_def get_def py_equal_def)
  have "changed_paths prefix old new = [] \<longleftrightarrow> (\<forall>k. verdict k = [])"
    unfolding changed_paths.simps [of prefix old new] verdict_def [symmetric] using absent by auto
  also have "\<dots> \<longleftrightarrow> py_equal (forget_nulls (JObj old)) (forget_nulls (JObj new))"
    using 1(2,3) by (simp add: key py_equal_JObj distinct_forget wf_distinct map_of_forget del: wf_json.simps)
  finally show ?case .
qed

subsection \<open>Properties\<close>

text \<open>
  C35: a merge reads the override where it speaks and the base where it is silent. At a path
  where the override states a value that is not a mapping, the merged document has that value,
  whatever the base holds there or above (a list replaces a list); at a path where the
  override's mappings end on the way, it reads as the base does.
\<close>

theorem merge_reads_both:
  assumes "wf_json (JObj d)"
  shows "(silent d ps \<longrightarrow> read_parts (JObj (merge_docs b d)) ps = read_parts (JObj b) ps) \<and>
    (read_parts (JObj d) ps = Some v \<and> (\<forall>x. v \<noteq> JObj x) \<longrightarrow> read_parts (JObj (merge_docs b d)) ps = Some v)"
  using merge_silent [OF assms] merge_stated [OF assms] by blast

definition file_example :: payload where
  "file_example = [(''workers'', JInt 2), (''providers'', JObj [(''order'', JArr [JStr ''tmdb'', JStr ''tvdb'']), (''ttl'', JInt 7)])]"

definition delta_example :: payload where
  "delta_example = [(''providers'', JObj [(''order'', JArr [JStr ''tvdb''])])]"

theorem merge_reads_both_witness:
  "read_parts (JObj (merge_docs file_example delta_example)) [''providers'', ''ttl''] = Some (JInt 7) \<and>
   read_parts (JObj (merge_docs file_example delta_example)) [''providers'', ''order''] = Some (JArr [JStr ''tvdb''])"
proof -
  have wf: "wf_json (JObj delta_example)" by (simp add: delta_example_def)
  have "silent delta_example [''providers'', ''ttl'']" by (simp add: delta_example_def)
  with merge_reads_both [OF wf, of "[''providers'', ''ttl'']" file_example "JNull"]
  have 1: "read_parts (JObj (merge_docs file_example delta_example)) [''providers'', ''ttl''] = Some (JInt 7)"
    by (simp add: file_example_def)
  have "read_parts (JObj delta_example) [''providers'', ''order''] = Some (JArr [JStr ''tvdb''])"
    by (simp add: delta_example_def)
  with merge_reads_both [OF wf, of "[''providers'', ''order'']" file_example "JArr [JStr ''tvdb'']"] 1
  show ?thesis by simp
qed

text \<open>
  C36: the walk that names what changed misses nothing but nulls. It answers no path exactly when
  the two documents are equal as Python compares them (in any order of keys, numbers by value)
  once every key whose value is \<open>None\<close> is left out of the mappings; so a key that is dropped is
  reported unless its value was null.
\<close>

theorem changed_paths_exact:
  assumes "wf_json (JObj old)" and "wf_json (JObj new)"
  shows "changed_paths prefix old new = [] \<longleftrightarrow> py_equal (forget_nulls (JObj old)) (forget_nulls (JObj new))"
  using assms by (rule changed_paths_exact_aux)

theorem changed_paths_exact_witness:
  "changed_paths [] [(''a'', JNull), (''b'', JInt 1)] [(''b'', JBool True)] = [] \<and>
   changed_paths [] [(''b'', JInt 1)] [(''b'', JInt 2)] \<noteq> []"
proof -
  have "py_equal (forget_nulls (JObj [(''a'', JNull), (''b'', JInt 1)])) (forget_nulls (JObj [(''b'', JBool True)]))"
    "\<not> py_equal (forget_nulls (JObj [(''b'', JInt 1)])) (forget_nulls (JObj [(''b'', JInt 2)]))"
    by (simp_all add: py_equal_def)
  then show ?thesis
    using changed_paths_exact [of "[(''a'', JNull), (''b'', JInt 1)]" "[(''b'', JBool True)]" "[]"]
      changed_paths_exact [of "[(''b'', JInt 1)]" "[(''b'', JInt 2)]" "[]"] by simp
qed

end
