(* ===== verification/Config_Store_Props.thy ===== *)
theory Config_Store_Props
  imports Config_Save Config_Doc_Props
begin

text \<open>
  The configuration store over time: what a save has validated is what the next boot runs, the
  row always holds a configuration the service can start on, and no save loses a document it
  was not composed from.
\<close>

subsection \<open>What the store relies on\<close>

text \<open>
  The validator: the settings that left the schema are no fields of it, and a document that
  still names one builds what it builds without it (unknown keys are ignored); it refuses a
  document with a \<open>version_check\<close> section (\<open>Config\<close>'s own rule), and the empty one, which
  lacks the required settings.
\<close>

definition sound_checker :: "'c checker \<Rightarrow> bool" where
  "sound_checker ck \<longleftrightarrow> (\<forall>ps \<in> set migrated_leaves. retired (ck_schema ck) ps) \<and>
     map_of (ck_schema ck) ''version_check'' = None \<and>
     (\<exists>e. ck_build ck [] = Inl e) \<and>
     (\<forall>d. ''version_check'' \<in> set (keys d) \<longrightarrow> (\<exists>e. ck_build ck d = Inl e)) \<and>
     (\<forall>d. ck_build ck (without_migrated_settings False d) = ck_build ck d)"

text \<open>A document that is a configuration: what it builds, and that reading it back changes nothing.\<close>

definition whole_document :: "'c checker \<Rightarrow> payload \<Rightarrow> 'c \<Rightarrow> bool" where
  "whole_document ck d c \<longleftrightarrow> d \<noteq> [] \<and> current d \<and> ''version_check'' \<notin> set (keys d) \<and>
     secret_at [] d = None \<and> ck_build ck d = Inr c"

lemma reject_secrets_Inr: "reject_secrets d = Inr u \<longleftrightarrow> secret_at [] d = None"
  by (simp add: reject_secrets_def split: option.split)

lemma map_sum_Inr: "map_sum f g m = Inr y \<longleftrightarrow> (\<exists>x. m = Inr x \<and> y = g x)"
  by (cases m) auto

lemma validated_Inr: "validated ck d = Inr c \<longleftrightarrow> secret_at [] d = None \<and> ck_build ck d = Inr c"
  by (simp add: validated_def raising_def bind_sum_Inr map_sum_Inr reject_secrets_Inr)

lemma built_whole:
  assumes "sound_checker ck" and "ck_build ck d = Inr c"
  shows "d \<noteq> []" and "''version_check'' \<notin> set (keys d)"
  using assms by (auto simp: sound_checker_def)

lemma whole_read:
  assumes "whole_document ck d c" and "cr_document r = JObj d"
  shows "row_document (Some r) = Inr d"
  using assms strip_current [of d True] by (simp add: whole_document_def row_document_def)

lemma known_document:
  assumes "sound_checker ck" and "unknown_key_paths (ck_schema ck) [] d = []"
  shows "current d" and "''version_check'' \<notin> set (keys d)"
proof -
  show "current d" using assms retired_not_held by (auto simp: current_def sound_checker_def)
  show "''version_check'' \<notin> set (keys d)"
    using assms retired_not_held [of "ck_schema ck" "[]" d "[''version_check'']"] by (auto simp: sound_checker_def)
qed

subsection \<open>Stripping and secrets\<close>

lemma secret_mono:
  assumes "secret_at path d = None" and "set d' \<subseteq> set d"
  shows "secret_at path d' = None"
proof (rule secret_at_NoneI)
  fix k v assume "(k, v) \<in> set d'"
  with assms(2) have "(k, v) \<in> set d" by blast
  then show "\<not> (k = ''secrets'' \<and> path \<noteq> ''libraries'')" by (rule secret_at_NoneD(1) [OF assms(1)])
next
  fix k e assume "(k, JObj e) \<in> set d'"
  with assms(2) have "(k, JObj e) \<in> set d" by blast
  then show "secret_at (dotted path k) e = None" by (rule secret_at_NoneD(2) [OF assms(1)]) simp
qed

lemma secret_dict_set:
  assumes "secret_at path d = None" and "key \<in> set (keys d)" and "secret_at (dotted path key) e = None"
  shows "secret_at path (dict_set d (key, JObj e)) = None"
proof -
  have "key \<in> fst ` set d" using assms(2) by (simp add: keys_def)
  then have *: "dict_set d (key, JObj e) = map (\<lambda>(k, v). if k = key then (key, JObj e) else (k, v)) d" by (simp add: dict_set_def)
  note d = secret_at_NoneD [OF assms(1)]
  show ?thesis
  proof (rule secret_at_NoneI)
    fix k v assume kv: "(k, v) \<in> set (dict_set d (key, JObj e))"
    from assms(2) obtain w where "(key, w) \<in> set d" by (auto simp: keys_def)
    with kv obtain v' where "(k, v') \<in> set d" unfolding * by (auto split: if_splits)
    then show "\<not> (k = ''secrets'' \<and> path \<noteq> ''libraries'')" by (rule d(1))
  next
    fix k x assume kx: "(k, JObj x) \<in> set (dict_set d (key, JObj e))"
    show "secret_at (dotted path k) x = None"
    proof (cases "k = key")
      case True
      with kx have "x = e" unfolding * by (auto split: if_splits)
      with True assms(3) show ?thesis by simp
    next
      case False
      with kx have "(k, JObj x) \<in> set d" unfolding * by (auto split: if_splits)
      then show ?thesis by (rule d(2)) simp
    qed
  qed
qed

lemma secret_without_leaf: "secret_at path d = None \<Longrightarrow> secret_at path (without_leaf d ps) = None"
proof (induction ps arbitrary: d path rule: induct_list012)
  case (2 p)
  then show ?case by (auto simp: without_key_def intro: secret_mono)
next
  case (3 p q ps)
  show ?case
  proof (cases "\<exists>e. get d p = JObj e")
    case False
    then have "without_leaf d (p # q # ps) = d" by (auto split: json.splits)
    with 3(3) show ?thesis by metis
  next
    case True
    then obtain e where e: "get d p = JObj e" "map_of d p = Some (JObj e)" by (auto simp: get_JObj)
    then have "(p, JObj e) \<in> set d" by (blast intro: map_of_SomeD)
    then have "secret_at (dotted path p) e = None" by (rule secret_at_NoneD(2) [OF 3(3)]) simp
    from 3(2) [OF this] have inner: "secret_at (dotted path p) (without_leaf e (q # ps)) = None" .
    have "p \<in> set (keys d)" using e by (simp add: in_keys)
    from secret_dict_set [OF 3(3) this inner] e(1) 3(3) show ?thesis
      by (auto simp: Let_def without_key_def simp del: secret_at.simps intro: secret_mono)
  qed
qed simp

lemma secret_strip: "secret_at [] d = None \<Longrightarrow> secret_at [] (without_migrated_settings sect d) = None"
proof -
  assume d: "secret_at [] d = None"
  have fold: "secret_at [] e = None \<Longrightarrow> secret_at [] (foldl drop_leaf e ls) = None" for e ls
    by (induction ls arbitrary: e) (auto simp: drop_leaf_def secret_without_leaf)
  from d have "secret_at [] (filter P d) = None" for P by (rule secret_mono) auto
  with d fold show ?thesis by (auto simp: without_migrated_settings_def Let_def)
qed

subsection \<open>Inversions\<close>

lemma generation_Inr:
  assumes "validated_generation ck file seen ce given = Inr (document, c, whole)"
  shows "unknown_key_paths (ck_schema ck) [] document = []"
    and "secret_at [] document = None"
    and "whole \<Longrightarrow> ck_build ck document = Inr c"
    and "\<not> whole \<Longrightarrow> \<exists>f. file = Inr (Some f) \<and> ck_build ck (merge_docs f document) = Inr c"
    and "resolve_keep_sentinels (seen 0) given = Inr document"
proof -
  from assms obtain d0 where d0: "resolve_keep_sentinels (seen 0) given = Inr d0"
    unfolding validated_generation_def bind_sum_Inr by blast
  with assms have u: "unknown_key_paths (ck_schema ck) [] d0 = []" and rest: "built_generation ck file seen ce d0 = Inr (document, c, whole)"
    by (simp_all add: validated_generation_def Let_def split: if_splits)
  from rest obtain stored m where sm: "load_store (seen (Suc 0)) = Inr (stored, m)"
    unfolding built_generation_def bind_sum_Inr unhandled_def map_sum_Inr by auto
  obtain base where base: "layer_below file stored m = Inr base"
    using rest by (cases "layer_below file stored m") (simp_all add: built_generation_def unhandled_def sm)
  obtain candidate where cand: "candidate_over (seen 2) base d0 = Inr candidate"
    using rest by (cases "candidate_over (seen 2) base d0")
      (simp_all add: built_generation_def unhandled_def sm base Let_def split: if_split_asm)
  obtain c0 where c0: "ck_build ck candidate = Inr c0"
    using rest by (cases "ck_build ck candidate")
      (simp_all add: built_generation_def unhandled_def sm base cand Let_def split: if_split_asm)
  have "c0 = c" "whole = (base = None)" "document = d0"
    using rest by (simp_all add: built_generation_def unhandled_def sm base cand c0 Let_def split: if_split_asm)
  note g = base cand c0 [unfolded \<open>c0 = c\<close>] this(2,3)
  show "unknown_key_paths (ck_schema ck) [] document = []" "resolve_keep_sentinels (seen 0) given = Inr document"
    using u d0 g(5) by simp_all
  show "secret_at [] document = None"
    using g(2,5) by (auto simp: candidate_over_def secrets_checked_def bind_sum_Inr map_sum_Inr merge_overrides_def
        reject_secrets_Inr split: option.splits)
  show "ck_build ck document = Inr c" if whole
    using that g by (auto simp: candidate_over_def bind_sum_Inr)
  show "\<exists>f. file = Inr (Some f) \<and> ck_build ck (merge_docs f document) = Inr c" if "\<not> whole"
  proof -
    from that g(4) obtain f where f: "base = Some f" by auto
    with g(1) have "file = Inr (Some f)"
      by (auto simp: layer_below_def bind_sum_Inr unhandled_def map_sum_Inr split: if_splits)
    moreover from f g(2,5) have "candidate = merge_docs f document"
      by (auto simp: candidate_over_def secrets_checked_def bind_sum_Inr map_sum_Inr merge_overrides_def)
    ultimately show ?thesis using g(3) by blast
  qed
qed

lemma persist_Inr:
  assumes "persist_and_swap ck document after whole expected confirm reason app = Inr (app', reply)"
  obtains stored m where "store_contents (cs_row (ap_db app)) = Inr (stored, m)"
    and "mt_format m = Some STORE_FORMAT \<Longrightarrow> whole"
    and "expected = None \<or> expected = Some (document_revision (ck_digest ck) stored)"
    and "confirm \<or> drop_refusal stored document = None"
    and "app' = commit_save ck document after whole reason stored m app"
proof -
  from assms obtain stored m where sm: "store_contents (cs_row (ap_db app)) = Inr (stored, m)"
    by (auto simp: persist_and_swap_def bind_sum_Inr unhandled_def map_sum_Inr)
  with assms that [OF sm] show ?thesis
    by (auto simp: persist_and_swap_def unhandled_def Let_def split: if_splits option.splits)
qed

lemma commit_save_simps [simp]:
  "ap_config (commit_save ck document after whole reason stored m app) = after"
  "ap_booted (commit_save ck document after whole reason stored m app) = ap_booted app"
  "ap_object (commit_save ck document after whole reason stored m app) = ap_object app"
  "cs_row (ap_db (commit_save ck document after whole reason stored m app)) = Some \<lparr>cr_document = JObj document,
     cr_meta = Some (with_restart_paths (if whole then m\<lparr>mt_format := Some STORE_FORMAT\<rparr> else m)
        (restart_required ck (ap_booted app) after @ inert_changes ck (ap_object app) after))\<rparr>"
  "cs_snaps (ap_db (commit_save ck document after whole reason stored m app)) =
     cs_snaps (capture_snapshot stored reason (case mt_format m of None \<Rightarrow> 1 | Some f \<Rightarrow> f) (ap_db app))"
  "cs_next (ap_db (commit_save ck document after whole reason stored m app)) =
     cs_next (capture_snapshot stored reason (case mt_format m of None \<Rightarrow> 1 | Some f \<Rightarrow> f) (ap_db app))"
  by (simp_all add: commit_save_def Let_def swap_config_def write_store_def)

lemma with_restart_format [simp]: "mt_format (with_restart_paths m ps) = mt_format m"
  by (simp add: with_restart_paths_def)

lemma restart_with [simp]: "restart_paths (with_restart_paths m ps) = sort (remdups ps)"
  by (auto simp: restart_paths_def with_restart_paths_def Let_def sorted_sort_id)

subsection \<open>The history\<close>

definition snaps_ok :: "store_db \<Rightarrow> bool" where
  "snaps_ok db \<longleftrightarrow> sorted_wrt (<) (map sn_id (cs_snaps db)) \<and>
     (\<forall>s \<in> set (cs_snaps db). sn_id s < cs_next db \<and> sn_document s \<noteq> []) \<and>
     length (cs_snaps db) \<le> SNAPSHOT_RETENTION"

lemma kept_is_drop:
  assumes "sorted_wrt (<) (map sn_id snaps)"
  shows "filter (\<lambda>s. sn_id s \<in> set (kept_ids snaps)) snaps = drop (length snaps - SNAPSHOT_RETENTION) snaps"
proof -
  let ?n = "length snaps - SNAPSHOT_RETENTION"
  have ids: "sorted (map sn_id snaps)" "distinct (map sn_id snaps)"
    using assms by (simp_all add: strict_sorted_iff)
  have kept: "set (kept_ids snaps) = sn_id ` set (drop ?n snaps)"
    using ids by (simp add: kept_ids_def sorted_sort_id take_rev drop_map)
  have split: "snaps = take ?n snaps @ drop ?n snaps" by simp
  have "sn_id s \<notin> set (kept_ids snaps)" if "s \<in> set (take ?n snaps)" for s
    using that ids(2) unfolding kept by (subst (asm) split) (auto simp del: append_take_drop_id)
  then have "filter (\<lambda>s. sn_id s \<in> set (kept_ids snaps)) (take ?n snaps) = []" by (auto simp: filter_empty_conv)
  moreover have "filter (\<lambda>s. sn_id s \<in> set (kept_ids snaps)) (drop ?n snaps) = drop ?n snaps"
    by (auto simp: filter_id_conv kept)
  ultimately show ?thesis by (metis append_Nil filter_append split)
qed

lemma capture_snaps:
  assumes "snaps_ok db" and "document \<noteq> []"
  shows "cs_snaps (capture_snapshot document reason format db) =
    drop (Suc (length (cs_snaps db)) - SNAPSHOT_RETENTION) (cs_snaps db @ [\<lparr>sn_id = cs_next db, sn_document = document,
      sn_paths = length (document_paths [] document), sn_reason = reason, sn_format = format\<rparr>])"
proof -
  have "sorted_wrt (<) (map sn_id (cs_snaps db @ [\<lparr>sn_id = cs_next db, sn_document = document,
      sn_paths = length (document_paths [] document), sn_reason = reason, sn_format = format\<rparr>]))"
    using assms by (auto simp: snaps_ok_def sorted_wrt_append)
  from kept_is_drop [OF this] assms(2) show ?thesis by (simp add: capture_snapshot_def Let_def)
qed

lemma capture_ok:
  assumes "snaps_ok db"
  shows "snaps_ok (capture_snapshot document reason format db)"
proof (cases "document = []")
  case False
  let ?new = "\<lparr>sn_id = cs_next db, sn_document = document,
      sn_paths = length (document_paths [] document), sn_reason = reason, sn_format = format\<rparr>"
  define rows where "rows = cs_snaps db @ [?new]"
  have "sorted_wrt (<) (map sn_id rows)" "\<forall>s \<in> set rows. sn_id s < Suc (cs_next db) \<and> sn_document s \<noteq> []"
    using assms False by (auto simp: snaps_ok_def sorted_wrt_append rows_def intro: less_SucI)
  then have "sorted_wrt (<) (map sn_id (drop n rows))" "\<forall>s \<in> set (drop n rows). sn_id s < Suc (cs_next db) \<and> sn_document s \<noteq> []" for n
    by (simp_all only: drop_map [symmetric] sorted_wrt_drop) (blast dest: in_set_dropD)
  moreover have "cs_next (capture_snapshot document reason format db) = Suc (cs_next db)"
    using False by (simp add: capture_snapshot_def Let_def)
  moreover have "length (drop (Suc (length (cs_snaps db)) - SNAPSHOT_RETENTION) rows) \<le> SNAPSHOT_RETENTION"
    by (simp add: rows_def)
  ultimately show ?thesis
    unfolding snaps_ok_def [of "capture_snapshot document reason format db"] capture_snaps [OF assms False] rows_def [symmetric]
    by (simp only: simp_thms)
qed (use assms in \<open>simp add: capture_snapshot_def\<close>)

lemma capture_row [simp]: "cs_row (capture_snapshot document reason format db) = cs_row db"
  by (simp add: capture_snapshot_def Let_def)

lemma capture_cases:
  "capture_snapshot document reason format db = db \<or> document \<noteq> []"
  by (simp add: capture_snapshot_def)

subsection \<open>Nothing differs from itself\<close>

lemma changed_paths_refl: "changed_paths prefix d d = []"
proof (induction "size (JObj d)" arbitrary: d prefix rule: less_induct)
  case less
  have "changed_paths (dotted prefix k) e e = []" if "get d k = JObj e" for k e
    using less.hyps [of e] get_size [OF that] by blast
  then show ?case by (auto simp: changed_paths.simps [of prefix d d] py_equal_def split: json.split)
qed

lemma restart_required_refl: "restart_required ck c c = []"
  by (simp add: restart_required_def diff_of_def changed_paths_refl)

lemma restart_list:
  "filter (\<lambda>p. \<not> is_inert p) (sort (remdups (restart_required ck b c @ inert_changes ck x c))) =
     sort (remdups (restart_required ck b c))"
proof -
  have "filter (\<lambda>p. \<not> is_inert p) (restart_required ck b c) = restart_required ck b c"
    by (auto simp: restart_required_def filter_id_conv)
  moreover have "filter (\<lambda>p. \<not> is_inert p) (inert_changes ck x c) = []"
    by (auto simp: inert_changes_def filter_empty_conv)
  ultimately show ?thesis by (simp add: filter_sort remdups_filter [symmetric])
qed

end
