(* ===== verification/Config_Props.thy ===== *)
theory Config_Props
  imports Config_Store_Props
begin

text \<open>
  Properties of the configuration store: every reachable state boots on what it runs, the
  conversion of a delta, the guards of a save, and the keep marker.
\<close>

subsection \<open>What a boot leaves\<close>

definition holds_config :: "'c checker \<Rightarrow> store_db \<Rightarrow> 'c \<Rightarrow> bool" where
  "holds_config ck db c \<longleftrightarrow> (\<exists>d. row_document (cs_row db) = Inr d \<and> whole_document ck d c) \<and>
     mt_format (meta_of (cs_row db)) = Some STORE_FORMAT"

lemma holds_config_loads:
  assumes "holds_config ck db c"
  shows "load_effective_config ck file db locked = Inr (locked, c)"
proof -
  from assms obtain d where d: "row_document (cs_row db) = Inr d" "whole_document ck d c" by (auto simp: holds_config_def)
  then have "validated ck d = Inr c" by (simp add: whole_document_def validated_Inr)
  with assms d show ?thesis
    by (simp add: load_effective_config_def load_store_def store_contents_def raising_def holds_config_def whole_document_def)
qed

lemma row_document_current: "row_document row = Inr d \<Longrightarrow> current d \<and> (d \<noteq> [] \<longrightarrow> ''version_check'' \<notin> set (keys d))"
proof -
  assume d: "row_document row = Inr d"
  show ?thesis
  proof (cases "\<exists>e. d = without_migrated_settings True e")
    case True
    then obtain e where e: "d = without_migrated_settings True e" by blast
    have sub: "''version_check'' \<notin> set (keys (foldl drop_leaf (filter (\<lambda>kv. fst kv \<notin> set [''version_check'']) e) ls))" for ls
    proof -
      have "\<not> holds_leaf (filter (\<lambda>kv. fst kv \<notin> set [''version_check'']) e) [''version_check'']"
        by (auto simp: keys_def)
      then have "\<not> holds_leaf (foldl drop_leaf (filter (\<lambda>kv. fst kv \<notin> set [''version_check'']) e) ls) [''version_check'']"
        using fold_drop_shrinks by blast
      then show ?thesis by simp
    qed
    have "''version_check'' \<notin> set (keys d)"
    proof (cases "''version_check'' \<in> set (keys e)")
      case True
      with e sub show ?thesis by (simp add: without_migrated_settings_def MIGRATED_SECTIONS_def Let_def)
    next
      case False
      then have "filter (\<lambda>kv. fst kv \<notin> set [''version_check'']) e = e" by (force simp: filter_id_conv keys_def)
      with e False sub show ?thesis by (auto simp: without_migrated_settings_def MIGRATED_SECTIONS_def Let_def split: if_splits)
    qed
    with e strip_makes_current show ?thesis by blast
  next
    case False
    with d have "d = []" by (auto simp: row_document_def split: option.splits if_splits json.splits)
    moreover have "current []" by (auto simp: current_def MIGRATED_SETTINGS_def keys_def get_def)
    ultimately show ?thesis by simp
  qed
qed

lemma migrate_holds:
  assumes "sound_checker ck" and "migrate_delta_to_document ck base db = Inr (db', d)" and "validated ck d = Inr c"
    and "snaps_ok db"
  shows "holds_config ck db' c \<and> snaps_ok db'"
proof -
  from assms(2) obtain f delta where f: "base = Some f" and delta: "row_document (cs_row db) = Inr delta"
    by (auto simp: migrate_delta_to_document_def bind_sum_Inr raising_def map_sum_Inr split: option.splits)
  note m = assms(2) [unfolded migrate_delta_to_document_def f raising_def delta, simplified]
  have whole: "d \<noteq> []" "''version_check'' \<notin> set (keys d)" "secret_at [] d = None" "ck_build ck d = Inr c"
    using assms(3) built_whole [OF assms(1), of d c] by (simp_all add: validated_Inr)
  show ?thesis
  proof (cases "mt_format (meta_of (cs_row db)) = Some STORE_FORMAT")
    case True
    with m have "db' = db" "d = delta" by simp_all
    with whole delta row_document_current [OF delta] True assms(4) show ?thesis
      by (simp add: holds_config_def whole_document_def)
  next
    case False
    with m obtain x where x: "merge_overrides f delta = Inr x" "d = without_migrated_settings False x"
      "db' = write_store d ((meta_of (cs_row db))\<lparr>mt_format := Some STORE_FORMAT\<rparr>) (capture_snapshot delta MIGRATE_REASON 1 db)"
      by (auto simp: bind_sum_Inr map_sum_Inr Let_def)
    have "current d" unfolding x(2) by (rule strip_makes_current)
    with whole have w: "whole_document ck d c" by (simp add: whole_document_def)
    have "row_document (cs_row db') = Inr d" unfolding x(3) write_store_def
      using whole_read [OF w] by simp
    with w x(3) capture_ok [OF assms(4), of delta MIGRATE_REASON 1] show ?thesis
      by (auto simp: holds_config_def write_store_def meta_of_def snaps_ok_def)
  qed
qed

lemma load_holds:
  assumes "sound_checker ck" and "load_effective_config ck file db db = Inr (db', c)" and "snaps_ok db"
  shows "holds_config ck db' c \<and> snaps_ok db'"
proof -
  from assms(2) obtain document where document: "row_document (cs_row db) = Inr document"
    by (auto simp: load_effective_config_def load_store_def store_contents_def bind_sum_Inr raising_def map_sum_Inr)
  note l = assms(2) [unfolded load_effective_config_def load_store_def store_contents_def raising_def document, simplified]
  show ?thesis
  proof (cases "document \<noteq> [] \<and> mt_format (meta_of (cs_row db)) = Some STORE_FORMAT")
    case True
    with l have "validated ck document = Inr c" "db' = db" by (auto simp: bind_sum_Inr)
    with True document row_document_current [OF document] assms(3) show ?thesis
      by (simp add: holds_config_def whole_document_def validated_Inr)
  next
    case other: False
    with l obtain base where base: "file = Inr base" by (auto simp: bind_sum_Inr map_sum_Inr split: if_splits)
    show ?thesis
    proof (cases "document = []")
      case False
      with l other base show ?thesis
        using migrate_holds [OF assms(1) _ _ assms(3)] by (auto simp: bind_sum_Inr split: if_splits)
    next
      case True
      with l base obtain f where f: "base = Some f" by (cases base) simp_all
      from l base f True obtain db1 seeded where seed: "seed_store f db = Inr (db1, seeded)"
        by (auto simp: bind_sum_Inr map_sum_Inr)
      note l' = l [unfolded base f True, simplified, unfolded seed, simplified]
      have ok1: "snaps_ok db1"
        using seed assms(3) by (auto simp: seed_store_def Let_def bind_sum_Inr write_store_def snaps_ok_def split: if_splits)
      show ?thesis
      proof (cases "seeded = []")
        case True
        with l' show ?thesis using migrate_holds [OF assms(1) _ _ ok1] by (auto simp: bind_sum_Inr)
      next
        case False
        with l' have v: "validated ck seeded = Inr c" "db' = db1" by (auto simp: bind_sum_Inr)
        from False seed document \<open>document = []\<close> have s: "seeded = without_migrated_settings False f"
          "db1 = write_store seeded (new_meta (restart_paths (meta_of (cs_row db)))) db"
          by (auto simp: seed_store_def Let_def bind_sum_Inr split: if_splits)
        have "current seeded" unfolding s(1) by (rule strip_makes_current)
        with v(1) False built_whole [OF assms(1), of seeded c] have w: "whole_document ck seeded c"
          by (simp add: whole_document_def validated_Inr)
        have "row_document (cs_row db') = Inr seeded" unfolding v(2) s(2) write_store_def
          using whole_read [OF w] by simp
        with w v(2) ok1 s(2) show ?thesis
          by (auto simp: holds_config_def write_store_def meta_of_def new_meta_def)
      qed
    qed
  qed
qed

lemma clear_restart:
  "row_document (cs_row (clear_restart_paths db db)) = row_document (cs_row db)"
  "mt_format (meta_of (cs_row (clear_restart_paths db db))) = mt_format (meta_of (cs_row db))"
  "restart_paths (meta_of (cs_row (clear_restart_paths db db))) = []"
  "cs_snaps (clear_restart_paths db db) = cs_snaps db" "cs_next (clear_restart_paths db db) = cs_next db"
proof -
  have none: "restart_paths no_meta = []" by (simp add: no_meta_def restart_paths_def)
  show "row_document (cs_row (clear_restart_paths db db)) = row_document (cs_row db)"
    "mt_format (meta_of (cs_row (clear_restart_paths db db))) = mt_format (meta_of (cs_row db))"
    "cs_snaps (clear_restart_paths db db) = cs_snaps db" "cs_next (clear_restart_paths db db) = cs_next db"
    by (auto simp: clear_restart_paths_def row_document_def meta_of_def split: option.split)
  show "restart_paths (meta_of (cs_row (clear_restart_paths db db))) = []"
    using none by (cases "cs_row db") (auto simp: clear_restart_paths_def meta_of_def no_meta_def split: option.split)
qed

subsection \<open>Reachable states\<close>

text \<open>
  What changes a running deployment: the four endpoints, whatever their unlocked reads saw and
  whichever file they read, and a restart of the process.
\<close>

inductive config_step :: "'c checker \<Rightarrow> 'c app \<Rightarrow> 'c app \<Rightarrow> bool" for ck where
  put: "put_config_overrides ck file seen body app = Inr (app', reply) \<Longrightarrow> config_step ck app app'"
| apply_doc: "apply_config_overrides ck file seen affects affected now body app jobs = Inr (app', jobs', reply) \<Longrightarrow> config_step ck app app'"
| restore: "restore_config_snapshot ck file seen i expected confirm app = Inr (app', reply) \<Longrightarrow> config_step ck app app'"
| import_doc: "import_config_overrides ck file seen format body app = Inr (app', reply) \<Longrightarrow> config_step ck app app'"
| import_file: "import_config_file ck file1 file seen expected expected_file confirm app = Inr (app', reply) \<Longrightarrow> config_step ck app app'"
| restart: "boot_config ck file (ap_db app) (ap_db app) fresh = Inr app' \<Longrightarrow> config_step ck app app'"

definition store_inv :: "'c checker \<Rightarrow> 'c app \<Rightarrow> bool" where
  "store_inv ck app \<longleftrightarrow> holds_config ck (ap_db app) (ap_config app) \<and> snaps_ok (ap_db app) \<and>
     filter (\<lambda>p. \<not> is_inert p) (restart_paths (meta_of (cs_row (ap_db app)))) =
       sort (remdups (restart_required ck (ap_booted app) (ap_config app)))"

lemma boot_inv:
  assumes "sound_checker ck" and "boot_config ck file db db fresh = Inr app'" and "snaps_ok db"
  shows "store_inv ck app'"
proof -
  from assms(2) obtain db' c where l: "load_effective_config ck file db db = Inr (db', c)"
    and app': "ap_config app' = c" "ap_booted app' = c" "ap_db app' = clear_restart_paths db' db'"
    by (auto simp: boot_config_def bind_sum_Inr swap_config_def Let_def)
  from load_holds [OF assms(1) l assms(3)] show ?thesis
    by (simp add: store_inv_def holds_config_def app' clear_restart snaps_ok_def restart_required_refl)
qed

lemma commit_inv:
  assumes "sound_checker ck" and "validated_generation ck file seen ce given = Inr (document, after, whole)"
    and "persist_and_swap ck document after whole expected confirm reason app = Inr (app', reply)" and "store_inv ck app"
  shows "store_inv ck app'"
proof -
  note g = generation_Inr [OF assms(2)]
  obtain stored m where p: "store_contents (cs_row (ap_db app)) = Inr (stored, m)" "mt_format m = Some STORE_FORMAT \<Longrightarrow> whole"
    "app' = commit_save ck document after whole reason stored m app" using persist_Inr [OF assms(3)] by metis
  from p(1) have "m = meta_of (cs_row (ap_db app))" by (auto simp: store_contents_def bind_sum_Inr)
  with assms(4) p(2) have whole by (simp add: store_inv_def holds_config_def)
  with g known_document [OF assms(1) g(1)] built_whole [OF assms(1)] have w: "whole_document ck document after"
    by (auto simp: whole_document_def)
  have "row_document (cs_row (ap_db app')) = Inr document" unfolding p(3) commit_save_simps by (rule whole_read [OF w]) simp
  moreover have "snaps_ok (ap_db app')"
    using capture_ok [of "ap_db app" stored reason "case mt_format m of None \<Rightarrow> 1 | Some f \<Rightarrow> f"] assms(4)
    by (simp add: p(3) snaps_ok_def store_inv_def)
  ultimately show ?thesis
    using w \<open>whole\<close> by (auto simp: store_inv_def holds_config_def p(3) meta_of_def restart_list)
qed

lemma save_as_inv:
  "sound_checker ck \<Longrightarrow> save_as reason ce ck file seen body app = Inr (app', reply) \<Longrightarrow> store_inv ck app \<Longrightarrow> store_inv ck app'"
  unfolding save_as_def bind_sum_Inr by (auto intro: commit_inv)

lemma config_step_inv: "config_step ck app app' \<Longrightarrow> sound_checker ck \<Longrightarrow> store_inv ck app \<Longrightarrow> store_inv ck app'"
proof (induction rule: config_step.induct)
  case (put mount seen body app app' reply)
  then show ?case by (auto simp: put_config_overrides_def intro: save_as_inv)
next
  case (apply_doc mount seen affects affected now body app jobs app' jobs' reply)
  then obtain saved where "save_as ''apply'' True ck mount seen body app = Inr (app', saved)"
    by (auto simp: apply_config_overrides_def bind_sum_Inr Let_def)
  with apply_doc(2,3) show ?case by (blast intro: save_as_inv)
next
  case (restore mount seen i expected confirm app app' reply)
  then obtain candidate ce body where "save_as ''restore'' ce ck mount seen body app = Inr (app', reply)"
    by (auto simp: restore_config_snapshot_def Let_def bind_sum_Inr split: option.splits if_splits)
  with restore(2,3) show ?case by (blast intro: save_as_inv)
next
  case (import_doc mount seen format body app app' reply)
  then show ?case by (auto simp: import_config_overrides_def split: if_splits intro: save_as_inv)
next
  case (import_file mount1 mount seen expected expected_file confirm app app' reply)
  then obtain body where "save_as ''import'' True ck mount seen body app = Inr (app', reply)"
    by (auto simp: import_config_file_def bind_sum_Inr split: option.splits if_splits)
  with import_file(2,3) show ?case by (blast intro: save_as_inv)
next
  case (restart mount app fresh app')
  then show ?case by (auto simp: store_inv_def [of ck app] intro: boot_inv)
qed

lemma reachable_inv: "(config_step ck)\<^sup>*\<^sup>* app app' \<Longrightarrow> sound_checker ck \<Longrightarrow> store_inv ck app \<Longrightarrow> store_inv ck app'"
  by (induction rule: rtranclp_induct) (auto intro: config_step_inv)

subsection \<open>A small deployment\<close>

definition demo :: "int checker" where
  "demo = \<lparr>ck_schema = [(''workers'', Opaque), (''notifications'', Model [(''url'', Opaque)])],
     ck_build = (\<lambda>d. if ''version_check'' \<in> set (keys d) then Inl [(''version_check'', ''moved'')]
       else (case get d ''workers'' of JInt n \<Rightarrow> Inr n | _ \<Rightarrow> Inl [(''workers'', ''Field required'')])),
     ck_dump = (\<lambda>n. [(''workers'', JInt n)]), ck_version = int_digits,
     ck_view = (\<lambda>n. \<lparr>cfg_global = (\<lambda>_ _. None), cfg_libraries = [], cfg_block = (\<lambda>_. None)\<rparr>),
     ck_digest = (\<lambda>v. case v of JObj d \<Rightarrow> (case get d ''workers'' of JInt n \<Rightarrow> int_digits n | _ \<Rightarrow> []) | _ \<Rightarrow> [])\<rparr>"

lemma without_leaf_other: "k \<noteq> p \<Longrightarrow> map_of (without_leaf d (p # ps)) k = map_of d k"
  by (cases ps) (auto simp: Let_def split: json.split)

lemma strip_other:
  assumes "k \<noteq> ''providers''" and "k \<noteq> ''artwork''"
  shows "map_of (without_migrated_settings False d) k = map_of d k"
proof -
  have "map_of (foldl drop_leaf e (filter P migrated_leaves)) k = map_of e k" for e P
  proof -
    have hd: "\<forall>ps \<in> set (filter P migrated_leaves). \<exists>p qs. ps = p # qs \<and> k \<noteq> p"
      using assms by (auto simp: MIGRATED_SETTINGS_def)
    have "map_of (foldl drop_leaf e ls) k = map_of e k" if "\<forall>ps \<in> set ls. \<exists>p qs. ps = p # qs \<and> k \<noteq> p" for ls
      using that by (induction ls arbitrary: e) (auto simp: drop_leaf_def without_leaf_other)
    with hd show ?thesis by blast
  qed
  then show ?thesis by (auto simp: without_migrated_settings_def Let_def)
qed

lemma demo_sound: "sound_checker demo"
proof -
  have "ck_build demo (without_migrated_settings False d) = ck_build demo d" for d
    using strip_other [of "''workers''" d] strip_other [of "''version_check''" d]
    by (simp add: demo_def in_keys get_def)
  moreover have "\<forall>ps \<in> set migrated_leaves. retired (ck_schema demo) ps"
    by (simp add: MIGRATED_SETTINGS_def demo_def)
  ultimately show ?thesis by (simp add: sound_checker_def demo_def get_def keys_def)
qed

definition empty_store :: store_db where
  "empty_store = \<lparr>cs_row = None, cs_snaps = [], cs_next = 1, cs_events = []\<rparr>"

definition fresh_app :: "int app" where
  "fresh_app = \<lparr>ap_db = empty_store, ap_config = 0, ap_booted = 0, ap_object = 0, ap_requests = []\<rparr>"

definition demo_file :: "string + payload option" where
  "demo_file = Inr (Some [(''workers'', JInt 2)])"


definition booted_app :: "int app" where
  "booted_app = projr (boot_config demo demo_file empty_store empty_store fresh_app)"

lemma booted_app: "boot_config demo demo_file empty_store empty_store fresh_app = Inr booted_app"
  by code_simp

definition save_five :: save_body where
  "save_five = \<lparr>sb_document = [(''workers'', JInt 5)], sb_expected = Some ''2'', sb_confirm = False\<rparr>"

definition saved_app :: "int app \<times> save_reply" where
  "saved_app = projr (put_config_overrides demo demo_file (\<lambda>_. ap_db booted_app) save_five booted_app)"

lemma saved_app: "put_config_overrides demo demo_file (\<lambda>_. ap_db booted_app) save_five booted_app = Inr saved_app"
  by code_simp


subsection \<open>The conversion of a delta\<close>


definition delta_store :: store_db where
  "delta_store = empty_store\<lparr>cs_row := Some \<lparr>cr_document = JObj [(''notifications'', JObj [(''url'', JStr ''u'')])],
     cr_meta = None\<rparr>\<rparr>"


subsection \<open>The guards of a save\<close>

lemma dropped_card: "length (dropped_paths stored document) =
    card (set (document_paths [] stored) - set (document_paths [] document))"
proof -
  have "set (dropped_paths stored document) = set (document_paths [] stored) - set (document_paths [] document)"
    by (auto simp: dropped_paths_def)
  moreover have "distinct (dropped_paths stored document)" by (simp add: dropped_paths_def)
  ultimately show ?thesis by (metis distinct_card)
qed

text \<open>
  C39: no save destroys what it was not composed from. A save that is answered with success and
  carries a revision was composed from the very document it displaces (up to the order of keys,
  when the hash has no collision); without a confirmation it drops at most three of the stored
  paths and never empties a store that holds any; the document it displaces, if it is not empty,
  is the newest snapshot, and at most the oldest of the others goes. The row holds the document
  the reply's revision names.
\<close>

theorem save_is_guarded:
  assumes "save_as reason ce ck file seen body app = Inr (app', reply)" and "snaps_ok (ap_db app)"
    and "row_document (cs_row (ap_db app)) = Inr stored"
  shows "\<exists>document. (\<exists>m. cs_row (ap_db app') = Some \<lparr>cr_document = JObj document, cr_meta = Some m\<rparr>) \<and>
    sv_revision reply = document_revision (ck_digest ck) document \<and>
    (\<forall>composed. sb_expected body = Some (document_revision (ck_digest ck) composed) \<and> inj (ck_digest ck) \<longrightarrow>
       sorted_keys (JObj composed) = sorted_keys (JObj stored)) \<and>
    (\<not> sb_confirm body \<and> document_paths [] stored \<noteq> [] \<longrightarrow>
       document \<noteq> [] \<and> card (set (document_paths [] stored) - set (document_paths [] document)) \<le> 3) \<and>
    (stored \<noteq> [] \<longrightarrow> sn_document (last (cs_snaps (ap_db app'))) = stored \<and>
       butlast (cs_snaps (ap_db app')) = drop (length (cs_snaps (ap_db app)) - 19) (cs_snaps (ap_db app)))"
proof -
  from assms(1) obtain document after whole where
    p: "persist_and_swap ck document after whole (sb_expected body) (sb_confirm body) reason app = Inr (app', reply)"
    by (auto simp: save_as_def bind_sum_Inr)
  obtain m where m: "sb_expected body = None \<or> sb_expected body = Some (document_revision (ck_digest ck) stored)"
    "sb_confirm body \<or> drop_refusal stored document = None"
    "app' = commit_save ck document after whole reason stored m app"
    using persist_Inr [OF p] assms(3) by (auto simp: store_contents_def bind_sum_Inr)
  have rev: "sv_revision reply = document_revision (ck_digest ck) document"
    using p by (auto simp: persist_and_swap_def bind_sum_Inr Let_def split: if_splits option.splits)
  have "sorted_keys (JObj composed) = sorted_keys (JObj stored)"
    if "sb_expected body = Some (document_revision (ck_digest ck) composed)" "inj (ck_digest ck)" for composed
    using that m(1) by (auto simp: document_revision_def dest: injD)
  moreover have "document \<noteq> [] \<and> card (set (document_paths [] stored) - set (document_paths [] document)) \<le> 3"
    if "\<not> sb_confirm body" "document_paths [] stored \<noteq> []"
    using that m(2) by (auto simp: drop_refusal_def Let_def dropped_card OVERRIDE_DROP_CAP_def split: if_splits)
  moreover have "sn_document (last (cs_snaps (ap_db app'))) = stored \<and>
      butlast (cs_snaps (ap_db app')) = drop (length (cs_snaps (ap_db app)) - 19) (cs_snaps (ap_db app))" if "stored \<noteq> []"
    using capture_snaps [OF assms(2) that] by (simp add: m(3) SNAPSHOT_RETENTION_def last_drop butlast_append)
  ultimately show ?thesis using rev m(3) by (auto simp del: sorted_keys.simps)
qed

theorem save_is_guarded_witness:
  "sn_document (last (cs_snaps (ap_db (fst saved_app)))) = [(''workers'', JInt 2)]"
proof -
  have "row_document (cs_row (ap_db booted_app)) = Inr [(''workers'', JInt 2)]" by code_simp
  moreover have "cs_snaps (ap_db booted_app) = []" by code_simp
  then have "snaps_ok (ap_db booted_app)" by (simp add: snaps_ok_def)
  moreover have "save_as ''save'' True demo demo_file (\<lambda>_. ap_db booted_app) save_five booted_app = Inr (fst saved_app, snd saved_app)"
    using saved_app by (simp add: put_config_overrides_def)
  ultimately show ?thesis using save_is_guarded by fastforce
qed

subsection \<open>The keep marker\<close>

abbreviation url_path :: string where
  "url_path \<equiv> ''notifications.url''"

lemma set_url: "set_path d url_path v = dict_set d (''notifications'',
    JObj (dict_set (case get d ''notifications'' of JObj e \<Rightarrow> e | _ \<Rightarrow> []) (''url'', v)))"
  by (simp add: set_path_def)

lemma read_url: "read_path d url_path = (case map_of d ''notifications'' of
    Some (JObj e) \<Rightarrow> map_of e ''url'' | _ \<Rightarrow> None)"
  by (auto simp: read_path_def split: option.split json.split)

text \<open>The URL is set and nothing else reads differently.\<close>

definition only_url_set :: "payload \<Rightarrow> json \<Rightarrow> payload \<Rightarrow> bool" where
  "only_url_set d v d' \<longleftrightarrow> read_path d' url_path = Some v \<and>
     (\<forall>k. k \<noteq> ''notifications'' \<longrightarrow> map_of d' k = map_of d k) \<and>
     (\<forall>k ps. k \<noteq> ''url'' \<longrightarrow> read_parts (JObj d') (''notifications'' # k # ps) = read_parts (JObj d) (''notifications'' # k # ps))"

lemma set_url_only: "only_url_set d v (set_path d url_path v)"
proof -
  have "read_parts (JObj (set_path d url_path v)) (''notifications'' # k # ps) = read_parts (JObj d) (''notifications'' # k # ps)"
    if "k \<noteq> ''url''" for k ps
  proof (cases "\<exists>e. map_of d ''notifications'' = Some (JObj e)")
    case True
    then obtain e where "map_of d ''notifications'' = Some (JObj e)" by blast
    moreover from this have "get d ''notifications'' = JObj e" by (rule get_map_of)
    ultimately show ?thesis using that by (simp add: set_url)
  next
    case False
    then have n: "get d ''notifications'' \<noteq> JObj e" for e by (simp add: get_JObj)
    then have "(case get d ''notifications'' of JObj e \<Rightarrow> e | _ \<Rightarrow> []) = []" by (auto split: json.split)
    moreover have "read_parts (JObj d) (''notifications'' # k # ps) = None"
      using False by (auto split: option.split json.split)
    ultimately show ?thesis using that by (simp add: set_url)
  qed
  then show ?thesis by (simp add: only_url_set_def read_url set_url)
qed

lemma only_url_again: "only_url_set d v d' \<Longrightarrow> only_url_set d v (set_path d' url_path v)"
  using set_url_only [of d' v] by (simp add: only_url_set_def)

lemma keep_stored_errors: "snd (keep_stored stored occs d es) = [] \<Longrightarrow> es = []"
  by (induction stored occs d es rule: keep_stored.induct) (auto split: if_splits option.splits)

lemma keep_stored_ok:
  "keep_stored stored occs d' es = (d'', []) \<Longrightarrow>
     (\<forall>oc \<in> set occs. oc = (url_path, True)) \<and> (occs = [] \<longrightarrow> d'' = d') \<and>
     (occs \<noteq> [] \<longrightarrow> (\<exists>v. read_path stored url_path = Some v \<and> only_url_set d' v d'' \<and>
        (\<forall>d. only_url_set d v d' \<longrightarrow> only_url_set d v d'')))"
proof (induction stored occs d' es rule: keep_stored.induct)
  case (2 stored path replaceable occs d' es)
  show ?case
  proof (cases "\<not> replaceable \<or> path \<notin> set REDACTED_PATHS")
    case True
    with 2(4) have "keep_stored stored occs d' (es @ [(path, KEEP_MISPLACED)]) = (d'', [])" by auto
    with keep_stored_errors [of stored occs d' "es @ [(path, KEEP_MISPLACED)]"] show ?thesis by simp
  next
    case False
    then have path: "path = url_path" "replaceable" by (simp_all add: REDACTED_PATHS_def)
    show ?thesis
    proof (cases "read_path stored path")
      case None
      with False 2(4) have "keep_stored stored occs d' (es @ [(path, NOTHING_TO_KEEP)]) = (d'', [])" by simp
      with keep_stored_errors [of stored occs d' "es @ [(path, NOTHING_TO_KEEP)]"] show ?thesis by simp
    next
      case (Some v)
      with False 2(4) have "keep_stored stored occs (set_path d' path v) es = (d'', [])" by simp
      note ih = 2(3) [OF False Some this]
      have here: "only_url_set d' v (set_path d' url_path v)" by (rule set_url_only)
      have later: "only_url_set d v (set_path d' url_path v)" if "only_url_set d v d'" for d
        using that by (rule only_url_again)
      from ih Some path here later show ?thesis by (cases "occs = []") auto
    qed
  qed
qed simp

text \<open>
  C40: the marker a page sends for a value it was not shown puts back exactly what is stored. A
  document without it is saved as it is. Otherwise every marker is the whole value at the
  redacted path (any other, one inside a list among them, is refused, and so is one with nothing
  stored to keep), the resolved document has the stored value there, and reads like the one sent
  everywhere else; so a truncated value never replaces the stored one.
\<close>

theorem keep_marker_keeps:
  assumes "resolve_keep_sentinels db given = Inr document"
  shows "sentinel_occurrences [] (JObj given) = [] \<and> document = given \<or>
    (\<forall>oc \<in> set (sentinel_occurrences [] (JObj given)). oc = (''notifications.url'', True)) \<and>
    (\<exists>stored v. load_overrides_document db = Inr stored \<and> read_path stored ''notifications.url'' = Some v \<and>
       only_url_set given v document)"
proof (cases "sentinel_occurrences [] (JObj given) = []")
  case True
  with assms show ?thesis by (simp add: resolve_keep_sentinels_def)
next
  case False
  with assms obtain stored where s: "load_overrides_document db = Inr stored"
    "keep_stored stored (sentinel_occurrences [] (JObj given)) given [] = (document, [])"
  proof -
    from False assms obtain stored where stored: "load_overrides_document db = Inr stored"
      by (cases "load_overrides_document db") (simp_all add: resolve_keep_sentinels_def Let_def unhandled_def)
    obtain resolved es where k: "keep_stored stored (sentinel_occurrences [] (JObj given)) given [] = (resolved, es)" by fastforce
    from False assms stored k have "es = [] \<and> resolved = document"
      by (simp add: resolve_keep_sentinels_def Let_def unhandled_def split: if_split_asm)
    with that stored k show thesis by blast
  qed
  from keep_stored_ok [OF s(2)] False s(1) show ?thesis by blast
qed

definition marked :: payload where
  "marked = [(''workers'', JInt 3), (''notifications'', JObj [(''url'', JStr ''***KEEP***'')])]"

theorem keep_marker_keeps_witness:
  "resolve_keep_sentinels delta_store marked = Inr [(''workers'', JInt 3), (''notifications'', JObj [(''url'', JStr ''u'')])] \<and>
   sentinel_occurrences [] (JObj marked) = [(''notifications.url'', True)]"
proof
  show occ: "sentinel_occurrences [] (JObj marked) = [(''notifications.url'', True)]"
    by (simp add: sentinel_occurrences.simps marked_def KEEP_SENTINEL_def dotted_def)
  have r: "resolve_keep_sentinels delta_store marked = Inr (set_path marked url_path (JStr ''u''))"
    using occ by (simp add: resolve_keep_sentinels_def load_overrides_document_def load_store_def store_contents_def
        unhandled_def delta_store_def row_document_def REDACTED_PATHS_def read_url
        without_migrated_settings_def MIGRATED_SECTIONS_def MIGRATED_SETTINGS_def keys_def get_def held_step)
  from keep_marker_keeps [OF this] occ have "read_path (set_path marked url_path (JStr ''u'')) url_path \<noteq> None"
    by (auto simp: only_url_set_def)
  with r show "resolve_keep_sentinels delta_store marked = Inr [(''workers'', JInt 3), (''notifications'', JObj [(''url'', JStr ''u'')])]"
    by (simp add: set_url marked_def dict_set_def get_def)
qed

end
