(* ===== verification/Clusters.thy ===== *)
theory Clusters
  imports Prelude
begin

text \<open>
  The union-find of \<open>scheduler/merge.py _identity_clusters\<close>, over rows of any type with a list of
  keys each: the parent pointers with path halving, the union that keeps the smaller root, the
  first row seen for each key, and the groups in the order of their first row. A loop that did
  not end would be \<open>None\<close>; \<open>clusters_exact\<close> shows that it ends, and that the groups are the
  classes of the rows that share a key, directly or through others.
\<close>

subsection \<open>The code\<close>

partial_function (option) find_root :: "nat list \<Rightarrow> nat \<Rightarrow> (nat list \<times> nat) option" where
  "find_root parent index =
     (if parent ! index = index then Some (parent, index)
      else find_root (parent[index := parent ! (parent ! index)]) (parent ! (parent ! index)))"

definition unite :: "nat \<Rightarrow> nat \<Rightarrow> nat list \<Rightarrow> nat list option" where
  "unite one other parent =
     Option.bind (find_root parent one) (\<lambda>(parent1, root_one).
     Option.bind (find_root parent1 other) (\<lambda>(parent2, root_other).
       Some (if root_one \<noteq> root_other
             then parent2[max root_one root_other := min root_one root_other] else parent2)))"

fun link_keys :: "nat \<Rightarrow> 'k list \<Rightarrow> nat list \<Rightarrow> ('k \<rightharpoonup> nat) \<Rightarrow> (nat list \<times> ('k \<rightharpoonup> nat)) option" where
  "link_keys index [] parent seen = Some (parent, seen)"
| "link_keys index (key # ks) parent seen = (case seen key of
     None \<Rightarrow> link_keys index ks parent (seen(key \<mapsto> index))
   | Some other \<Rightarrow> Option.bind (unite other index parent) (\<lambda>parent'. link_keys index ks parent' seen))"

fun link_rows :: "('r \<Rightarrow> 'k list) \<Rightarrow> nat \<Rightarrow> 'r list \<Rightarrow> nat list \<Rightarrow> ('k \<rightharpoonup> nat) \<Rightarrow> (nat list \<times> ('k \<rightharpoonup> nat)) option" where
  "link_rows keys_of index [] parent seen = Some (parent, seen)"
| "link_rows keys_of index (r # rs) parent seen =
     Option.bind (link_keys index (keys_of r) parent seen) (\<lambda>(parent', seen').
       link_rows keys_of (Suc index) rs parent' seen')"

text \<open>\<open>grouped.setdefault(root, []).append(row)\<close>.\<close>

definition append_to :: "nat \<Rightarrow> 'r \<Rightarrow> (nat \<times> 'r list) list \<Rightarrow> (nat \<times> 'r list) list" where
  "append_to k r d = (if k \<in> fst ` set d then map (\<lambda>(j, rs). (j, if j = k then rs @ [r] else rs)) d
     else d @ [(k, [r])])"

fun group_rows :: "nat \<Rightarrow> 'r list \<Rightarrow> nat list \<Rightarrow> (nat \<times> 'r list) list \<Rightarrow> (nat \<times> 'r list) list option" where
  "group_rows index [] parent grouped = Some grouped"
| "group_rows index (r # rs) parent grouped =
     Option.bind (find_root parent index) (\<lambda>(parent', root).
       group_rows (Suc index) rs parent' (append_to root r grouped))"

definition clusters :: "('r \<Rightarrow> 'k list) \<Rightarrow> 'r list \<Rightarrow> 'r list list option" where
  "clusters keys_of rows =
     Option.bind (link_rows keys_of 0 rows [0..<length rows] Map.empty) (\<lambda>(parent, seen).
     Option.bind (group_rows 0 rows parent []) (\<lambda>grouped.
       Some (filter (\<lambda>members. 1 < length members) (map snd grouped))))"

subsection \<open>Roots\<close>

definition shrinking :: "nat list \<Rightarrow> bool" where
  "shrinking parent \<longleftrightarrow> (\<forall>i < length parent. parent ! i \<le> i)"

function rep :: "nat list \<Rightarrow> nat \<Rightarrow> nat" where
  "rep parent i = (if i < length parent \<and> parent ! i < i then rep parent (parent ! i) else i)"
  by pat_completeness auto
termination
  by (relation "measure snd") auto

declare rep.simps [simp del]

lemma rep_le: "rep parent i \<le> i"
  by (induction parent i rule: rep.induct) (subst rep.simps, auto dest: order.strict_implies_order order.trans)

lemma rep_is_root: "shrinking parent \<Longrightarrow> i < length parent \<Longrightarrow> parent ! rep parent i = rep parent i"
proof (induction parent i rule: rep.induct)
  case (1 parent i)
  then show ?case
    by (subst (1 2) rep.simps) (auto simp: shrinking_def dest: le_neq_implies_less)
qed

lemma rep_of_root: "parent ! i = i \<Longrightarrow> rep parent i = i"
  by (simp add: rep.simps)

lemma rep_step: "shrinking parent \<Longrightarrow> i < length parent \<Longrightarrow> rep parent (parent ! i) = rep parent i"
  by (cases "parent ! i = i") (auto simp: shrinking_def rep.simps [of parent i])

lemma rep_halved:
  assumes "shrinking parent" and "i < length parent" and "v < i" and "rep parent v = rep parent i"
  shows "rep (parent[i := v]) j = rep parent j"
proof (induction j rule: less_induct)
  case (less j)
  show ?case
  proof (cases "j = i")
    case True
    with less [of v] assms show ?thesis by (simp add: rep.simps [of _ i])
  next
    case False
    with less [of "parent ! j"] show ?thesis by (simp add: rep.simps [of _ j])
  qed
qed

lemma shrinking_update: "shrinking parent \<Longrightarrow> v \<le> i \<Longrightarrow> shrinking (parent[i := v])"
  by (cases "i < length parent") (auto simp: shrinking_def nth_list_update)

lemma find_root_spec:
  assumes "shrinking parent" and "i < length parent"
  shows "\<exists>parent'. find_root parent i = Some (parent', rep parent i) \<and> shrinking parent' \<and>
    length parent' = length parent \<and> (\<forall>j. rep parent' j = rep parent j)"
  using assms
proof (induction i arbitrary: parent rule: less_induct)
  case (less i)
  let ?p = "parent ! i" and ?v = "parent ! (parent ! i)"
  show ?case
  proof (cases "?p = i")
    case True
    then show ?thesis using less.prems by (subst find_root.simps) (auto simp: rep_of_root)
  next
    case False
    then have p: "?p < i" using less.prems by (auto simp: shrinking_def le_neq_implies_less)
    then have "?p < length parent" using less.prems(2) by (rule less_trans)
    then have "?v \<le> ?p" using less.prems(1) by (auto simp: shrinking_def)
    with p have v: "?v < i" by simp
    have same: "rep parent ?v = rep parent i"
      using less.prems \<open>?p < length parent\<close> by (simp add: rep_step)
    let ?next = "parent[i := ?v]"
    have "shrinking ?next" "rep ?next j = rep parent j" for j
      using less.prems v same by (auto intro: shrinking_update rep_halved)
    then show ?thesis
      using less.IH [OF v(1), of ?next] less.prems v same False by (subst find_root.simps) auto
  qed
qed

lemma rep_joined:
  assumes "shrinking parent" and "a < length parent" and "b < a" and "parent ! a = a" and "parent ! b = b"
  shows "rep (parent[a := b]) j = (if rep parent j = a then b else rep parent j)"
proof (induction j rule: less_induct)
  case (less j)
  show ?case
  proof (cases "j = a")
    case True
    with assms show ?thesis by (simp add: rep.simps [of "_[a := _]" a] rep.simps [of "_[a := _]" b] rep_of_root)
  next
    case False
    with less [of "parent ! j"] show ?thesis by (simp add: rep.simps [of _ j])
  qed
qed

lemma unite_spec:
  assumes "shrinking parent" and "i < length parent" and "j < length parent"
  defines "r \<equiv> rep parent i" and "q \<equiv> rep parent j"
  shows "\<exists>parent'. unite i j parent = Some parent' \<and> shrinking parent' \<and> length parent' = length parent \<and>
    (\<forall>k. rep parent' k = (if rep parent k = max r q then min r q else rep parent k))"
proof -
  obtain p1 where p1: "find_root parent i = Some (p1, r)" "shrinking p1" "length p1 = length parent"
    "\<And>k. rep p1 k = rep parent k"
    using find_root_spec [OF assms(1,2)] by (auto simp: r_def)
  obtain p2 where p2: "find_root p1 j = Some (p2, q)" "shrinking p2" "length p2 = length parent"
    "\<And>k. rep p2 k = rep parent k"
    using find_root_spec [OF p1(2), of j] assms(3) p1 by (auto simp: q_def)
  have u: "unite i j parent = Some (if r \<noteq> q then p2[max r q := min r q] else p2)"
    using p1(1) p2(1) by (simp add: unite_def)
  have "p2 ! r = r" "p2 ! q = q" "r < length parent" "q < length parent"
    using rep_is_root [OF p2(2), of i] rep_is_root [OF p2(2), of j] p2 assms rep_le [of parent i] rep_le [of parent j]
    by (auto simp: r_def q_def)
  then have "rep (p2[max r q := min r q]) k = (if rep parent k = max r q then min r q else rep parent k)" if "r \<noteq> q" for k
    using that p2 rep_joined [of p2 "max r q" "min r q" k] by (auto simp: max_def min_def split: if_splits)
  moreover have "shrinking (p2[max r q := min r q])" using p2(2) by (rule shrinking_update) simp
  ultimately show ?thesis using u p2 by (cases "r = q") auto
qed

subsection \<open>Linking\<close>

definition linked :: "(nat \<times> 'k) set \<Rightarrow> (nat \<times> nat) set" where
  "linked D = {(a, b). \<exists>k. (a, k) \<in> D \<and> (b, k) \<in> D}"

text \<open>What the pointers and the first rows say of the pairs of a row and a key seen so far.\<close>

definition links :: "(nat \<times> 'k) set \<Rightarrow> nat \<Rightarrow> nat list \<Rightarrow> ('k \<rightharpoonup> nat) \<Rightarrow> bool" where
  "links D n parent seen \<longleftrightarrow> shrinking parent \<and> length parent = n \<and> (\<forall>(i, k) \<in> D. i < n) \<and>
     (\<forall>k i. seen k = Some i \<longrightarrow> (i, k) \<in> D) \<and>
     (\<forall>(i, k) \<in> D. \<exists>j. seen k = Some j \<and> rep parent i = rep parent j) \<and>
     (\<forall>i j. rep parent i = rep parent j \<longrightarrow> (i, j) \<in> (linked D)\<^sup>*)"

lemma linked_sym: "(a, b) \<in> (linked D)\<^sup>* \<Longrightarrow> (b, a) \<in> (linked D)\<^sup>*"
proof -
  have "sym (linked D)" by (auto simp: sym_def linked_def)
  then show "(a, b) \<in> (linked D)\<^sup>* \<Longrightarrow> (b, a) \<in> (linked D)\<^sup>*" by (metis sym_rtrancl symD)
qed

lemma linked_mono: "D \<subseteq> E \<Longrightarrow> (linked D)\<^sup>* \<subseteq> (linked E)\<^sup>*"
  by (rule rtrancl_mono) (auto simp: linked_def)

lemma links_new:
  assumes "links D n parent seen" and "index < n" and "seen key = None"
  shows "links (insert (index, key) D) n parent (seen(key \<mapsto> index))"
proof -
  have "(i, key) \<notin> D" for i using assms unfolding links_def by fastforce
  then have "\<forall>(i, k) \<in> insert (index, key) D. \<exists>j. (seen(key \<mapsto> index)) k = Some j \<and> rep parent i = rep parent j"
    using assms(1) unfolding links_def by fastforce
  moreover have "(linked D)\<^sup>* \<subseteq> (linked (insert (index, key) D))\<^sup>*" by (rule linked_mono) auto
  ultimately show ?thesis using assms(1,2) unfolding links_def by auto
qed

lemma links_unite:
  assumes "links D n parent seen" and "index < n" and "seen key = Some other"
  shows "\<exists>parent'. unite other index parent = Some parent' \<and> links (insert (index, key) D) n parent' seen"
proof -
  let ?E = "insert (index, key) D" and ?r = "rep parent other" and ?q = "rep parent index"
  have other: "(other, key) \<in> D" "other < n" using assms unfolding links_def by auto
  obtain parent' where p: "unite other index parent = Some parent'" "shrinking parent'" "length parent' = n"
      "\<And>k. rep parent' k = (if rep parent k = max ?r ?q then min ?r ?q else rep parent k)"
    using unite_spec [of parent other index] assms other unfolding links_def by auto
  have keep: "rep parent i = rep parent j \<Longrightarrow> rep parent' i = rep parent' j" for i j by (simp add: p(4))
  have joined: "rep parent' index = rep parent' other" by (auto simp: p(4) max_def min_def)
  have old: "(i, j) \<in> (linked ?E)\<^sup>*" if "rep parent i = rep parent j" for i j
    using that assms(1) linked_mono [of D ?E] unfolding links_def by blast
  have link: "(other, index) \<in> (linked ?E)\<^sup>*" using other by (auto simp: linked_def)
  have "(i, j) \<in> (linked ?E)\<^sup>*" if eq: "rep parent' i = rep parent' j" for i j
  proof -
    have near: "rep parent k \<in> {?r, ?q} \<Longrightarrow> (k, other) \<in> (linked ?E)\<^sup>*" for k
      using old [of k other] old [of k index] linked_sym [OF link] by (auto intro: rtrancl_trans)
    have "rep parent i = rep parent j \<or> rep parent i \<in> {?r, ?q} \<and> rep parent j \<in> {?r, ?q}"
      using eq by (auto simp: p(4) max_def min_def split: if_splits)
    then show ?thesis
      using old [of i j] near [of i] linked_sym [OF near [of j]] by (auto intro: rtrancl_trans)
  qed
  moreover have "\<exists>j. seen k = Some j \<and> rep parent' i = rep parent' j" if "(i, k) \<in> ?E" for i k
  proof (cases "(i, k) \<in> D")
    case True
    then obtain j where "seen k = Some j" "rep parent i = rep parent j" using assms(1) unfolding links_def by blast
    with keep show ?thesis by blast
  next
    case False
    with that have "i = index" "k = key" by simp_all
    with assms(3) joined show ?thesis by simp
  qed
  moreover have "\<forall>(i, k) \<in> ?E. i < n" "\<forall>k i. seen k = Some i \<longrightarrow> (i, k) \<in> ?E"
    using assms(1,2) unfolding links_def by auto
  ultimately have "links ?E n parent' seen" unfolding links_def using p(2,3) by (intro conjI) blast+
  with p(1) show ?thesis by blast
qed

lemma link_keys_spec:
  "links D n parent seen \<Longrightarrow> index < n \<Longrightarrow>
   \<exists>parent' seen'. link_keys index ks parent seen = Some (parent', seen') \<and> links (D \<union> {index} \<times> set ks) n parent' seen'"
proof (induction ks arbitrary: D parent seen)
  case (Cons key ks)
  have set: "D \<union> {index} \<times> set (key # ks) = insert (index, key) D \<union> {index} \<times> set ks" by auto
  show ?case
  proof (cases "seen key")
    case None
    with Cons.IH [OF links_new [OF Cons.prems None] Cons.prems(2)] show ?thesis by (simp add: set fun_upd_def)
  next
    case (Some other)
    with links_unite [OF Cons.prems Some] Cons.IH Cons.prems(2) show ?thesis by (fastforce simp: set)
  qed
qed simp

lemma link_rows_spec:
  "links D n parent seen \<Longrightarrow> index + length rows = n \<Longrightarrow>
   \<exists>parent' seen'. link_rows keys_of index rows parent seen = Some (parent', seen') \<and>
     links (D \<union> {(index + i, k) |i k. i < length rows \<and> k \<in> set (keys_of (rows ! i))}) n parent' seen'"
proof (induction rows arbitrary: D parent seen index)
  case (Cons r rs)
  have "{(index + i, k) |i k. i < length (r # rs) \<and> k \<in> set (keys_of ((r # rs) ! i))} =
      {index} \<times> set (keys_of r) \<union> {(Suc index + i, k) |i k. i < length rs \<and> k \<in> set (keys_of (rs ! i))}" (is "?L = ?R")
  proof
    show "?L \<subseteq> ?R" by (auto simp: nth_Cons split: nat.splits) (metis Suc_pred' not0_implies_Suc old.nat.exhaust)+
    show "?R \<subseteq> ?L" by force
  qed
  then have set: "D \<union> ?L = (D \<union> {index} \<times> set (keys_of r)) \<union>
      {(Suc index + i, k) |i k. i < length rs \<and> k \<in> set (keys_of (rs ! i))}" by (simp only: Un_assoc)
  have "index < n" using Cons.prems(2) by simp
  from link_keys_spec [OF Cons.prems(1) this, of "keys_of r"] obtain parent1 seen1 where
    1: "link_keys index (keys_of r) parent seen = Some (parent1, seen1)" "links (D \<union> {index} \<times> set (keys_of r)) n parent1 seen1"
    by blast
  from Cons.IH [OF 1(2), of "Suc index"] Cons.prems(2) 1(1) show ?case unfolding set by simp
qed simp

subsection \<open>Grouping\<close>

definition grouped_to :: "'r list \<Rightarrow> nat list \<Rightarrow> nat \<Rightarrow> (nat \<times> 'r list) list \<Rightarrow> bool" where
  "grouped_to rows parent m d \<longleftrightarrow> distinct (map fst d) \<and> fst ` set d = rep parent ` {..<m} \<and>
     (\<forall>(r, members) \<in> set d. members = map ((!) rows) (filter (\<lambda>i. rep parent i = r) [0..<m]))"

lemma grouped_to_append:
  assumes "grouped_to rows parent m d"
  shows "grouped_to rows parent (Suc m) (append_to (rep parent m) (rows ! m) d)"
proof (cases "rep parent m \<in> fst ` set d")
  case True
  let ?d = "map (\<lambda>(j, rs). (j, if j = rep parent m then rs @ [rows ! m] else rs)) d"
  have "map fst ?d = map fst d" by (induction d) auto
  then have fst_d: "fst ` set ?d = fst ` set d" "distinct (map fst ?d) = distinct (map fst d)" by (metis list.set_map, simp only:)
  have d: "fst ` set d = rep parent ` {..<m}" "distinct (map fst d)" using assms by (simp_all add: grouped_to_def)
  have "distinct (map fst ?d)" "fst ` set ?d = rep parent ` {..<Suc m}"
    using True by (simp_all only: fst_d d lessThan_Suc image_insert insert_absorb)
  moreover have "\<forall>(r, members) \<in> set ?d. members = map ((!) rows) (filter (\<lambda>i. rep parent i = r) [0..<Suc m])"
    using assms by (auto simp: grouped_to_def)
  ultimately show ?thesis using True by (simp only: grouped_to_def append_to_def if_True)
next
  case False
  then have "rep parent i \<noteq> rep parent m" if "i < m" for i
    using assms that by (metis grouped_to_def imageI lessThan_iff)
  then have "filter (\<lambda>i. rep parent i = rep parent m) [0..<m] = []" by (simp add: filter_empty_conv)
  moreover have "c = map ((!) rows) (filter (\<lambda>i. rep parent i = r) [0..<m]) \<and> r \<noteq> rep parent m" if "(r, c) \<in> set d" for r c
  proof
    show "c = map ((!) rows) (filter (\<lambda>i. rep parent i = r) [0..<m])" using assms that unfolding grouped_to_def by blast
    show "r \<noteq> rep parent m" using False that by force
  qed
  moreover have "distinct (map fst d)" "fst ` set d = rep parent ` {..<m}" using assms by (simp_all add: grouped_to_def)
  ultimately show ?thesis using False by (simp add: grouped_to_def append_to_def lessThan_Suc) fastforce
qed

lemma grouped_to_cong: "\<forall>j. rep parent' j = rep parent j \<Longrightarrow> grouped_to rows parent' m d = grouped_to rows parent m d"
  by (simp add: grouped_to_def)

lemma group_rows_spec:
  "shrinking parent \<Longrightarrow> length parent = length rows \<Longrightarrow> index + length rs = length rows \<Longrightarrow> rs = drop index rows \<Longrightarrow>
   grouped_to rows parent index d \<Longrightarrow>
   \<exists>d'. group_rows index rs parent d = Some d' \<and> grouped_to rows parent (length rows) d'"
proof (induction rs arbitrary: index parent d)
  case (Cons r rs)
  from Cons.prems(2,3) have index: "index < length parent" by simp
  from Cons.prems(4) have r: "r = rows ! index" "rs = drop (Suc index) rows"
    by (metis hd_drop_conv_nth list.sel(1) list.distinct(1) drop_all not_less, metis drop_Suc list.sel(3) tl_drop)
  obtain parent' where p: "find_root parent index = Some (parent', rep parent index)" "shrinking parent'"
    "length parent' = length parent" "\<forall>j. rep parent' j = rep parent j"
    using find_root_spec [OF Cons.prems(1) index] by blast
  have "grouped_to rows parent' (Suc index) (append_to (rep parent index) (rows ! index) d)"
    using grouped_to_append [OF Cons.prems(5)] grouped_to_cong [OF p(4)] by blast
  then obtain d' where "group_rows (Suc index) rs parent' (append_to (rep parent index) (rows ! index) d) = Some d'"
    "grouped_to rows parent' (length rows) d'"
    using Cons.IH [OF p(2) _ _ r(2)] Cons.prems(2,3) p(3) by auto
  then show ?case using p(1) r(1) grouped_to_cong [OF p(4), of rows] by simp
qed auto

subsection \<open>The classes\<close>

definition share :: "('r \<Rightarrow> 'k list) \<Rightarrow> 'r list \<Rightarrow> ('r \<times> 'r) set" where
  "share keys_of rows = {(a, b). a \<in> set rows \<and> b \<in> set rows \<and> set (keys_of a) \<inter> set (keys_of b) \<noteq> {}}"

abbreviation keyed :: "('r \<Rightarrow> 'k list) \<Rightarrow> 'r list \<Rightarrow> (nat \<times> 'k) set" where
  "keyed keys_of rows \<equiv> {(i, k). i < length rows \<and> k \<in> set (keys_of (rows ! i))}"

lemma share_sym: "(a, b) \<in> (share keys_of rows)\<^sup>* \<Longrightarrow> (b, a) \<in> (share keys_of rows)\<^sup>*"
proof -
  have "sym (share keys_of rows)" by (auto simp: sym_def share_def)
  then show "(a, b) \<in> (share keys_of rows)\<^sup>* \<Longrightarrow> (b, a) \<in> (share keys_of rows)\<^sup>*" by (metis sym_rtrancl symD)
qed

lemma linked_share:
  assumes "distinct rows" and "i < length rows" and "j < length rows"
  shows "(i, j) \<in> (linked (keyed keys_of rows))\<^sup>* \<longleftrightarrow> (rows ! i, rows ! j) \<in> (share keys_of rows)\<^sup>*"
proof
  assume "(i, j) \<in> (linked (keyed keys_of rows))\<^sup>*"
  then show "(rows ! i, rows ! j) \<in> (share keys_of rows)\<^sup>*"
  proof (induction rule: rtrancl_induct)
    case (step a b)
    from step(2) have "(rows ! a, rows ! b) \<in> share keys_of rows" by (auto simp: linked_def share_def)
    with step(3) show ?case by simp
  qed simp
next
  assume "(rows ! i, rows ! j) \<in> (share keys_of rows)\<^sup>*"
  then have "\<forall>y < length rows. rows ! y = rows ! j \<longrightarrow> (i, y) \<in> (linked (keyed keys_of rows))\<^sup>*"
  proof (induction rule: rtrancl_induct)
    case base
    then show ?case using assms by (auto simp: nth_eq_iff_index_eq)
  next
    case (step a b)
    from step(2) obtain x where x: "x < length rows" "rows ! x = a" by (auto simp: share_def in_set_conv_nth)
    have "(i, x) \<in> (linked (keyed keys_of rows))\<^sup>*" using step(3) x by blast
    show ?case
    proof (intro allI impI)
      fix y assume "y < length rows" "rows ! y = b"
      then have "(x, y) \<in> linked (keyed keys_of rows)" using step(2) x by (auto simp: linked_def share_def)
      with \<open>(i, x) \<in> _\<close> show "(i, y) \<in> (linked (keyed keys_of rows))\<^sup>*" by (rule rtrancl_into_rtrancl)
    qed
  qed
  then show "(i, j) \<in> (linked (keyed keys_of rows))\<^sup>*" using assms(3) by blast
qed

lemma members_filter:
  assumes "\<And>i. i < length rows \<Longrightarrow> P i \<longleftrightarrow> Q (rows ! i)"
  shows "map ((!) rows) (filter P [0..<length rows]) = filter Q rows"
proof -
  have "filter Q rows = filter Q (map ((!) rows) [0..<length rows])" by (simp add: map_nth)
  also have "\<dots> = map ((!) rows) (filter (\<lambda>i. Q (rows ! i)) [0..<length rows])" by (simp add: filter_map o_def)
  also have "filter (\<lambda>i. Q (rows ! i)) [0..<length rows] = filter P [0..<length rows]"
    using assms by (intro filter_cong) auto
  finally show ?thesis by simp
qed

lemma clusters_exact:
  assumes "distinct rows"
  obtains cs where "clusters keys_of rows = Some cs" and "distinct cs"
    and "set cs = {c. 1 < length c \<and> (\<exists>a \<in> set rows. c = filter (\<lambda>b. (a, b) \<in> (share keys_of rows)\<^sup>*) rows)}"
proof -
  let ?n = "length rows" and ?S = "(share keys_of rows)\<^sup>*"
  have start: "links {} ?n [0..<?n] (Map.empty :: 'b \<rightharpoonup> nat)"
  proof -
    have "rep [0..<?n] i = i" for i by (simp add: rep.simps)
    then show ?thesis by (auto simp: links_def shrinking_def)
  qed
  obtain parent seen where l: "link_rows keys_of 0 rows [0..<?n] Map.empty = Some (parent, seen)"
    "links (keyed keys_of rows) ?n parent seen"
    using link_rows_spec [OF start, of 0 rows keys_of] by auto
  have root: "rep parent i = rep parent j \<longleftrightarrow> (rows ! i, rows ! j) \<in> ?S" if "i < ?n" "j < ?n" for i j
  proof -
    have key: "(a, k) \<in> keyed keys_of rows \<Longrightarrow> \<exists>j. seen k = Some j \<and> rep parent a = rep parent j" for a k
      using l(2) unfolding links_def by blast
    have same: "rep parent a = rep parent b" if ab: "(a, b) \<in> linked (keyed keys_of rows)" for a b
    proof -
      from ab obtain k where "(a, k) \<in> keyed keys_of rows" "(b, k) \<in> keyed keys_of rows" unfolding linked_def by blast
      from key [OF this(1)] key [OF this(2)] show ?thesis by auto
    qed
    have "rep parent a = rep parent b" if "(a, b) \<in> (linked (keyed keys_of rows))\<^sup>*" for a b
      using that by (induction rule: rtrancl_induct) (auto dest: same)
    moreover have "rep parent i = rep parent j \<Longrightarrow> (i, j) \<in> (linked (keyed keys_of rows))\<^sup>*"
      using l(2) unfolding links_def by blast
    ultimately show ?thesis using linked_share [OF assms that] by blast
  qed
  have "shrinking parent" "length parent = ?n" using l(2) unfolding links_def by blast+
  moreover have "grouped_to rows parent 0 []" by (simp add: grouped_to_def)
  ultimately obtain d where d: "group_rows 0 rows parent [] = Some d" "grouped_to rows parent ?n d"
    using group_rows_spec [of parent rows 0 rows "[]"] by auto
  have group: "members = filter (\<lambda>b. (rows ! i, b) \<in> ?S) rows" if "(rep parent i, members) \<in> set d" "i < ?n" for i members
  proof -
    have "members = map ((!) rows) (filter (\<lambda>j. rep parent j = rep parent i) [0..<?n])"
      using d(2) that(1) by (auto simp: grouped_to_def)
    also have "\<dots> = filter (\<lambda>b. (rows ! i, b) \<in> ?S) rows"
    proof (rule members_filter)
      show "(rep parent j = rep parent i) = ((rows ! i, rows ! j) \<in> ?S)" if "j < ?n" for j
        using root [OF \<open>i < ?n\<close> that] by auto
    qed
    finally show ?thesis .
  qed
  have fst_d: "fst ` set d = rep parent ` {..<?n}" using d(2) by (simp add: grouped_to_def)
  have members: "set (map snd d) = {c. \<exists>a \<in> set rows. c = filter (\<lambda>b. (a, b) \<in> ?S) rows}"
  proof (intro set_eqI iffI)
    fix c assume "c \<in> set (map snd d)"
    then obtain r where r: "(r, c) \<in> set d" by auto
    then have "r \<in> rep parent ` {..<?n}" using fst_d by (force simp flip: fst_d)
    then obtain i where "i < ?n" "r = rep parent i" by auto
    with group [of i c] r nth_mem [of i rows] show "c \<in> {c. \<exists>a \<in> set rows. c = filter (\<lambda>b. (a, b) \<in> ?S) rows}" by auto
  next
    fix c assume "c \<in> {c. \<exists>a \<in> set rows. c = filter (\<lambda>b. (a, b) \<in> ?S) rows}"
    then obtain i where i: "i < ?n" "c = filter (\<lambda>b. (rows ! i, b) \<in> ?S) rows" by (auto simp: in_set_conv_nth)
    have "rep parent i \<in> fst ` set d" using fst_d i(1) by simp
    then obtain members where "(rep parent i, members) \<in> set d"  by auto
    with group i show "c \<in> set (map snd d)" by force
  qed
  have "inj_on snd (set d)"
  proof (rule inj_onI)
    fix x y assume x: "x \<in> set d" and y: "y \<in> set d" and eq: "snd x = snd y"
    have "fst x \<in> rep parent ` {..<?n}" "fst y \<in> rep parent ` {..<?n}" using x y by (auto simp flip: fst_d)
    then obtain i j where i: "i < ?n" "fst x = rep parent i" and j: "j < ?n" "fst y = rep parent j" by auto
    have cx: "snd x = filter (\<lambda>b. (rows ! i, b) \<in> ?S) rows" using group [of i "snd x"] x i by (metis prod.collapse)
    have cy: "snd y = filter (\<lambda>b. (rows ! j, b) \<in> ?S) rows" using group [of j "snd y"] y j by (metis prod.collapse)
    have "rows ! i \<in> set (snd x)" using i(1) by (simp add: cx)
    then have "(rows ! j, rows ! i) \<in> ?S" using eq cy by simp
    then have "fst x = fst y" using root [OF j(1) i(1)] i j by simp
    with eq show "x = y" by (simp add: prod_eq_iff)
  qed
  moreover have "distinct d" using d(2) by (simp add: grouped_to_def distinct_map)
  ultimately have "distinct (map snd d)" by (simp add: distinct_map)
  then have "distinct (filter (\<lambda>c. 1 < length c) (map snd d))" by (rule distinct_filter)
  moreover have "clusters keys_of rows = Some (filter (\<lambda>members. 1 < length members) (map snd d))"
    by (simp add: clusters_def l(1) d(1))
  moreover have "set (filter (\<lambda>c. 1 < length c) (map snd d)) =
      {c. 1 < length c \<and> (\<exists>a \<in> set rows. c = filter (\<lambda>b. (a, b) \<in> ?S) rows)}"
    unfolding set_filter members by blast
  ultimately show ?thesis using that by blast
qed

end
