(* ===== verification/Merge.thy ===== *)
theory Merge
  imports Clusters Prune
begin

text \<open>
  The merge of twin rows (\<open>scheduler/merge.py\<close>): rows of \<open>media_items\<close> that name one work, which
  of the two is to live, and the move of everything the other one holds before it is deleted.
  Other transactions commit between the job's transactions (\<open>env\<close>), and a transaction has its
  instant (\<open>clock\<close>), which \<open>onupdate\<close> stamps on every row of \<open>media_items\<close> that an \<open>UPDATE\<close> meets.
  Within the transaction of a pair both rows are locked, so nothing that refers to either can be
  inserted beside it. Tables that the code does not name and that go with a deleted row
  (metadata outcomes, sort positions, the deliveries of a dropped render) are left out.
\<close>

subsection \<open>Tables\<close>

record render_row =
  rd_item :: nat
  rd_kind :: string
  rd_status :: string
  rd_scored :: "instant option"

record dismissal =
  dm_item :: nat
  dm_kind :: string
  dm_evidence :: string

record facts_row =
  ft_item :: nat
  ft_values :: json

record credit_row =
  ct_item :: nat
  ct_kind :: string
  ct_person :: string

record override_row =
  ov_item :: nat
  ov_field :: string
  ov_value :: string

text \<open>\<open>MergeRow\<close>: the Plex id beside the columns of the row.\<close>

record merge_row =
  mw_native :: "string option"
  mw_item :: media_item

record merge_pair =
  mp_stale :: merge_row
  mp_survivor :: merge_row

record merge_plan =
  pl_pair :: merge_pair
  pl_renders_repoint :: "string list"
  pl_renders_drop :: "string list"
  pl_dismissals_repoint :: "string list"
  pl_dismissals_drop :: "string list"
  pl_children :: nat
  pl_facts_repoint :: bool
  pl_logo_carried :: bool

record merge_scan =
  ms_plans :: "merge_plan list"
  ms_ambiguous :: nat
  ms_unelectable :: nat
  ms_no_identity_match :: nat
  ms_neither_scored :: nat
  ms_fossils :: "merge_row list"
  ms_total :: nat

record probe_result =
  pb_accepted :: "merge_plan list"
  pb_both_live :: nat
  pb_neither_live :: nat
  pb_disagreed :: nat

record merge_audit =
  ma_plan :: merge_plan
  ma_stale_refs :: "(string \<times> string) list"
  ma_survivor_refs :: "(string \<times> string) list"
  ma_dismissals_repoint :: "string list"
  ma_dismissals_drop :: "string list"
  ma_children :: nat
  ma_parent_carried :: "nat option"
  ma_overrides_repoint :: "string list"
  ma_overrides_drop :: "string list"
  ma_logo_carried :: "string option"
  ma_stale_logo :: "string option"

record merge_outcome =
  mo_merged :: "(string option \<times> string option) list"
  mo_renders_repointed :: nat
  mo_renders_dropped :: nat
  mo_dismissals_repointed :: nat
  mo_dismissals_dropped :: nat
  mo_children :: nat
  mo_parents :: nat
  mo_facts :: nat
  mo_overrides_repointed :: nat
  mo_overrides_dropped :: nat
  mo_logos :: nat
  mo_skipped :: nat

record merge_db =
  mg_items :: items_db
  mg_renders :: "render_row list"
  mg_dismissals :: "dismissal list"
  mg_facts :: "facts_row list"
  mg_credits :: "credit_row list"
  mg_overrides :: "override_row list"
  mg_audits :: "merge_audit list"
  mg_queue :: jobs_db

abbreviation mw_id :: "merge_row \<Rightarrow> nat" where
  "mw_id r \<equiv> mi_id (mw_item r)"

abbreviation mw_updated :: "merge_row \<Rightarrow> instant" where
  "mw_updated r \<equiv> mi_updated (mw_item r)"

subsection \<open>Rows that contradict themselves\<close>

definition intent_for_row :: "merge_row \<Rightarrow> intent" where
  "intent_for_row r = intent_for (mw_item r) ''plex'' (mw_native r)"

definition family :: "string \<Rightarrow> string" where
  "family kind = (if kind = ''movie'' then ''movie'' else ''show'')"

definition family_count :: "merge_row list \<Rightarrow> string \<Rightarrow> string \<Rightarrow> nat" where
  "family_count rows library fam =
     length (filter (\<lambda>r. mi_library (mw_item r) = library \<and> family (mi_kind (mw_item r)) = fam) rows)"

definition fossil_rows :: "merge_row list \<Rightarrow> merge_row list" where
  "fossil_rows rows = filter (\<lambda>r.
     let fam = family (mi_kind (mw_item r)); other = (if fam = ''movie'' then ''show'' else ''movie'')
     in family_count rows (mi_library (mw_item r)) other > family_count rows (mi_library (mw_item r)) fam) rows"

subsection \<open>Twins\<close>

datatype token = Tmdb int | Tvdb int | Imdb string

definition identity_tokens :: "merge_row \<Rightarrow> token list" where
  "identity_tokens r =
     (case mi_tmdb (mw_item r) of None \<Rightarrow> [] | Some i \<Rightarrow> [Tmdb i]) @
     (case mi_tvdb (mw_item r) of None \<Rightarrow> [] | Some i \<Rightarrow> [Tvdb i]) @
     (case mi_imdb (mw_item r) of None \<Rightarrow> [] | Some s \<Rightarrow> [Imdb s])"

definition scope_of :: "merge_row \<Rightarrow> string \<times> string \<times> int option \<times> int option" where
  "scope_of r = (mi_kind (mw_item r), mi_library (mw_item r), mi_season (mw_item r), mi_episode (mw_item r))"

definition scoped_tokens :: "merge_row \<Rightarrow> ((string \<times> string \<times> int option \<times> int option) \<times> token) list" where
  "scoped_tokens r = map (Pair (scope_of r)) (identity_tokens r)"

definition identity_clusters :: "merge_row list \<Rightarrow> merge_row list list option" where
  "identity_clusters rows = clusters scoped_tokens rows"

definition all_rows :: "items_db \<Rightarrow> merge_row list" where
  "all_rows db = map (\<lambda>m. \<lparr>mw_native = native_id_of (sr_rows db) ''plex'' (mi_id m), mw_item = m\<rparr>)
     (sort_key mi_id (it_rows db))"

text \<open>\<open>sorted(cluster, key=(updated_at, id), reverse=True)\<close> of a cluster of two.\<close>

definition elect :: "merge_row list \<Rightarrow> merge_pair option" where
  "elect cluster = (case rev (sort_key (\<lambda>r. (mw_updated r, mw_id r)) cluster) of
     [survivor, dying] \<Rightarrow> Some \<lparr>mp_stale = dying, mp_survivor = survivor\<rparr> | _ \<Rightarrow> None)"

definition ambiguous_clusters :: "merge_row list list \<Rightarrow> nat" where
  "ambiguous_clusters cs = length (filter (\<lambda>c. length c \<noteq> 2) cs)"

definition pairs_of :: "merge_row list list \<Rightarrow> merge_pair list" where
  "pairs_of cs = concat (map (\<lambda>c. case elect c of None \<Rightarrow> [] | Some p \<Rightarrow> [p]) cs)"

subsection \<open>Plans\<close>

text \<open>\<open>sorted(a - b)\<close> and \<open>sorted(a & b)\<close> of two sets.\<close>

definition only_first :: "string list \<Rightarrow> string list \<Rightarrow> string list" where
  "only_first xs ys = sort (remdups (filter (\<lambda>x. x \<notin> set ys) xs))"

definition in_both :: "string list \<Rightarrow> string list \<Rightarrow> string list" where
  "in_both xs ys = sort (remdups (filter (\<lambda>x. x \<in> set ys) xs))"

definition render_kinds :: "merge_db \<Rightarrow> nat \<Rightarrow> string list" where
  "render_kinds db i = map rd_kind (filter (\<lambda>r. rd_item r = i) (mg_renders db))"

definition dismissal_kinds :: "merge_db \<Rightarrow> nat \<Rightarrow> string list" where
  "dismissal_kinds db i = map dm_kind (filter (\<lambda>r. dm_item r = i) (mg_dismissals db))"

definition override_fields :: "merge_db \<Rightarrow> nat \<Rightarrow> string list" where
  "override_fields db i = map ov_field (filter (\<lambda>r. ov_item r = i) (mg_overrides db))"

definition plan_merge :: "merge_db \<Rightarrow> merge_pair \<Rightarrow> merge_plan" where
  "plan_merge db p =
     (let s = mw_id (mp_stale p); t = mw_id (mp_survivor p) in
      \<lparr>pl_pair = p,
       pl_renders_repoint = only_first (render_kinds db s) (render_kinds db t),
       pl_renders_drop = in_both (render_kinds db s) (render_kinds db t),
       pl_dismissals_repoint = only_first (dismissal_kinds db s) (dismissal_kinds db t),
       pl_dismissals_drop = in_both (dismissal_kinds db s) (dismissal_kinds db t),
       pl_children = length (filter (\<lambda>m. mi_parent m = Some s) (it_rows (mg_items db))),
       pl_facts_repoint = (s \<in> ft_item ` set (mg_facts db) \<and> t \<notin> ft_item ` set (mg_facts db)),
       pl_logo_carried = (mi_logo_key (mw_item (mp_stale p)) \<noteq> None \<and> mi_logo_key (mw_item (mp_survivor p)) = None)\<rparr>)"

definition no_identity_match :: "nat set \<Rightarrow> merge_db \<Rightarrow> nat" where
  "no_identity_match excluded db = length (remdups (map rd_item (filter (\<lambda>r. rd_status r = ''rendered'' \<and>
     rd_scored r = None \<and> rd_item r \<notin> excluded) (mg_renders db))))"

definition neither_scored :: "merge_pair list \<Rightarrow> merge_db \<Rightarrow> nat" where
  "neither_scored ps db =
     (let scored = rd_item ` set (filter (\<lambda>r. rd_scored r \<noteq> None) (mg_renders db))
      in length (filter (\<lambda>p. mw_id (mp_stale p) \<notin> scored \<and> mw_id (mp_survivor p) \<notin> scored) ps))"

text \<open>
  \<open>find_mergeable\<close>: the rows are read from \<open>db0\<close>, what the plans count from \<open>db1\<close> and the scores
  from \<open>db2\<close>. \<open>None\<close> would be a scan that does not end.
\<close>

definition find_mergeable :: "merge_db \<Rightarrow> merge_db \<Rightarrow> merge_db \<Rightarrow> merge_scan option" where
  "find_mergeable db0 db1 db2 =
     (let rows = all_rows (mg_items db0) in
      if rows = [] then Some \<lparr>ms_plans = [], ms_ambiguous = 0, ms_unelectable = 0, ms_no_identity_match = 0,
        ms_neither_scored = 0, ms_fossils = [], ms_total = 0\<rparr>
      else
        let fossils = fossil_rows rows; fossil_ids = map mw_id fossils;
            pairable = filter (\<lambda>r. mw_id r \<notin> set fossil_ids) rows
        in Option.bind (identity_clusters pairable) (\<lambda>cs.
          let ps = pairs_of cs in
          Some \<lparr>ms_plans = map (plan_merge db1) ps, ms_ambiguous = ambiguous_clusters cs, ms_unelectable = 0,
            ms_no_identity_match = no_identity_match (mw_id ` set (concat cs) \<union> set fossil_ids) db2,
            ms_neither_scored = neither_scored ps db2, ms_fossils = fossils, ms_total = length rows\<rparr>))"

subsection \<open>What Plex says of the pairs\<close>

type_synonym keys_probe = "intent list \<Rightarrow> string + bool list"

definition verify_survivors :: "keys_probe \<Rightarrow> merge_plan list \<Rightarrow> string + probe_result" where
  "verify_survivors keys_resolve plans =
     (if plans = [] then Inr \<lparr>pb_accepted = [], pb_both_live = 0, pb_neither_live = 0, pb_disagreed = 0\<rparr>
      else bind_sum (keys_resolve (map (\<lambda>p. intent_for_row (mp_survivor (pl_pair p))) plans @
                                   map (\<lambda>p. intent_for_row (mp_stale (pl_pair p))) plans)) (\<lambda>flags.
        let survivor_flags = take (length plans) flags; stale_flags = drop (length plans) flags in
        if length survivor_flags \<noteq> length plans \<or> length stale_flags \<noteq> length plans then Inl ''ValueError''
        else
          let rows = zip plans (zip survivor_flags stale_flags) in
          Inr \<lparr>pb_accepted = map fst (filter (\<lambda>(p, t, s). t \<and> \<not> s) rows),
               pb_both_live = length (filter (\<lambda>(p, t, s). t \<and> s) rows),
               pb_neither_live = length (filter (\<lambda>(p, t, s). \<not> t \<and> \<not> s) rows),
               pb_disagreed = length (filter (\<lambda>(p, t, s). \<not> t \<and> s) rows)\<rparr>))"

subsection \<open>One pair\<close>

definition later :: "instant option \<Rightarrow> instant option \<Rightarrow> instant option" where
  "later one other = (case one of None \<Rightarrow> other | Some a \<Rightarrow>
     (case other of None \<Rightarrow> one | Some b \<Rightarrow> Some (max a b)))"

definition move_renders :: "merge_plan \<Rightarrow> nat \<Rightarrow> nat \<Rightarrow> render_row list \<Rightarrow> string + render_row list" where
  "move_renders plan s t rs =
     (let kept = filter (\<lambda>r. \<not> (rd_item r = s \<and> rd_kind r \<in> set (pl_renders_drop plan))) rs;
          moved = update_where (\<lambda>r. rd_item r = s \<and> rd_kind r \<in> set (pl_renders_repoint plan)) (\<lambda>r. r\<lparr>rd_item := t\<rparr>) kept
      in if distinct (map (\<lambda>r. (rd_item r, rd_kind r)) moved) then Inr moved else Inl ''IntegrityError'')"

definition move_dismissals :: "string list \<Rightarrow> string list \<Rightarrow> nat \<Rightarrow> nat \<Rightarrow> dismissal list \<Rightarrow> dismissal list" where
  "move_dismissals gone repoint s t ds =
     update_where (\<lambda>d. dm_item d = s \<and> dm_kind d \<in> set repoint) (\<lambda>d. d\<lparr>dm_item := t\<rparr>)
       (filter (\<lambda>d. \<not> (dm_item d = s \<and> dm_kind d \<in> set gone)) ds)"

definition move_facts :: "bool \<Rightarrow> nat \<Rightarrow> nat \<Rightarrow> facts_row list \<Rightarrow> string + facts_row list" where
  "move_facts repoint s t fs =
     (if repoint then
        let moved = update_where (\<lambda>f. ft_item f = s) (\<lambda>f. f\<lparr>ft_item := t\<rparr>) fs
        in if distinct (map ft_item moved) then Inr moved else Inl ''IntegrityError''
      else Inr (filter (\<lambda>f. ft_item f \<noteq> s) fs))"

definition move_credits :: "nat \<Rightarrow> nat \<Rightarrow> credit_row list \<Rightarrow> credit_row list" where
  "move_credits s t cs =
     (let held = (\<lambda>c. (ct_kind c, ct_person c)) ` set (filter (\<lambda>c. ct_item c = t) cs)
      in update_where (\<lambda>c. ct_item c = s) (\<lambda>c. c\<lparr>ct_item := t\<rparr>)
           (filter (\<lambda>c. \<not> (ct_item c = s \<and> (ct_kind c, ct_person c) \<in> held)) cs))"

definition move_overrides :: "string list \<Rightarrow> string list \<Rightarrow> nat \<Rightarrow> nat \<Rightarrow> override_row list \<Rightarrow> override_row list" where
  "move_overrides gone repoint s t os =
     update_where (\<lambda>r. ov_item r = s \<and> ov_field r \<in> set repoint) (\<lambda>r. r\<lparr>ov_item := t\<rparr>)
       (filter (\<lambda>r. \<not> (ov_item r = s \<and> ov_field r \<in> set gone)) os)"

definition carried_logo :: "media_item \<Rightarrow> media_item \<Rightarrow> string option" where
  "carried_logo dying survivor = (if mi_logo_key survivor = None then mi_logo_key dying else None)"

definition carried_parent :: "media_item \<Rightarrow> media_item \<Rightarrow> nat option" where
  "carried_parent dying survivor = (if mi_parent survivor = None then mi_parent dying else None)"

definition enrich :: "instant \<Rightarrow> media_item \<Rightarrow> media_item \<Rightarrow> media_item \<Rightarrow> media_item" where
  "enrich now dying survivor m = m\<lparr>
     mi_facts_at := later (mi_facts_at survivor) (mi_facts_at dying),
     mi_credits_at := later (mi_credits_at survivor) (mi_credits_at dying),
     mi_logo_key := (if carried_logo dying survivor = None then mi_logo_key m else carried_logo dying survivor),
     mi_parent := (if carried_parent dying survivor = None then mi_parent m else carried_parent dying survivor),
     mi_updated := now\<rparr>"

text \<open>The update of the survivor, and then the children; the number of children is the \<open>rowcount\<close>.\<close>

definition adopt :: "instant \<Rightarrow> media_item \<Rightarrow> media_item \<Rightarrow> media_item list \<Rightarrow> media_item list \<times> nat" where
  "adopt now dying survivor ms =
     (let enriched = update_where (\<lambda>m. mi_id m = mi_id survivor) (enrich now dying survivor) ms;
          child = (\<lambda>m. mi_parent m = Some (mi_id dying))
      in (update_where child (\<lambda>m. m\<lparr>mi_parent := Some (mi_id survivor), mi_updated := now\<rparr>) enriched,
          length (filter child enriched)))"

text \<open>\<open>DELETE FROM media_items\<close> with everything that goes with a row.\<close>

definition delete_with :: "nat \<Rightarrow> merge_db \<Rightarrow> merge_db" where
  "delete_with i db =
     (let t = mg_items db; dead = set (cascade (it_rows t) [i])
      in db\<lparr>mg_items := t\<lparr>it_rows := filter (\<lambda>m. mi_id m \<notin> dead) (it_rows t),
                sr_rows := filter (\<lambda>r. ref_item r \<notin> dead) (sr_rows t)\<rparr>,
            mg_renders := filter (\<lambda>r. rd_item r \<notin> dead) (mg_renders db),
            mg_dismissals := filter (\<lambda>r. dm_item r \<notin> dead) (mg_dismissals db),
            mg_facts := filter (\<lambda>r. ft_item r \<notin> dead) (mg_facts db),
            mg_credits := filter (\<lambda>r. ct_item r \<notin> dead) (mg_credits db),
            mg_overrides := filter (\<lambda>r. ov_item r \<notin> dead) (mg_overrides db)\<rparr>)"

definition no_outcome :: merge_outcome where
  "no_outcome = \<lparr>mo_merged = [], mo_renders_repointed = 0, mo_renders_dropped = 0, mo_dismissals_repointed = 0,
     mo_dismissals_dropped = 0, mo_children = 0, mo_parents = 0, mo_facts = 0, mo_overrides_repointed = 0,
     mo_overrides_dropped = 0, mo_logos = 0, mo_skipped = 0\<rparr>"

definition add_outcome :: "merge_outcome \<Rightarrow> merge_outcome \<Rightarrow> merge_outcome" where
  "add_outcome a b = \<lparr>mo_merged = mo_merged a @ mo_merged b,
     mo_renders_repointed = mo_renders_repointed a + mo_renders_repointed b,
     mo_renders_dropped = mo_renders_dropped a + mo_renders_dropped b,
     mo_dismissals_repointed = mo_dismissals_repointed a + mo_dismissals_repointed b,
     mo_dismissals_dropped = mo_dismissals_dropped a + mo_dismissals_dropped b,
     mo_children = mo_children a + mo_children b, mo_parents = mo_parents a + mo_parents b,
     mo_facts = mo_facts a + mo_facts b, mo_overrides_repointed = mo_overrides_repointed a + mo_overrides_repointed b,
     mo_overrides_dropped = mo_overrides_dropped a + mo_overrides_dropped b,
     mo_logos = mo_logos a + mo_logos b, mo_skipped = mo_skipped a + mo_skipped b\<rparr>"

definition skipped_pair :: merge_outcome where
  "skipped_pair = no_outcome\<lparr>mo_skipped := 1\<rparr>"

text \<open>The pair as it is under the lock, if neither row changed since the scan.\<close>

definition locked_pair :: "merge_pair \<Rightarrow> media_item list \<Rightarrow> (media_item \<times> media_item) option" where
  "locked_pair p ms = (case (item_by_id ms (mw_id (mp_stale p)), item_by_id ms (mw_id (mp_survivor p))) of
     (Some dying, Some survivor) \<Rightarrow>
       if mi_updated dying = mw_updated (mp_stale p) \<and> mi_updated survivor = mw_updated (mp_survivor p)
       then Some (dying, survivor) else None
   | _ \<Rightarrow> None)"

definition merged_audit :: "merge_plan \<Rightarrow> media_item \<Rightarrow> media_item \<Rightarrow> merge_db \<Rightarrow> nat \<Rightarrow> merge_audit" where
  "merged_audit plan dying survivor db children =
     (let s = mi_id dying; t = mi_id survivor; refs = sr_rows (mg_items db) in
      \<lparr>ma_plan = plan, ma_stale_refs = refs_for refs s, ma_survivor_refs = refs_for refs t,
       ma_dismissals_repoint = only_first (dismissal_kinds db s) (dismissal_kinds db t),
       ma_dismissals_drop = in_both (dismissal_kinds db s) (dismissal_kinds db t),
       ma_children = children, ma_parent_carried = carried_parent dying survivor,
       ma_overrides_repoint = only_first (override_fields db s) (override_fields db t),
       ma_overrides_drop = in_both (override_fields db s) (override_fields db t),
       ma_logo_carried = carried_logo dying survivor, ma_stale_logo = mi_logo_key dying\<rparr>)"

definition merged_outcome :: "merge_plan \<Rightarrow> merge_audit \<Rightarrow> merge_outcome" where
  "merged_outcome plan a = \<lparr>mo_merged = [(mw_native (mp_stale (pl_pair plan)), mw_native (mp_survivor (pl_pair plan)))],
     mo_renders_repointed = length (pl_renders_repoint plan), mo_renders_dropped = length (pl_renders_drop plan),
     mo_dismissals_repointed = length (ma_dismissals_repoint a), mo_dismissals_dropped = length (ma_dismissals_drop a),
     mo_children = ma_children a, mo_parents = (if ma_parent_carried a = None then 0 else 1),
     mo_facts = (if pl_facts_repoint plan then 1 else 0),
     mo_overrides_repointed = length (ma_overrides_repoint a), mo_overrides_dropped = length (ma_overrides_drop a),
     mo_logos = (if ma_logo_carried a = None then 0 else 1), mo_skipped = 0\<rparr>"

text \<open>Everything that is moved before the delete.\<close>

definition moved :: "instant \<Rightarrow> merge_plan \<Rightarrow> media_item \<Rightarrow> media_item \<Rightarrow> merge_db \<Rightarrow> string + merge_db" where
  "moved now plan dying survivor db =
     (let s = mi_id dying; t = mi_id survivor in
      bind_sum (move_renders plan s t (mg_renders db)) (\<lambda>renders.
      bind_sum (move_facts (pl_facts_repoint plan) s t (mg_facts db)) (\<lambda>facts.
        Inr (db\<lparr>mg_renders := renders,
          mg_dismissals := move_dismissals (in_both (dismissal_kinds db s) (dismissal_kinds db t))
            (only_first (dismissal_kinds db s) (dismissal_kinds db t)) s t (mg_dismissals db),
          mg_facts := facts,
          mg_credits := move_credits s t (mg_credits db),
          mg_overrides := move_overrides (in_both (override_fields db s) (override_fields db t))
            (only_first (override_fields db s) (override_fields db t)) s t (mg_overrides db),
          mg_items := (mg_items db)\<lparr>it_rows := fst (adopt now dying survivor (it_rows (mg_items db)))\<rparr>\<rparr>))))"

text \<open>The transaction of one pair; \<open>Inl\<close> is an exception, which leaves the database as it was.\<close>

definition merge_one :: "instant \<Rightarrow> merge_plan \<Rightarrow> merge_db \<Rightarrow> string + (merge_db \<times> merge_outcome)" where
  "merge_one now plan db =
     (case locked_pair (pl_pair plan) (it_rows (mg_items db)) of
        None \<Rightarrow> Inr (db, skipped_pair)
      | Some (dying, survivor) \<Rightarrow>
        bind_sum (moved now plan dying survivor db) (\<lambda>db1.
          if \<exists>m \<in> set (it_rows (mg_items db1)). mi_id m = mi_id dying \<and> mi_updated m = mw_updated (mp_stale (pl_pair plan))
          then
            let a = merged_audit plan dying survivor db (snd (adopt now dying survivor (it_rows (mg_items db))));
                db2 = delete_with (mi_id dying) db1
            in Inr (db2\<lparr>mg_audits := mg_audits db2 @ [a]\<rparr>, merged_outcome plan a)
          else Inr (db, skipped_pair)))"

subsection \<open>The pass\<close>

fun merge_plans ::
  "(nat \<Rightarrow> merge_db \<Rightarrow> merge_db) \<Rightarrow> (nat \<Rightarrow> instant) \<Rightarrow> nat \<Rightarrow> merge_plan list \<Rightarrow> merge_db \<Rightarrow>
   merge_db \<times> (string + merge_outcome)" where
  "merge_plans env clock n [] db = (db, Inr no_outcome)"
| "merge_plans env clock n (plan # plans) db =
     (let db1 = env n db in
      (case merge_one (clock n) plan db1 of
         Inl class \<Rightarrow> (db1, Inl class)
       | Inr (db2, outcome) \<Rightarrow>
         (case merge_plans env clock (Suc n) plans db2 of (db', r) \<Rightarrow> (db', map_sum id (add_outcome outcome) r))))"

record merge_config =
  mc_apply :: bool
  mc_max_merges :: int
  mc_max_share :: rat

definition implausible_merge_count :: "int \<Rightarrow> int \<Rightarrow> merge_config \<Rightarrow> refusal option" where
  "implausible_merge_count pairs totl cfg =
     (if pairs \<noteq> 0 \<and> pairs > mc_max_merges cfg then Some (Over_cap pairs totl (mc_max_merges cfg))
      else
        let share = (if totl \<noteq> 0 then of_int (2 * pairs) / of_int totl else 0)
        in if totl \<ge> SHARE_CHECK_MIN_ITEMS \<and> share > mc_max_share cfg
           then Some (Over_share pairs totl (mc_max_share cfg)) else None)"

text \<open>The summaries, as the numbers their text is built from.\<close>

datatype merge_report =
    Merge_refused refusal
  | Merge_dry merge_scan merge_outcome
  | Merge_unhealthy
  | Merge_done merge_scan probe_result merge_outcome nat

definition dry_outcome :: "merge_plan list \<Rightarrow> merge_outcome" where
  "dry_outcome plans = no_outcome\<lparr>
     mo_renders_repointed := sum_list (map (length \<circ> pl_renders_repoint) plans),
     mo_renders_dropped := sum_list (map (length \<circ> pl_renders_drop) plans),
     mo_dismissals_repointed := sum_list (map (length \<circ> pl_dismissals_repoint) plans),
     mo_dismissals_dropped := sum_list (map (length \<circ> pl_dismissals_drop) plans),
     mo_children := sum_list (map pl_children plans),
     mo_facts := length (filter pl_facts_repoint plans),
     mo_logos := length (filter pl_logo_carried plans),
     mo_parents := length (filter (\<lambda>p. mi_parent (mw_item (mp_stale (pl_pair p))) \<noteq> None \<and>
       mi_parent (mw_item (mp_survivor (pl_pair p))) = None) plans)\<rparr>"

definition merged_natives :: "merge_outcome \<Rightarrow> string list" where
  "merged_natives o' = concat (map (\<lambda>(s, t). (case s of None \<Rightarrow> [] | Some v \<Rightarrow> [v]) @ (case t of None \<Rightarrow> [] | Some v \<Rightarrow> [v]))
     (mo_merged o'))"

text \<open>\<open>factory\<close> is what connecting to Plex raises, if it does. With no plan nothing connects.\<close>

definition probe_plans :: "string option \<Rightarrow> keys_probe \<Rightarrow> merge_plan list \<Rightarrow> string + probe_result" where
  "probe_plans factory keys_resolve plans =
     (case factory of
        Some class \<Rightarrow> if plans = [] then verify_survivors keys_resolve plans else Inl class
      | None \<Rightarrow> verify_survivors keys_resolve plans)"

text \<open>What the job does with a scan; \<open>Inl\<close> is the class of the exception that ended it.\<close>

definition merge_scanned ::
  "(nat \<Rightarrow> merge_db \<Rightarrow> merge_db) \<Rightarrow> (nat \<Rightarrow> instant) \<Rightarrow> (json \<Rightarrow> string) \<Rightarrow> instant \<Rightarrow> (nat \<Rightarrow> bool) \<Rightarrow> bool \<Rightarrow>
   string option \<Rightarrow> keys_probe \<Rightarrow> merge_config \<Rightarrow> merge_scan \<Rightarrow> merge_db \<Rightarrow> merge_db \<times> (string + merge_report)" where
  "merge_scanned env clock render now locked healthy factory keys_resolve cfg scan db =
     (case implausible_merge_count (int (length (ms_plans scan))) (int (ms_total scan)) cfg of
        Some r \<Rightarrow> (db, Inr (Merge_refused r))
      | None \<Rightarrow>
        if \<not> mc_apply cfg then (db, Inr (Merge_dry scan (dry_outcome (ms_plans scan))))
        else if \<not> healthy then (db, Inr Merge_unhealthy)
        else (case probe_plans factory keys_resolve (ms_plans scan) of
            Inl class \<Rightarrow> (db, Inl class)
          | Inr probe \<Rightarrow>
            (case merge_plans env clock 3 (pb_accepted probe) db of
               (db3, Inl class) \<Rightarrow> (db3, Inl class)
             | (db3, Inr outcome) \<Rightarrow>
               (case dismiss_jobs_for render now locked (merged_natives outcome) (mg_queue db3) of
                  (queue', dismissed) \<Rightarrow>
                    (db3\<lparr>mg_queue := queue'\<rparr>, Inr (Merge_done scan probe outcome dismissed))))))"

text \<open>\<open>make_merge_job .. run\<close>. \<open>None\<close> would be a job that does not end.\<close>

definition merge_job ::
  "(nat \<Rightarrow> merge_db \<Rightarrow> merge_db) \<Rightarrow> (nat \<Rightarrow> instant) \<Rightarrow> (json \<Rightarrow> string) \<Rightarrow> instant \<Rightarrow> (nat \<Rightarrow> bool) \<Rightarrow> bool \<Rightarrow>
   string option \<Rightarrow> keys_probe \<Rightarrow> merge_config \<Rightarrow> merge_db \<Rightarrow> (merge_db \<times> (string + merge_report)) option" where
  "merge_job env clock render now locked healthy factory keys_resolve cfg db =
     (case refuse_if_empty (it_rows (mg_items db)) ''media_items'' of
        Some r \<Rightarrow> Some (db, Inr (Merge_refused r))
      | None \<Rightarrow>
        let db0 = env 0 db; db1 = env 1 db0; db2 = env 2 db1 in
        Option.bind (find_mergeable db0 db1 db2) (\<lambda>scan.
          Some (merge_scanned env clock render now locked healthy factory keys_resolve cfg scan db2)))"

end
