(* ===== verification/Merge_Props.thy ===== *)
theory Merge_Props
  imports Merge Items_Props
begin

text \<open>
  What the transaction of one pair promises: it moves everything that it does not drop for a
  value the survivor has, and leaves nothing that refers to the row it deletes.
\<close>

subsection \<open>One pair\<close>

lemma locked_pairD:
  assumes "locked_pair p ms = Some (a, b)"
  shows "a \<in> set ms" "b \<in> set ms" "mi_id a = mw_id (mp_stale p)" "mi_id b = mw_id (mp_survivor p)"
    "mi_updated a = mw_updated (mp_stale p)" "mi_updated b = mw_updated (mp_survivor p)"
  using assms by (auto simp: locked_pair_def item_by_id_def dest!: find_Some_mem split: option.splits if_splits)

lemma adopt_ids [simp]: "map mi_id (fst (adopt now a b ms)) = map mi_id ms"
  by (simp add: adopt_def Let_def map_update_where enrich_def)

lemma adopt_id_set [simp]: "mi_id ` set (fst (adopt now a b ms)) = mi_id ` set ms"
  using adopt_ids [of now a b ms] by (metis list.set_map)

lemma adopt_no_children:
  "mi_id a \<noteq> mi_id b \<Longrightarrow> m \<in> set (fst (adopt now a b ms)) \<Longrightarrow> mi_parent m \<noteq> Some (mi_id a)"
  by (auto simp: adopt_def Let_def set_update_where)

lemma adopt_other:
  "m \<in> set ms \<Longrightarrow> mi_id m \<noteq> mi_id b \<Longrightarrow>
   (if mi_parent m = Some (mi_id a) then m\<lparr>mi_parent := Some (mi_id b), mi_updated := now\<rparr> else m)
     \<in> set (fst (adopt now a b ms))"
  by (force simp: adopt_def Let_def set_update_where image_image)

lemma adopt_survivor:
  "b \<in> set ms \<Longrightarrow> (let e = enrich now a b b in
     if mi_parent e = Some (mi_id a) then e\<lparr>mi_parent := Some (mi_id b), mi_updated := now\<rparr> else e)
     \<in> set (fst (adopt now a b ms))"
  by (force simp: adopt_def Let_def set_update_where image_image)

lemma cascade_alone: "\<forall>m \<in> set ms. mi_parent m \<noteq> Some i \<Longrightarrow> cascade ms [i] = [i]"
  by (subst cascade.simps) (auto simp: children_of_def filter_empty_conv split: option.splits)

lemma merge_delete_alone:
  assumes "\<forall>m \<in> set (it_rows (mg_items db)). mi_parent m \<noteq> Some i"
  shows "it_rows (mg_items (delete_with i db)) = filter (\<lambda>m. mi_id m \<noteq> i) (it_rows (mg_items db))"
    "sr_rows (mg_items (delete_with i db)) = filter (\<lambda>r. ref_item r \<noteq> i) (sr_rows (mg_items db))"
    "mg_renders (delete_with i db) = filter (\<lambda>r. rd_item r \<noteq> i) (mg_renders db)"
    "mg_dismissals (delete_with i db) = filter (\<lambda>r. dm_item r \<noteq> i) (mg_dismissals db)"
    "mg_facts (delete_with i db) = filter (\<lambda>r. ft_item r \<noteq> i) (mg_facts db)"
    "mg_credits (delete_with i db) = filter (\<lambda>r. ct_item r \<noteq> i) (mg_credits db)"
    "mg_overrides (delete_with i db) = filter (\<lambda>r. ov_item r \<noteq> i) (mg_overrides db)"
    "mg_audits (delete_with i db) = mg_audits db" "mg_queue (delete_with i db) = mg_queue db"
  using cascade_alone [OF assms] by (simp_all add: delete_with_def Let_def)

lemma merge_one_cases:
  assumes "merge_one now plan db = Inr (db', out)"
  obtains (skipped) "db' = db" "out = skipped_pair"
  | (merged) a b db1 where "locked_pair (pl_pair plan) (it_rows (mg_items db)) = Some (a, b)"
      "moved now plan a b db = Inr db1"
      "db' = (delete_with (mi_id a) db1)\<lparr>mg_audits := mg_audits (delete_with (mi_id a) db1) @
         [merged_audit plan a b db (snd (adopt now a b (it_rows (mg_items db))))]\<rparr>"
      "out = merged_outcome plan (merged_audit plan a b db (snd (adopt now a b (it_rows (mg_items db)))))"
proof (cases "locked_pair (pl_pair plan) (it_rows (mg_items db))")
  case None
  with assms skipped show ?thesis by (simp add: merge_one_def)
next
  case (Some p)
  then obtain a b where ab: "locked_pair (pl_pair plan) (it_rows (mg_items db)) = Some (a, b)" by (cases p) auto
  show ?thesis
  proof (cases "moved now plan a b db")
    case (Inl e)
    with ab assms show ?thesis by (simp add: merge_one_def)
  next
    case (Inr db1)
    show ?thesis
    proof (cases "\<exists>m \<in> set (it_rows (mg_items db1)). mi_id m = mi_id a \<and> mi_updated m = mw_updated (mp_stale (pl_pair plan))")
      case True
      then show ?thesis using merged [OF ab Inr] assms ab Inr by (simp add: merge_one_def Let_def)
    next
      case False
      then show ?thesis using skipped assms ab Inr by (auto simp: merge_one_def Let_def split: if_split_asm)
    qed
  qed
qed

lemma movedD:
  assumes "moved now plan a b db = Inr db1"
  shows "it_rows (mg_items db1) = fst (adopt now a b (it_rows (mg_items db)))" "sr_rows (mg_items db1) = sr_rows (mg_items db)"
    "move_renders plan (mi_id a) (mi_id b) (mg_renders db) = Inr (mg_renders db1)"
    "move_facts (pl_facts_repoint plan) (mi_id a) (mi_id b) (mg_facts db) = Inr (mg_facts db1)"
    "mg_dismissals db1 = move_dismissals (in_both (dismissal_kinds db (mi_id a)) (dismissal_kinds db (mi_id b)))
       (only_first (dismissal_kinds db (mi_id a)) (dismissal_kinds db (mi_id b))) (mi_id a) (mi_id b) (mg_dismissals db)"
    "mg_overrides db1 = move_overrides (in_both (override_fields db (mi_id a)) (override_fields db (mi_id b)))
       (only_first (override_fields db (mi_id a)) (override_fields db (mi_id b))) (mi_id a) (mi_id b) (mg_overrides db)"
    "mg_credits db1 = move_credits (mi_id a) (mi_id b) (mg_credits db)"
    "mg_audits db1 = mg_audits db" "mg_queue db1 = mg_queue db"
  using assms by (auto simp: moved_def Let_def bind_sum_Inr)

text \<open>A merged pair, with the tables after it.\<close>

lemma merged_tables:
  assumes "merge_one now plan db = Inr (db', out)" and "mo_merged out \<noteq> []"
    and "mw_id (mp_stale (pl_pair plan)) \<noteq> mw_id (mp_survivor (pl_pair plan))"
  obtains a b db1 where "locked_pair (pl_pair plan) (it_rows (mg_items db)) = Some (a, b)"
    "moved now plan a b db = Inr db1"
    "it_rows (mg_items db') = filter (\<lambda>m. mi_id m \<noteq> mi_id a) (fst (adopt now a b (it_rows (mg_items db))))"
    "sr_rows (mg_items db') = filter (\<lambda>r. ref_item r \<noteq> mi_id a) (sr_rows (mg_items db))"
    "mg_renders db' = filter (\<lambda>r. rd_item r \<noteq> mi_id a) (mg_renders db1)"
    "mg_dismissals db' = filter (\<lambda>r. dm_item r \<noteq> mi_id a) (mg_dismissals db1)"
    "mg_facts db' = filter (\<lambda>r. ft_item r \<noteq> mi_id a) (mg_facts db1)"
    "mg_credits db' = filter (\<lambda>r. ct_item r \<noteq> mi_id a) (mg_credits db1)"
    "mg_overrides db' = filter (\<lambda>r. ov_item r \<noteq> mi_id a) (mg_overrides db1)"
    "mg_audits db' = mg_audits db @ [merged_audit plan a b db (snd (adopt now a b (it_rows (mg_items db))))]"
    "mg_queue db' = mg_queue db"
  using assms(1)
proof (cases rule: merge_one_cases)
  case skipped
  with assms(2) show ?thesis by (simp add: skipped_pair_def no_outcome_def)
next
  case (merged a b db1)
  have "mi_id a \<noteq> mi_id b" using assms(3) locked_pairD [OF merged(1)] by simp
  then have "\<forall>m \<in> set (it_rows (mg_items db1)). mi_parent m \<noteq> Some (mi_id a)"
    using adopt_no_children unfolding movedD(1) [OF merged(2)] by blast
  from merge_delete_alone [OF this] movedD [OF merged(2)] that [OF merged(1,2)] merged(3) show ?thesis by simp
qed

subsection \<open>Rows that follow an item\<close>

lemma distinct_map_via:
  "distinct (map k xs) \<Longrightarrow> (\<And>x y. x \<in> set xs \<Longrightarrow> y \<in> set xs \<Longrightarrow> g x = g y \<Longrightarrow> k x = k y) \<Longrightarrow> distinct (map g xs)"
  unfolding distinct_map inj_on_def by blast

text \<open>
  A table whose rows belong to an item under a key: what its repointing promises, whichever rows
  are dropped and moved.
\<close>

locale item_table =
  fixes owner :: "'r \<Rightarrow> nat" and give :: "nat \<Rightarrow> 'r \<Rightarrow> 'r" and key :: "'r \<Rightarrow> 'k"
  assumes owner_give: "owner (give t r) = t"
    and key_give: "key (give t r) = key r"
begin

lemma repointed_set:
  assumes "s \<noteq> t" and "\<And>r. r \<in> set rs \<Longrightarrow> owner r = s \<Longrightarrow> (P r \<and> \<not> Q r) \<longleftrightarrow> M r"
  shows "set (filter (\<lambda>r. owner r \<noteq> s) (update_where (\<lambda>r. owner r = s \<and> P r) (give t)
      (filter (\<lambda>r. \<not> (owner r = s \<and> Q r)) rs))) =
    {r \<in> set rs. owner r \<noteq> s} \<union> give t ` {r \<in> set rs. owner r = s \<and> M r}" (is "?L = ?R")
proof
  show "?L \<subseteq> ?R" using assms by (auto simp: set_update_where owner_give)
  show "?R \<subseteq> ?L"
  proof
    fix x assume "x \<in> ?R"
    then consider "x \<in> set rs" "owner x \<noteq> s" | r where "r \<in> set rs" "owner r = s" "M r" "x = give t r" by auto
    then show "x \<in> ?L"
    proof cases
      case 2
      with assms have "P r" "\<not> Q r" by auto
      with 2 assms(1) show ?thesis by (force simp: set_update_where owner_give)
    qed (auto simp: set_update_where)
  qed
qed

lemma repointed_unique:
  assumes "distinct (map (\<lambda>r. (owner r, key r)) rs)"
    and "\<And>r. r \<in> set rs \<Longrightarrow> owner r = s \<Longrightarrow> P r \<Longrightarrow> \<not> Q r \<Longrightarrow> (t, key r) \<notin> (\<lambda>r. (owner r, key r)) ` set rs"
  shows "distinct (map (\<lambda>r. (owner r, key r)) (filter (\<lambda>r. owner r \<noteq> s)
    (update_where (\<lambda>r. owner r = s \<and> P r) (give t) (filter (\<lambda>r. \<not> (owner r = s \<and> Q r)) rs))))"
proof -
  let ?k = "\<lambda>r. (owner r, key r)" and ?kept = "filter (\<lambda>r. \<not> (owner r = s \<and> Q r)) rs"
  let ?g = "\<lambda>r. ?k (if owner r = s \<and> P r then give t r else r)"
  have "distinct (map ?k ?kept)" using assms(1) by (rule distinct_map_filter)
  then have "distinct (map ?g ?kept)"
  proof (rule distinct_map_via)
    fix x y assume "x \<in> set ?kept" "y \<in> set ?kept" and eq: "?g x = ?g y"
    then have "x \<in> set rs" "y \<in> set rs" "owner x = s \<Longrightarrow> \<not> Q x" "owner y = s \<Longrightarrow> \<not> Q y" by auto
    with eq assms(2) [of x] assms(2) [of y] show "?k x = ?k y" by (force simp: owner_give key_give split: if_splits)
  qed
  then have "distinct (map ?k (update_where (\<lambda>r. owner r = s \<and> P r) (give t) ?kept))"
    by (simp add: update_where_def o_def)
  then show ?thesis by (rule distinct_map_filter)
qed

end

interpretation renders: item_table rd_item "\<lambda>t r. r\<lparr>rd_item := t\<rparr>" rd_kind by unfold_locales simp_all
interpretation dismissals: item_table dm_item "\<lambda>t r. r\<lparr>dm_item := t\<rparr>" dm_kind by unfold_locales simp_all
interpretation facts: item_table ft_item "\<lambda>t r. r\<lparr>ft_item := t\<rparr>" "\<lambda>r. True" by unfold_locales simp_all
interpretation credits: item_table ct_item "\<lambda>t r. r\<lparr>ct_item := t\<rparr>" "\<lambda>r. (ct_kind r, ct_person r)" by unfold_locales simp_all
interpretation overrides: item_table ov_item "\<lambda>t r. r\<lparr>ov_item := t\<rparr>" ov_field by unfold_locales simp_all

lemma set_only_first [simp]: "set (only_first xs ys) = set xs - set ys"
  by (auto simp: only_first_def)

lemma set_in_both [simp]: "set (in_both xs ys) = set xs \<inter> set ys"
  by (auto simp: in_both_def)

lemma kinds_of_item [simp]:
  "set (render_kinds db i) = rd_kind ` {r \<in> set (mg_renders db). rd_item r = i}"
  "set (dismissal_kinds db i) = dm_kind ` {r \<in> set (mg_dismissals db). dm_item r = i}"
  "set (override_fields db i) = ov_field ` {r \<in> set (mg_overrides db). ov_item r = i}"
  by (auto simp: render_kinds_def dismissal_kinds_def override_fields_def)

text \<open>The unique constraints of the tables.\<close>

definition merge_tables :: "merge_db \<Rightarrow> bool" where
  "merge_tables db \<longleftrightarrow> distinct (map mi_id (it_rows (mg_items db))) \<and>
     distinct (map (\<lambda>r. (rd_item r, rd_kind r)) (mg_renders db)) \<and>
     distinct (map (\<lambda>r. (dm_item r, dm_kind r)) (mg_dismissals db)) \<and>
     distinct (map (\<lambda>r. (ft_item r, True)) (mg_facts db)) \<and>
     distinct (map (\<lambda>r. (ct_item r, ct_kind r, ct_person r)) (mg_credits db)) \<and>
     distinct (map (\<lambda>r. (ov_item r, ov_field r)) (mg_overrides db))"

lemma move_facts_shape:
  assumes "move_facts repoint s t fs = Inr fs'"
  shows "filter (\<lambda>f. ft_item f \<noteq> s) fs' = filter (\<lambda>f. ft_item f \<noteq> s)
    (update_where (\<lambda>f. ft_item f = s \<and> repoint) (\<lambda>f. f\<lparr>ft_item := t\<rparr>) (filter (\<lambda>f. \<not> (ft_item f = s \<and> \<not> repoint)) fs))"
proof (cases repoint)
  case True
  with assms show ?thesis by (simp add: move_facts_def Let_def split: if_split_asm)
next
  case False
  with assms show ?thesis by (simp add: move_facts_def update_where_def)
qed

lemma move_facts_unique:
  assumes "move_facts repoint s t fs = Inr fs'" and "distinct (map (\<lambda>f. (ft_item f, True)) fs)"
  shows "distinct (map (\<lambda>f. (ft_item f, True)) fs')"
proof -
  have unit: "distinct (map (\<lambda>f. (ft_item f, True)) xs) \<longleftrightarrow> distinct (map ft_item xs)" for xs :: "facts_row list"
    by (simp add: distinct_map inj_on_def)
  show ?thesis
  proof (cases repoint)
    case True
    with assms(1) have "distinct (map ft_item fs')" by (simp add: move_facts_def Let_def split: if_split_asm)
    then show ?thesis by (simp only: unit)
  next
    case False
    with assms(1) have "fs' = filter (\<lambda>f. ft_item f \<noteq> s) fs" by (simp add: move_facts_def)
    then show ?thesis using distinct_map_filter [OF assms(2)] by simp
  qed
qed

subsection \<open>What a merge keeps\<close>

text \<open>The plan still says which renders and facts there are.\<close>

definition plan_holds :: "merge_db \<Rightarrow> merge_plan \<Rightarrow> bool" where
  "plan_holds db plan \<longleftrightarrow> (let now_planned = plan_merge db (pl_pair plan) in
     pl_renders_repoint plan = pl_renders_repoint now_planned \<and> pl_renders_drop plan = pl_renders_drop now_planned \<and>
     pl_facts_repoint plan = pl_facts_repoint now_planned)"

text \<open>
  The rows of an item, under their keys, after a merge: the survivor's and, under the keys it
  had none for, those of the row that went.
\<close>

abbreviation inherits :: "('r \<Rightarrow> nat) \<Rightarrow> (nat \<Rightarrow> 'r \<Rightarrow> 'r) \<Rightarrow> ('r \<Rightarrow> 'k) \<Rightarrow> nat \<Rightarrow> nat \<Rightarrow> 'r list \<Rightarrow> 'r set" where
  "inherits owner give key s t rs \<equiv> {r \<in> set rs. owner r \<noteq> s} \<union>
     give t ` {r \<in> set rs. owner r = s \<and> key r \<notin> key ` {q \<in> set rs. owner q = t}}"

lemma renders_moved:
  assumes "move_renders plan s t (mg_renders db) = Inr rs'" and "s \<noteq> t"
    and "pl_renders_repoint plan = only_first (render_kinds db s) (render_kinds db t)"
    and "pl_renders_drop plan = in_both (render_kinds db s) (render_kinds db t)"
  shows "set (filter (\<lambda>r. rd_item r \<noteq> s) rs') = inherits rd_item (\<lambda>t r. r\<lparr>rd_item := t\<rparr>) rd_kind s t (mg_renders db)"
    and "distinct (map (\<lambda>r. (rd_item r, rd_kind r)) rs')"
proof -
  from assms(1) have rs': "rs' = update_where (\<lambda>r. rd_item r = s \<and> rd_kind r \<in> set (pl_renders_repoint plan)) (\<lambda>r. r\<lparr>rd_item := t\<rparr>)
      (filter (\<lambda>r. \<not> (rd_item r = s \<and> rd_kind r \<in> set (pl_renders_drop plan))) (mg_renders db))"
    and "distinct (map (\<lambda>r. (rd_item r, rd_kind r)) rs')"
    by (auto simp: move_renders_def Let_def split: if_split_asm)
  then show "distinct (map (\<lambda>r. (rd_item r, rd_kind r)) rs')" by blast
  show "set (filter (\<lambda>r. rd_item r \<noteq> s) rs') = inherits rd_item (\<lambda>t r. r\<lparr>rd_item := t\<rparr>) rd_kind s t (mg_renders db)"
    unfolding rs' using assms(2) by (rule renders.repointed_set) (auto simp: assms(3,4))
qed

lemma dismissals_moved:
  assumes "s \<noteq> t"
  shows "set (filter (\<lambda>r. dm_item r \<noteq> s) (move_dismissals (in_both (dismissal_kinds db s) (dismissal_kinds db t))
      (only_first (dismissal_kinds db s) (dismissal_kinds db t)) s t (mg_dismissals db))) =
    inherits dm_item (\<lambda>t r. r\<lparr>dm_item := t\<rparr>) dm_kind s t (mg_dismissals db)"
  unfolding move_dismissals_def using assms by (rule dismissals.repointed_set) auto

lemma dismissals_unique:
  assumes "distinct (map (\<lambda>r. (dm_item r, dm_kind r)) (mg_dismissals db))"
  shows "distinct (map (\<lambda>r. (dm_item r, dm_kind r)) (filter (\<lambda>r. dm_item r \<noteq> s)
    (move_dismissals (in_both (dismissal_kinds db s) (dismissal_kinds db t))
      (only_first (dismissal_kinds db s) (dismissal_kinds db t)) s t (mg_dismissals db))))"
  unfolding move_dismissals_def using assms by (rule dismissals.repointed_unique) auto

lemma overrides_moved:
  assumes "s \<noteq> t"
  shows "set (filter (\<lambda>r. ov_item r \<noteq> s) (move_overrides (in_both (override_fields db s) (override_fields db t))
      (only_first (override_fields db s) (override_fields db t)) s t (mg_overrides db))) =
    inherits ov_item (\<lambda>t r. r\<lparr>ov_item := t\<rparr>) ov_field s t (mg_overrides db)"
  unfolding move_overrides_def using assms by (rule overrides.repointed_set) auto

lemma overrides_unique:
  assumes "distinct (map (\<lambda>r. (ov_item r, ov_field r)) (mg_overrides db))"
  shows "distinct (map (\<lambda>r. (ov_item r, ov_field r)) (filter (\<lambda>r. ov_item r \<noteq> s)
    (move_overrides (in_both (override_fields db s) (override_fields db t))
      (only_first (override_fields db s) (override_fields db t)) s t (mg_overrides db))))"
  unfolding move_overrides_def using assms by (rule overrides.repointed_unique) auto

text \<open>The credits of the model are moved without a condition beside the drop.\<close>

lemma move_credits_shape:
  "move_credits s t cs = update_where (\<lambda>c. ct_item c = s \<and> True) (\<lambda>c. c\<lparr>ct_item := t\<rparr>)
    (filter (\<lambda>c. \<not> (ct_item c = s \<and> (ct_kind c, ct_person c) \<in> (\<lambda>c. (ct_kind c, ct_person c)) ` {c \<in> set cs. ct_item c = t})) cs)"
  by (simp add: move_credits_def Let_def)

lemma credits_moved:
  assumes "s \<noteq> t"
  shows "set (filter (\<lambda>c. ct_item c \<noteq> s) (move_credits s t cs)) =
    inherits ct_item (\<lambda>t c. c\<lparr>ct_item := t\<rparr>) (\<lambda>c. (ct_kind c, ct_person c)) s t cs"
  unfolding move_credits_shape using assms by (rule credits.repointed_set) auto

lemma credits_unique:
  assumes "distinct (map (\<lambda>r. (ct_item r, ct_kind r, ct_person r)) cs)"
  shows "distinct (map (\<lambda>r. (ct_item r, ct_kind r, ct_person r)) (filter (\<lambda>c. ct_item c \<noteq> s) (move_credits s t cs)))"
  unfolding move_credits_shape using assms by (rule credits.repointed_unique) auto

lemma facts_moved:
  assumes "move_facts repoint s t fs = Inr fs'" and "s \<noteq> t"
    and "repoint \<longleftrightarrow> s \<in> ft_item ` set fs \<and> t \<notin> ft_item ` set fs"
  shows "set (filter (\<lambda>f. ft_item f \<noteq> s) fs') = inherits ft_item (\<lambda>t f. f\<lparr>ft_item := t\<rparr>) (\<lambda>f. ()) s t fs"
proof -
  have "set (filter (\<lambda>f. ft_item f \<noteq> s) fs') = {f \<in> set fs. ft_item f \<noteq> s} \<union>
      (\<lambda>f. f\<lparr>ft_item := t\<rparr>) ` {f \<in> set fs. ft_item f = s \<and> (\<forall>q \<in> set fs. ft_item q \<noteq> t)}"
    unfolding move_facts_shape [OF assms(1)] using assms(2) by (rule facts.repointed_set) (use assms(3) in auto)
  then show ?thesis by auto
qed

lemma image_except: "f ` {x \<in> A. f x \<noteq> i} = f ` A - {i}"
  by auto

lemma merged_rows:
  assumes "it_rows t' = filter (\<lambda>m. mi_id m \<noteq> mi_id a) (fst (adopt now a b rows))" and "distinct (map mi_id rows)"
  shows "distinct (map mi_id (it_rows t'))" and "mi_id ` set (it_rows t') = mi_id ` set rows - {mi_id a}"
    and "m \<in> set rows \<Longrightarrow> mi_id m \<notin> {mi_id a, mi_id b} \<Longrightarrow>
      (if mi_parent m = Some (mi_id a) then m\<lparr>mi_parent := Some (mi_id b), mi_updated := now\<rparr> else m) \<in> set (it_rows t')"
proof -
  have "distinct (map mi_id (fst (adopt now a b rows)))" using assms(2) by simp
  then show "distinct (map mi_id (it_rows t'))" unfolding assms(1) by (rule distinct_map_filter)
  have "mi_id ` set (it_rows t') = mi_id ` set (fst (adopt now a b rows)) - {mi_id a}"
    unfolding assms(1) set_filter by (rule image_except)
  then show "mi_id ` set (it_rows t') = mi_id ` set rows - {mi_id a}" by simp
  show "m \<in> set rows \<Longrightarrow> mi_id m \<notin> {mi_id a, mi_id b} \<Longrightarrow>
      (if mi_parent m = Some (mi_id a) then m\<lparr>mi_parent := Some (mi_id b), mi_updated := now\<rparr> else m) \<in> set (it_rows t')"
    using adopt_other [of m rows b a now] by (auto simp: assms(1))
qed

text \<open>The parent a survivor ends up with: its own, else its twin's; never the row that goes.\<close>

definition kept_parent :: "media_item \<Rightarrow> media_item \<Rightarrow> nat option" where
  "kept_parent a b = (let p = (if mi_parent b = None then mi_parent a else mi_parent b)
     in if p = Some (mi_id a) then Some (mi_id b) else p)"

lemma merged_survivor:
  assumes "b \<in> set rows" and "mi_id a \<noteq> mi_id b" and "it_rows t' = filter (\<lambda>m. mi_id m \<noteq> mi_id a) (fst (adopt now a b rows))"
  shows "\<exists>b' \<in> set (it_rows t'). mi_id b' = mi_id b \<and> mi_parent b' = kept_parent a b \<and>
    mi_logo_key b' = (if mi_logo_key b = None then mi_logo_key a else mi_logo_key b) \<and>
    mi_facts_at b' = later (mi_facts_at b) (mi_facts_at a) \<and> mi_credits_at b' = later (mi_credits_at b) (mi_credits_at a)"
proof -
  let ?e = "enrich now a b b"
  let ?b = "if mi_parent ?e = Some (mi_id a) then ?e\<lparr>mi_parent := Some (mi_id b), mi_updated := now\<rparr> else ?e"
  have "?b \<in> set (fst (adopt now a b rows))" using adopt_survivor [OF assms(1), of now a] by (simp add: Let_def)
  then have "?b \<in> set (it_rows t')" using assms(2) by (simp add: assms(3) enrich_def)
  then show ?thesis
    by (rule bexI [rotated]) (auto simp: enrich_def carried_logo_def carried_parent_def kept_parent_def Let_def)
qed

text \<open>
  CX: a merge loses nothing but the row. When a pair is merged (the plan still describing its
  renders and facts) exactly the stale row leaves the table; every other row stays, its children
  as children of the survivor; the survivor keeps its own parent, logo and looked-at stamps, or
  gets its twin's where it had none or an earlier one. In each of the five tables the rows of
  other items and of the survivor stay as they are, and the stale row's follow to the survivor
  under every key the survivor has none for. The audit keeps the plan and the server ids that go
  with the row, no row is left that refers to it, and every unique constraint still holds.
\<close>

theorem merge_moves_everything:
  assumes merge: "merge_one now plan db = Inr (db', out)" and merged: "mo_merged out \<noteq> []"
    and tables: "merge_tables db" and plan: "plan_holds db plan"
    and s: "s = mw_id (mp_stale (pl_pair plan))" and t: "t = mw_id (mp_survivor (pl_pair plan))" and "s \<noteq> t"
  shows "merge_tables db' \<and>
    mi_id ` set (it_rows (mg_items db')) = mi_id ` set (it_rows (mg_items db)) - {s} \<and>
    (\<forall>m \<in> set (it_rows (mg_items db)). mi_id m \<notin> {s, t} \<longrightarrow>
       (if mi_parent m = Some s then m\<lparr>mi_parent := Some t, mi_updated := now\<rparr> else m) \<in> set (it_rows (mg_items db'))) \<and>
    (\<exists>a b b'. item_by_id (it_rows (mg_items db)) s = Some a \<and> item_by_id (it_rows (mg_items db)) t = Some b \<and>
       b' \<in> set (it_rows (mg_items db')) \<and> mi_id b' = t \<and> mi_parent b' = kept_parent a b \<and>
       mi_logo_key b' = (if mi_logo_key b = None then mi_logo_key a else mi_logo_key b) \<and>
       mi_facts_at b' = later (mi_facts_at b) (mi_facts_at a) \<and> mi_credits_at b' = later (mi_credits_at b) (mi_credits_at a)) \<and>
    set (mg_renders db') = inherits rd_item (\<lambda>t r. r\<lparr>rd_item := t\<rparr>) rd_kind s t (mg_renders db) \<and>
    set (mg_dismissals db') = inherits dm_item (\<lambda>t r. r\<lparr>dm_item := t\<rparr>) dm_kind s t (mg_dismissals db) \<and>
    set (mg_facts db') = inherits ft_item (\<lambda>t r. r\<lparr>ft_item := t\<rparr>) (\<lambda>r. ()) s t (mg_facts db) \<and>
    set (mg_credits db') = inherits ct_item (\<lambda>t r. r\<lparr>ct_item := t\<rparr>) (\<lambda>r. (ct_kind r, ct_person r)) s t (mg_credits db) \<and>
    set (mg_overrides db') = inherits ov_item (\<lambda>t r. r\<lparr>ov_item := t\<rparr>) ov_field s t (mg_overrides db) \<and>
    sr_rows (mg_items db') = filter (\<lambda>r. ref_item r \<noteq> s) (sr_rows (mg_items db)) \<and>
    (\<exists>x. mg_audits db' = mg_audits db @ [x] \<and> ma_plan x = plan \<and> ma_stale_refs x = refs_for (sr_rows (mg_items db)) s)"
proof -
  have ne: "mw_id (mp_stale (pl_pair plan)) \<noteq> mw_id (mp_survivor (pl_pair plan))" using \<open>s \<noteq> t\<close> s t by simp
  obtain a b db1 where lock: "locked_pair (pl_pair plan) (it_rows (mg_items db)) = Some (a, b)"
    and mv: "moved now plan a b db = Inr db1"
    and tabs: "it_rows (mg_items db') = filter (\<lambda>m. mi_id m \<noteq> mi_id a) (fst (adopt now a b (it_rows (mg_items db))))"
    "sr_rows (mg_items db') = filter (\<lambda>r. ref_item r \<noteq> mi_id a) (sr_rows (mg_items db))"
    "mg_renders db' = filter (\<lambda>r. rd_item r \<noteq> mi_id a) (mg_renders db1)"
    "mg_dismissals db' = filter (\<lambda>r. dm_item r \<noteq> mi_id a) (mg_dismissals db1)"
    "mg_facts db' = filter (\<lambda>r. ft_item r \<noteq> mi_id a) (mg_facts db1)"
    "mg_credits db' = filter (\<lambda>r. ct_item r \<noteq> mi_id a) (mg_credits db1)"
    "mg_overrides db' = filter (\<lambda>r. ov_item r \<noteq> mi_id a) (mg_overrides db1)"
    and audit: "mg_audits db' = mg_audits db @ [merged_audit plan a b db (snd (adopt now a b (it_rows (mg_items db))))]"
    using merge merged ne by (rule merged_tables) blast
  note ab = locked_pairD [OF lock]
  have id: "mi_id a = s" "mi_id b = t" using ab s t by simp_all
  note mvd = movedD [OF mv, unfolded id]
  have pl: "pl_renders_repoint plan = only_first (render_kinds db s) (render_kinds db t)"
    "pl_renders_drop plan = in_both (render_kinds db s) (render_kinds db t)"
    "pl_facts_repoint plan \<longleftrightarrow> s \<in> ft_item ` set (mg_facts db) \<and> t \<notin> ft_item ` set (mg_facts db)"
    using plan by (simp_all add: plan_holds_def plan_merge_def Let_def s t)
  have wf: "distinct (map mi_id (it_rows (mg_items db)))" using tables by (simp add: merge_tables_def)
  note rows = merged_rows [OF tabs(1) wf, unfolded id]
  have found: "item_by_id (it_rows (mg_items db)) s = Some a" "item_by_id (it_rows (mg_items db)) t = Some b"
    using lock s t by (auto simp: locked_pair_def split: option.splits if_splits)
  have "set (mg_renders db') = inherits rd_item (\<lambda>t r. r\<lparr>rd_item := t\<rparr>) rd_kind s t (mg_renders db)"
    and "distinct (map (\<lambda>r. (rd_item r, rd_kind r)) (mg_renders db'))"
    using renders_moved [OF mvd(3) \<open>s \<noteq> t\<close> pl(1,2)] by (simp_all add: tabs(3) id distinct_map_filter)
  moreover have "set (mg_dismissals db') = inherits dm_item (\<lambda>t r. r\<lparr>dm_item := t\<rparr>) dm_kind s t (mg_dismissals db)"
    unfolding tabs(4) id mvd(5) using \<open>s \<noteq> t\<close> by (rule dismissals_moved)
  moreover have "set (mg_overrides db') = inherits ov_item (\<lambda>t r. r\<lparr>ov_item := t\<rparr>) ov_field s t (mg_overrides db)"
    unfolding tabs(7) id mvd(6) using \<open>s \<noteq> t\<close> by (rule overrides_moved)
  moreover have "set (mg_credits db') = inherits ct_item (\<lambda>t r. r\<lparr>ct_item := t\<rparr>) (\<lambda>r. (ct_kind r, ct_person r)) s t (mg_credits db)"
    unfolding tabs(6) id mvd(7) using \<open>s \<noteq> t\<close> by (rule credits_moved)
  moreover have "set (mg_facts db') = inherits ft_item (\<lambda>t r. r\<lparr>ft_item := t\<rparr>) (\<lambda>r. ()) s t (mg_facts db)"
    unfolding tabs(5) id using mvd(4) \<open>s \<noteq> t\<close> pl(3) by (rule facts_moved)
  moreover have "distinct (map (\<lambda>r. (dm_item r, dm_kind r)) (mg_dismissals db'))"
    "distinct (map (\<lambda>r. (ov_item r, ov_field r)) (mg_overrides db'))"
    "distinct (map (\<lambda>r. (ct_item r, ct_kind r, ct_person r)) (mg_credits db'))"
    using tables unfolding tabs id mvd(5-7) merge_tables_def by (blast intro: dismissals_unique overrides_unique credits_unique)+
  moreover have "distinct (map (\<lambda>r. (ft_item r, True)) (mg_facts db'))"
  proof -
    have "distinct (map (\<lambda>r. (ft_item r, True)) (mg_facts db))" using tables unfolding merge_tables_def by blast
    from move_facts_unique [OF mvd(4) this] show ?thesis unfolding tabs(5) by (rule distinct_map_filter)
  qed
  ultimately have "merge_tables db'" and sets:
    "set (mg_renders db') = inherits rd_item (\<lambda>t r. r\<lparr>rd_item := t\<rparr>) rd_kind s t (mg_renders db)"
    "set (mg_dismissals db') = inherits dm_item (\<lambda>t r. r\<lparr>dm_item := t\<rparr>) dm_kind s t (mg_dismissals db)"
    "set (mg_facts db') = inherits ft_item (\<lambda>t r. r\<lparr>ft_item := t\<rparr>) (\<lambda>r. ()) s t (mg_facts db)"
    "set (mg_credits db') = inherits ct_item (\<lambda>t r. r\<lparr>ct_item := t\<rparr>) (\<lambda>r. (ct_kind r, ct_person r)) s t (mg_credits db)"
    "set (mg_overrides db') = inherits ov_item (\<lambda>t r. r\<lparr>ov_item := t\<rparr>) ov_field s t (mg_overrides db)"
    using rows(1) unfolding merge_tables_def by blast+
  moreover have "\<forall>m \<in> set (it_rows (mg_items db)). mi_id m \<notin> {s, t} \<longrightarrow>
       (if mi_parent m = Some s then m\<lparr>mi_parent := Some t, mi_updated := now\<rparr> else m) \<in> set (it_rows (mg_items db'))"
    using rows(3) by blast
  moreover have "\<exists>a b b'. item_by_id (it_rows (mg_items db)) s = Some a \<and> item_by_id (it_rows (mg_items db)) t = Some b \<and>
       b' \<in> set (it_rows (mg_items db')) \<and> mi_id b' = t \<and> mi_parent b' = kept_parent a b \<and>
       mi_logo_key b' = (if mi_logo_key b = None then mi_logo_key a else mi_logo_key b) \<and>
       mi_facts_at b' = later (mi_facts_at b) (mi_facts_at a) \<and> mi_credits_at b' = later (mi_credits_at b) (mi_credits_at a)"
  proof -
    have "mi_id a \<noteq> mi_id b" using \<open>s \<noteq> t\<close> id by simp
    from merged_survivor [OF ab(2) this tabs(1), unfolded id] found show ?thesis by blast
  qed
  moreover have "\<exists>x. mg_audits db' = mg_audits db @ [x] \<and> ma_plan x = plan \<and> ma_stale_refs x = refs_for (sr_rows (mg_items db)) s"
    unfolding audit by (rule exI [of _ "merged_audit plan a b db (snd (adopt now a b (it_rows (mg_items db))))"]) (simp add: merged_audit_def Let_def id)
  moreover have "sr_rows (mg_items db') = filter (\<lambda>r. ref_item r \<noteq> s) (sr_rows (mg_items db))" using tabs(2) id by simp
  ultimately show ?thesis using rows(2) by (simp only: simp_thms)
qed

subsection \<open>A show that two rows name, with a season that two rows name\<close>

definition demo_item :: "nat \<Rightarrow> string \<Rightarrow> nat option \<Rightarrow> int \<Rightarrow> int option \<Rightarrow> instant \<Rightarrow> media_item" where
  "demo_item i kind parent tmdb season stamp = \<lparr>mi_id = i, mi_identity = nat_digits i, mi_library = ''TV'', mi_kind = kind,
     mi_parent = parent, mi_tmdb = Some tmdb, mi_tvdb = None, mi_imdb = None, mi_title = ''A show'', mi_year = None,
     mi_season = season, mi_episode = None, mi_root = None, mi_file = None, mi_logo_key = None, mi_facts_at = None,
     mi_credits_at = None, mi_updated = stamp\<rparr>"

definition demo_ref :: "nat \<Rightarrow> string \<Rightarrow> string \<Rightarrow> server_ref" where
  "demo_ref i server native = \<lparr>ref_id = i, ref_item = i mod 10, ref_server = server, ref_native = native,
     ref_library = ''TV'', ref_updated = 1\<rparr>"

definition twin_library :: merge_db where
  "twin_library = \<lparr>
     mg_items = \<lparr>it_rows = [demo_item 1 ''show'' None 7 None 10, demo_item 2 ''season'' (Some 1) 70 (Some 1) 11,
         demo_item 3 ''show'' None 7 None 20, demo_item 4 ''season'' (Some 3) 70 (Some 1) 21], it_next = 5,
       sr_rows = [demo_ref 1 ''plex'' ''100'', demo_ref 2 ''plex'' ''101'', demo_ref 3 ''plex'' ''200'',
         demo_ref 4 ''plex'' ''201'', demo_ref 11 ''jellyfin'' ''ab''], sr_next = 12\<rparr>,
     mg_renders = [\<lparr>rd_item = 1, rd_kind = ''poster'', rd_status = ''rendered'', rd_scored = None\<rparr>,
       \<lparr>rd_item = 1, rd_kind = ''background'', rd_status = ''rendered'', rd_scored = None\<rparr>,
       \<lparr>rd_item = 3, rd_kind = ''poster'', rd_status = ''rendered'', rd_scored = Some 20\<rparr>],
     mg_dismissals = [\<lparr>dm_item = 1, dm_kind = ''poster'', dm_evidence = ''e''\<rparr>],
     mg_facts = [\<lparr>ft_item = 1, ft_values = JNull\<rparr>],
     mg_credits = [\<lparr>ct_item = 1, ct_kind = ''actor'', ct_person = ''A''\<rparr>, \<lparr>ct_item = 3, ct_kind = ''actor'', ct_person = ''A''\<rparr>],
     mg_overrides = [\<lparr>ov_item = 1, ov_field = ''title'', ov_value = ''old''\<rparr>, \<lparr>ov_item = 3, ov_field = ''title'', ov_value = ''new''\<rparr>,
       \<lparr>ov_item = 1, ov_field = ''summary'', ov_value = ''kept''\<rparr>],
     mg_audits = [], mg_queue = \<lparr>db_rows = [], db_next = 1\<rparr>\<rparr>"

definition row_named :: "nat \<Rightarrow> string \<Rightarrow> merge_db \<Rightarrow> merge_row" where
  "row_named i native db = \<lparr>mw_native = Some native, mw_item = the (item_by_id (it_rows (mg_items db)) i)\<rparr>"

definition show_plan :: merge_plan where
  "show_plan = plan_merge twin_library \<lparr>mp_stale = row_named 1 ''100'' twin_library, mp_survivor = row_named 3 ''200'' twin_library\<rparr>"

definition season_plan :: merge_plan where
  "season_plan = plan_merge twin_library \<lparr>mp_stale = row_named 2 ''101'' twin_library, mp_survivor = row_named 4 ''201'' twin_library\<rparr>"

definition show_merged :: "merge_db \<times> merge_outcome" where
  "show_merged = projr (merge_one 50 show_plan twin_library)"

lemma show_merges: "merge_one 50 show_plan twin_library = Inr (fst show_merged, snd show_merged)"
  by code_simp

lemma twin_library_ok: "merge_tables twin_library"
  unfolding merge_tables_def by code_simp

lemma show_plan_holds: "plan_holds twin_library show_plan"
  by code_simp

theorem merge_moves_everything_witness:
  "mi_id ` set (it_rows (mg_items (fst show_merged))) = {1, 2, 3, 4} - {1} \<and>
   set (mg_overrides (fst show_merged)) =
     inherits ov_item (\<lambda>t r. r\<lparr>ov_item := t\<rparr>) ov_field 1 3 (mg_overrides twin_library)"
proof -
  have "mo_merged (snd show_merged) \<noteq> []" by code_simp
  moreover have "1 = mw_id (mp_stale (pl_pair show_plan))" "3 = mw_id (mp_survivor (pl_pair show_plan))" by code_simp+
  moreover have "mi_id ` set (it_rows (mg_items twin_library)) = {1, 2, 3, 4}" by code_simp
  ultimately show ?thesis
    using merge_moves_everything [OF show_merges _ twin_library_ok show_plan_holds, of 1 3] by (simp only: simp_thms)
qed

end
