(* ===== verification/Spec2Isabelle.thy ===== *)
theory Spec2Isabelle
  imports Queue_Props Worker Outcome_Props Retry_Props Run_Props Presence_Props Catchup_Verdicts
    Ladder Full_Pass Scheduler_Props Retention_Props Guard_Props Prune_Props Config_Props Merge_Props
begin

text \<open>
  autoposter keeps the artwork and the metadata of media servers (Plex, Jellyfin) in step with
  what it renders. Under \<open>src/src/autoposter\<close>, webhooks of Radarr and Sonarr, the scheduler and
  the operator turn into render intents (\<open>intake/\<close>, \<open>api/routes.py\<close>); intents are jobs of a
  PostgreSQL queue with a pool of workers (\<open>queue/\<close>); a worker resolves the item's row
  (\<open>servers/identity.py\<close>, \<open>render/pipeline.py\<close>), walks the artwork providers
  (\<open>providers/ladder.py\<close>) and leaves one outcome row per server (\<open>deliveries.py\<close>); a retry pass,
  the presence of libraries (\<open>servers/presence.py\<close>) and catch-up runs (\<open>catchup.py\<close>) look after
  the rows that are still owed; a scheduler (\<open>scheduler/\<close>) runs the passes, the prune and the
  retention, and keeps the history of runs. What all of them obey is one configuration document
  in the database (\<open>config/\<close>), which the operator saves, restores and imports while it runs.
  This development models those parts as functions on explicit state and proves what makes each
  of them correct.

  \<^bold>\<open>Theories\<close>
  \<^item> \<open>Prelude\<close>: instants, JSON, set-based statements on lists of rows, \<open>ORDER BY .. LIMIT 1\<close> with
    the locale \<open>ordered_choice\<close>, slices, printing (\<open>str\<close>, \<open>join\<close>, \<open>!r\<close>). \<open>Text\<close>: Python's
    string methods (\<open>strip\<close>, \<open>lower\<close>, \<open>split\<close>), and dictionaries with their insertion order.
  \<^item> \<open>Jobs\<close> (\<open>queue/jobs.py\<close>, the table of \<open>db/models.py Job\<close>, \<open>api/jobs.py cancel_job\<close>,
    \<open>api/routes.py retry_job, dismiss_job\<close>): enqueue, enqueue\_batch, claim, complete, fail, release,
    reclaim\_stale and the operator's three operations, with the partial unique index on live
    dedupe keys. \<open>Queue_Contract\<close> states what every operation keeps as locales and interprets
    them on the model; \<open>Queue_Props\<close> has the properties.
  \<^item> \<open>Pause\<close> (\<open>artwork_modes/base.py\<close>): the two plausibility guards and the worker fence; the
    interleavings of workers, bulk modes and the restart lock are the step relation
    \<open>pool_step\<close>. \<open>Worker\<close> (\<open>queue/worker.py\<close>): \<open>run_once\<close> with its ladder of exceptions, and
    \<open>run_worker\<close> with its gates.
  \<^item> \<open>Outcomes\<close>, \<open>Outcome_Props\<close> (\<open>deliveries.py\<close>): the two outcome tables with their shared
    upsert, the roll-up of a render and the warning of a job. \<open>Retry\<close>, \<open>Retry_Props\<close>:
    \<open>retry_pending_deliveries\<close>, row by row with its savepoints, counters and attempt budget.
  \<^item> \<open>Runs\<close>, \<open>Run_Props\<close> (\<open>scheduler/run_history.py\<close>): opening, closing and trimming runs, window
    counts, and the drain-watcher of full passes.
  \<^item> \<open>Presence\<close>, \<open>Presence_Props\<close> (\<open>servers/presence.py\<close>): the set-shaped stamps and roll-up.
  \<^item> \<open>Catchup\<close> (\<open>catchup.py\<close>): start, drain, finish, cancel, progress, retry of failed rows, and the
    predicates that name the servers owed a catch-up. \<open>Catchup_Props\<close> shows that a cancel
    undoes a start, \<open>Catchup_Ownership\<close> that no interleaving of committed transactions leaves
    a row owned by a run that is over (step relation \<open>catch_step\<close>), \<open>Catchup_Verdicts\<close> what ends
    a drain, that progress survives it, and which servers a save owes a catch-up.
  \<^item> \<open>Intake\<close>, \<open>Intake_Props\<close> (\<open>intake/arr.py\<close>, \<open>intake/routes.py\<close>): the schema gate of a delivery,
    both parsers, the render intent with its queue key and its stored form, and the two
    handlers with the event row and the jobs a delivery leaves behind.
  \<^item> \<open>Full_Pass\<close> (\<open>api/routes.py run_full_pass\<close>): presence, run history, intents and queue
    composed into one request that queues every item.
  \<^item> \<open>Ladder\<close> (\<open>providers/ladder.py\<close>, \<open>providers/base.py\<close>): ranking of candidates and the walk over
    the providers, refined to a choice over all of their candidates.
  \<^item> \<open>Items\<close>, \<open>Items_Props\<close> (\<open>servers/identity.py\<close>, \<open>db/refs.py\<close>, \<open>persist_identity\<close> of
    \<open>render/pipeline.py\<close>): the server-neutral key of an item and its upsert with server ids,
    parent and the replacement of a file. \<open>Prune\<close>, \<open>Prune_Props\<close> (\<open>scheduler/prune.py\<close>): the scan
    for what no server has any more, the caps, and the deletion between the transactions of
    other writers.
  \<^item> \<open>Scheduler\<close>, \<open>Scheduler_Props\<close> (\<open>scheduler/core.py\<close>): the claim of a due job, one claimed run
    with its row, its history and its announcements, and the lanes of heavy and light jobs
    (step relation \<open>lane_step\<close>). \<open>Retention\<close>, \<open>Retention_Props\<close> (\<open>scheduler/retention.py\<close>,
    \<open>api/action_center.py\<close>): the batched deletes and the reader of the newest job of a key.
  \<^item> \<open>Guard\<close>, \<open>Guard_Props\<close> (\<open>net/guard.py\<close>): which addresses a download may reach, the redirect
    loop and the cap on a body, with every packet sent on a trace.
  \<^item> \<open>Config_Doc\<close>, \<open>Config_Doc_Props\<close> (\<open>config/overrides.py\<close>): the walks over a configuration
    document (merge, unknown keys, paths, differences, what left the schema). \<open>Config_Store\<close>,
    \<open>Config_Store_Props\<close> (\<open>config/overrides.py\<close>, \<open>config/snapshots.py\<close>, \<open>config/loader.py\<close>): the one
    row, its history, seeding, the conversion of a delta and the load at boot. \<open>Config_Save\<close>,
    \<open>Config_Props\<close> (\<open>api/routes.py\<close>, \<open>config/live.py\<close>): the markers for values not shown, the
    guards, the commit and the swap, every endpoint that ends in a save, and the step relation
    \<open>config_step\<close> over all of them.

  \<^bold>\<open>Conventions.\<close> An instant is an integer number of microseconds. A table is a list of rows with
  its id sequence, which a failed or skipped insert advances too; a set-based statement is a
  map over the list. A transaction is one function, or one step of a step relation; row locks
  that \<open>SKIP LOCKED\<close> reads are an argument of \<open>claim\<close>. Errors are values of a sum type: a
  unique violation of the index is \<open>Inl\<close>, and so is every refusal. \<open>now\<close> and the database
  clock are arguments. What code outside the model answers is an argument too: the handlers'
  results and what they enqueue, the media servers' answers to a row of the retry pass, the
  compositor, a server's listing of its libraries, a provider's fetch, the resolver and the far
  end of a connection, the order in which a planner meets rows (\<open>planner\<close>), the bodies of
  scheduled jobs (\<open>run_env\<close>), and what the configuration's validator accepts, builds and dumps
  (\<open>checker\<close>), of which \<open>sound_checker\<close> names the documented behaviour the saves rely on. Texts
  are Latin-1. One instant stands for a whole retry pass, as in the code, which reads the
  clock once.

  \<^bold>\<open>Termination.\<close> Every function is total: loops over rows recurse on the list; the chunked
  batches, the batched deletes of the retention, the walk up a directory, the cascade of a
  deletion and the walks over a pair of documents have a measure; the redirect loop counts its
  hops down from the source's own bound; the worker loop is a list of turns. No fuel is used.

  \<^bold>\<open>Not modelled.\<close> The HTTP layer apart from the operations named above, the web UI, the
  clients of Plex, Jellyfin, Radarr, Sonarr and the metadata providers, image composition with
  badges and overlays, the collections engine with its builders (both branch on the objects of
  those clients), the declarations of the configuration schema (pydantic interprets them), and
  the setup wizard; logging everywhere. The trim of all kinds of runs is not a step of
  \<open>catch_step\<close>: it is a property of its own in \<open>Run_Props\<close>.
\<close>

end
